(* ===== verification/AMG_Prelude.thy ===== *)
theory AMG_Prelude
  imports Main "HOL-Library.Word"
begin

text \<open>
  Prelude of the libamg development: the outcome type of a call that may crash, the named
  collections of simplification rules that the component theories fill, and generic lemmas on
  \<^const>\<open>takeWhile\<close>, folds with an error and lists that several components share.

  A C function that can run into undefined behaviour (a null pointer is dereferenced, an array is
  accessed out of its bounds, an unterminated string is read, ...) returns a value of the sum type
  \<open>fault + 'a\<close>: \<^term>\<open>Inl f\<close> says that this call is the first to leave defined behaviour,
  \<^term>\<open>Inr x\<close> that it returned \<open>x\<close>.
\<close>

datatype fault =
    Null_Deref
  | Out_Of_Bounds
  | Unterminated
  | Uninitialised
  | Invalid_Free
  | Bad_Shift
  | Signed_Overflow
  | Process_Exit int

type_synonym 'a outcome = "fault + 'a"

named_theorems cstr_simps \<open>C strings inside buffers\<close>
named_theorems world_simps \<open>effects on the file system, the heap and the command log\<close>
named_theorems conf_simps \<open>reading and writing configuration lines\<close>

subsection \<open>Lists\<close>

lemma takeWhile_all: "(\<And>x. x \<in> set xs \<Longrightarrow> P x) \<Longrightarrow> takeWhile P xs = xs"
  by (simp add: takeWhile_eq_all_conv)

lemma takeWhile_append_stop:
  "(\<And>x. x \<in> set xs \<Longrightarrow> P x) \<Longrightarrow> \<not> P y \<Longrightarrow> takeWhile P (xs @ y # ys) = xs"
  by (induction xs) auto

lemma dropWhile_append_stop:
  "(\<And>x. x \<in> set xs \<Longrightarrow> P x) \<Longrightarrow> \<not> P y \<Longrightarrow> dropWhile P (xs @ y # ys) = y # ys"
  by (induction xs) auto

lemma dropWhile_hd_not: "xs \<noteq> [] \<Longrightarrow> \<not> P (hd xs) \<Longrightarrow> dropWhile P xs = xs"
  by (cases xs) auto

lemma takeWhile_not_in: "x \<notin> set (takeWhile (\<lambda>c. c \<noteq> x) xs)"
  by (auto dest: set_takeWhileD)

lemma split_first: "x \<in> set xs \<Longrightarrow> xs = takeWhile (\<lambda>c. c \<noteq> x) xs @ x # tl (dropWhile (\<lambda>c. c \<noteq> x) xs)"
  by (induction xs) auto

lemma take_absorb [simp]: "length xs \<le> n \<Longrightarrow> take n xs = xs"
  by simp

subsection \<open>Loops that may stop with a fault\<close>

text \<open>
  \<open>run_steps f c xs\<close> is the loop \<open>for each x in xs: c = f(c, x)\<close>, cut short by the first fault.
\<close>

fun run_steps :: "('c \<Rightarrow> 'x \<Rightarrow> 'c outcome) \<Rightarrow> 'c \<Rightarrow> 'x list \<Rightarrow> 'c outcome" where
  "run_steps f c [] = Inr c"
| "run_steps f c (x # xs) = (case f c x of Inl e \<Rightarrow> Inl e | Inr c' \<Rightarrow> run_steps f c' xs)"

lemma run_steps_append:
  "run_steps f c (xs @ ys) = (case run_steps f c xs of Inl e \<Rightarrow> Inl e | Inr c' \<Rightarrow> run_steps f c' ys)"
  by (induction xs arbitrary: c) (auto split: sum.splits)

lemma run_steps_foldl:
  "(\<And>c x. f c x = Inr (g c x)) \<Longrightarrow> run_steps f c xs = Inr (foldl g c xs)"
  by (induction xs arbitrary: c) auto

lemma run_steps_inv:
  assumes "run_steps f c xs = Inr c'" and "P c"
    and "\<And>c x c'. P c \<Longrightarrow> f c x = Inr c' \<Longrightarrow> P c'"
  shows "P c'"
  using assms(1,2)
proof (induction xs arbitrary: c)
  case Nil
  then show ?case by simp
next
  case (Cons x xs)
  then show ?case using assms(3) by (auto split: sum.splits)
qed

lemma foldl_inv: "P c \<Longrightarrow> (\<And>c x. P c \<Longrightarrow> P (f c x)) \<Longrightarrow> P (foldl f c xs)"
  by (induction xs arbitrary: c) auto

lemma foldl_skip: "(\<And>x. x \<in> set xs \<Longrightarrow> f c x = c) \<Longrightarrow> foldl f c xs = c"
  by (induction xs) auto

end
