(* ===== verification/C_Library.thy ===== *)
theory C_Library
  imports AMG_Prelude
begin

text \<open>
  The part of the C library that the sources call on strings and numbers.

  A character buffer is a \<^typ>\<open>char list\<close>, a pointer into it an offset. The C string at an offset
  is what precedes the first NUL byte. \<open>int\<close> is a 32-bit two's-complement number, written here as an
  \<^typ>\<open>int\<close> in that range; \<open>long\<close> has 32 bits too (the ILP32 target of the gateway), so \<open>atoi\<close>,
  which glibc defines as \<open>(int) strtol(s, NULL, 10)\<close>, saturates at the ends of the range. Whether
  plain \<open>char\<close> is signed is a parameter of the definitions that depend on it.
\<close>

abbreviation NUL :: char where "NUL \<equiv> CHR 0x00"
abbreviation LF :: char where "LF \<equiv> CHR 0x0A"

subsection \<open>Characters\<close>

definition c_isspace :: "char \<Rightarrow> bool" where
  "c_isspace c \<longleftrightarrow> c = CHR 0x20 \<or> c = CHR 0x09 \<or> c = CHR 0x0A \<or> c = CHR 0x0B \<or> c = CHR 0x0C \<or> c = CHR 0x0D"

definition c_isdigit :: "char \<Rightarrow> bool" where
  "c_isdigit c \<longleftrightarrow> 48 \<le> (of_char c :: nat) \<and> (of_char c :: nat) \<le> 57"

definition char_val :: "bool \<Rightarrow> char \<Rightarrow> int" where
  "char_val sc c =
     (let n = (of_char c :: int) in if sc \<and> 128 \<le> n then n - 256 else n)"

lemma not_isspace_NUL [simp]: "\<not> c_isspace NUL"
  by (simp add: c_isspace_def)

subsection \<open>C strings in a buffer\<close>

definition cstr :: "char list \<Rightarrow> nat \<Rightarrow> string" where
  "cstr buf p = takeWhile (\<lambda>c. c \<noteq> NUL) (drop p buf)"

definition terminated :: "char list \<Rightarrow> nat \<Rightarrow> bool" where
  "terminated buf p \<longleftrightarrow> NUL \<in> set (drop p buf)"

definition c_strlen :: "char list \<Rightarrow> nat \<Rightarrow> nat outcome" where
  "c_strlen buf p = (if terminated buf p then Inr (length (cstr buf p)) else Inl Unterminated)"

text \<open>\<open>strchr(s, c)\<close>: the terminator belongs to the string, so \<open>strchr(s, 0)\<close> finds it.\<close>

definition c_strchr :: "char list \<Rightarrow> nat \<Rightarrow> char \<Rightarrow> nat option outcome" where
  "c_strchr buf p c =
     (let s = cstr buf p in
      if c \<in> set s then Inr (Some (p + length (takeWhile (\<lambda>x. x \<noteq> c) s)))
      else if \<not> terminated buf p then Inl Unterminated
      else if c = NUL then Inr (Some (p + length s))
      else Inr None)"

text \<open>
  \<open>strtok(s, d)\<close>: skip delimiters, end the token at the next delimiter with a NUL byte, remember
  where to go on. The result is the token (or NULL), the buffer and the saved pointer.
\<close>

definition c_strtok :: "char list \<Rightarrow> nat \<Rightarrow> string \<Rightarrow> nat option \<times> char list \<times> nat" where
  "c_strtok buf p d =
     (let s = cstr buf p;
          t = p + length (takeWhile (\<lambda>c. c \<in> set d) s);
          tok = takeWhile (\<lambda>c. c \<notin> set d) (dropWhile (\<lambda>c. c \<in> set d) s);
          e = t + length tok
      in if tok = [] then (None, buf, t)
         else if e < p + length s then (Some t, buf[e := NUL], Suc e)
         else (Some t, buf, e))"

text \<open>The tokens that \<open>strtok(s, d)\<close> and the following calls \<open>strtok(NULL, d)\<close> return before NULL.\<close>

function strtok_all :: "string \<Rightarrow> string \<Rightarrow> string list" where
  "strtok_all d s =
     (let r = dropWhile (\<lambda>c. c \<in> set d) s in
      if r = [] then []
      else takeWhile (\<lambda>c. c \<notin> set d) r # strtok_all d (dropWhile (\<lambda>c. c \<notin> set d) r))"
  by pat_completeness auto
termination
proof (relation "measure (\<lambda>(d, s). length s)", goal_cases)
  case 1
  then show ?case by simp
next
  case (2 d s r)
  then have "r \<noteq> []" "hd r \<notin> set d" using hd_dropWhile [of "\<lambda>c. c \<in> set d" s] by auto
  then have "dropWhile (\<lambda>c. c \<notin> set d) r = dropWhile (\<lambda>c. c \<notin> set d) (tl r)" by (cases r) auto
  moreover have "length (dropWhile (\<lambda>c. c \<notin> set d) (tl r)) \<le> length (tl r)"
    by (rule length_dropWhile_le)
  moreover have "length (tl r) < length r" using \<open>r \<noteq> []\<close> by (cases r) auto
  moreover have "length r \<le> length s" using 2(1) length_dropWhile_le by simp
  ultimately show ?case by simp
qed

declare strtok_all.simps [simp del]

text \<open>\<open>strncpy(dst, s, n)\<close> into a zeroed array, read back as a C string.\<close>

definition c_strncpy :: "nat \<Rightarrow> string \<Rightarrow> string" where
  "c_strncpy n s = take n s"

text \<open>\<open>snprintf(buf, n, ...)\<close>: the text cut to what fits before the terminator.\<close>

definition c_snprintf :: "nat \<Rightarrow> string \<Rightarrow> string" where
  "c_snprintf n s = take (n - 1) s"

lemma cstr_no_NUL: "NUL \<notin> set (cstr buf p)"
  by (simp add: cstr_def takeWhile_not_in)

lemma cstr_app_NUL [cstr_simps]: "NUL \<notin> set s \<Longrightarrow> cstr (s @ NUL # r) 0 = s"
  by (auto simp: cstr_def intro!: takeWhile_append_stop)

lemma cstr_drop_app [cstr_simps]:
  "NUL \<notin> set s \<Longrightarrow> p = length q \<Longrightarrow> cstr (q @ s @ NUL # r) p = s"
  by (auto simp: cstr_def intro!: takeWhile_append_stop)

lemma cstr_prefix: "\<exists>r. drop p buf = cstr buf p @ r"
  by (metis cstr_def takeWhile_dropWhile_id)

lemma terminated_split:
  assumes "terminated buf p"
  obtains r where "drop p buf = cstr buf p @ NUL # r"
  using assms split_first [of NUL "drop p buf"] by (auto simp: terminated_def cstr_def)

lemma terminated_length: "terminated buf p \<Longrightarrow> p + length (cstr buf p) < length buf"
proof -
  assume "terminated buf p"
  then obtain r where "drop p buf = cstr buf p @ NUL # r" by (rule terminated_split)
  then have "length (drop p buf) = length (cstr buf p) + Suc (length r)" by simp
  then show ?thesis by simp
qed

lemma cstr_nth:
  assumes "i < length (cstr buf p)"
  shows "buf ! (p + i) = cstr buf p ! i"
proof -
  obtain r where r: "drop p buf = cstr buf p @ r" using cstr_prefix by blast
  have "p \<le> length buf"
  proof (rule ccontr)
    assume "\<not> p \<le> length buf"
    then have "cstr buf p = []" by (simp add: cstr_def)
    with assms show False by simp
  qed
  then have "buf ! (p + i) = drop p buf ! i" by simp
  with r assms show ?thesis by (simp add: nth_append)
qed

lemma cstr_end: "terminated buf p \<Longrightarrow> buf ! (p + length (cstr buf p)) = NUL"
proof -
  assume t: "terminated buf p"
  then obtain r where r: "drop p buf = cstr buf p @ NUL # r" by (rule terminated_split)
  then have "drop p buf ! length (cstr buf p) = NUL" by (simp add: nth_append)
  with terminated_length [OF t] show ?thesis by simp
qed

lemma drop_update_inside:
  "p \<le> q \<Longrightarrow> drop p (buf[q := x]) = (drop p buf)[q - p := x]"
  by (simp add: drop_update_swap)

text \<open>Writing a NUL byte inside a C string cuts it there.\<close>

lemma cstr_cut:
  assumes "i \<le> length (cstr buf p)" and "p + i < length buf"
  shows "cstr (buf[p + i := NUL]) p = take i (cstr buf p)"
proof -
  have nul: "\<And>c. c \<in> set (take i (cstr buf p)) \<Longrightarrow> c \<noteq> NUL"
    using cstr_no_NUL by (metis in_set_takeD)
  obtain r where r: "drop p buf = cstr buf p @ r" using cstr_prefix by blast
  have len: "i < length (drop p buf)" using assms(2) by simp
  have "drop p (buf[p + i := NUL]) = (drop p buf)[i := NUL]"
    by (simp add: drop_update_inside)
  also have "\<dots> = take i (drop p buf) @ NUL # drop (Suc i) (drop p buf)"
    using len by (simp add: upd_conv_take_nth_drop del: drop_drop take_drop)
  also have "take i (drop p buf) = take i (cstr buf p)"
    using r assms(1) by simp
  finally have "cstr (buf[p + i := NUL]) p =
      takeWhile (\<lambda>c. c \<noteq> NUL) (take i (cstr buf p) @ NUL # drop (Suc i) (drop p buf))"
    by (simp add: cstr_def)
  also have "\<dots> = take i (cstr buf p)" using nul by (intro takeWhile_append_stop) auto
  finally show ?thesis .
qed

lemma terminated_cut: "p + i < length buf \<Longrightarrow> terminated (buf[p + i := NUL]) p"
proof -
  assume a: "p + i < length buf"
  then have "drop p (buf[p + i := NUL]) ! i = NUL" and "i < length (drop p (buf[p + i := NUL]))"
    by simp_all
  then show ?thesis unfolding terminated_def by (metis nth_mem)
qed

subsection \<open>Decimal numbers\<close>

definition INT_MAX :: int where "INT_MAX = 2147483647"
definition INT_MIN :: int where "INT_MIN = - 2147483648"

definition int32 :: "int \<Rightarrow> bool" where
  "int32 x \<longleftrightarrow> INT_MIN \<le> x \<and> x \<le> INT_MAX"

text \<open>Conversions to \<open>short\<close> and \<open>unsigned short\<close> keep the low 16 bits.\<close>

definition to_short :: "int \<Rightarrow> int" where
  "to_short x = (x + 32768) mod 65536 - 32768"

definition to_ushort :: "int \<Rightarrow> int" where
  "to_ushort x = x mod 65536"

definition short_range :: "int \<Rightarrow> bool" where
  "short_range x \<longleftrightarrow> - 32768 \<le> x \<and> x \<le> 32767"

definition ushort_range :: "int \<Rightarrow> bool" where
  "ushort_range x \<longleftrightarrow> 0 \<le> x \<and> x \<le> 65535"

lemma to_short_id [simp]: "short_range x \<Longrightarrow> to_short x = x"
  by (simp add: to_short_def short_range_def)

lemma to_short_range [simp]: "short_range (to_short x)"
  using pos_mod_bound [of 65536 "x + 32768"] pos_mod_sign [of 65536 "x + 32768"]
  by (auto simp: to_short_def short_range_def)

lemma to_ushort_range [simp]: "ushort_range (to_ushort x)"
  using pos_mod_bound [of 65536 x] pos_mod_sign [of 65536 x]
  by (auto simp: to_ushort_def ushort_range_def)

lemma to_ushort_to_short [simp]: "ushort_range x \<Longrightarrow> to_ushort (to_short x) = x"
proof -
  assume r: "ushort_range x"
  have "((x + 32768) mod 65536 - 32768) mod 65536 = (x + 32768 - 32768) mod 65536"
    by (rule mod_diff_left_eq)
  with r show ?thesis by (simp add: to_ushort_def to_short_def ushort_range_def)
qed

lemma short_range_int32: "short_range x \<Longrightarrow> int32 x"
  by (simp add: short_range_def int32_def INT_MIN_def INT_MAX_def)

lemma int32_to_short [simp]: "int32 (to_short x)"
  by (rule short_range_int32) simp

fun show_nat :: "nat \<Rightarrow> string" where
  "show_nat n =
     (if n < 10 then [char_of (48 + n)] else show_nat (n div 10) @ [char_of (48 + n mod 10)])"

declare show_nat.simps [simp del]

lemma char_of_digit [simp]:
  "char_of (48 :: nat) = CHR ''0''" "char_of (49 :: nat) = CHR ''1''"
  "char_of (50 :: nat) = CHR ''2''" "char_of (51 :: nat) = CHR ''3''"
  "char_of (52 :: nat) = CHR ''4''" "char_of (53 :: nat) = CHR ''5''"
  "char_of (54 :: nat) = CHR ''6''" "char_of (55 :: nat) = CHR ''7''"
  "char_of (56 :: nat) = CHR ''8''" "char_of (57 :: nat) = CHR ''9''"
  by code_simp+

text \<open>\<open>printf("%d", x)\<close> and \<open>printf("%hd", x)\<close>\<close>

definition fmt_d :: "int \<Rightarrow> string" where
  "fmt_d x = (if x < 0 then CHR 0x2D # show_nat (nat (- x)) else show_nat (nat x))"

definition fmt_hd :: "int \<Rightarrow> string" where
  "fmt_hd x = fmt_d (to_short x)"

definition digit_val :: "char \<Rightarrow> nat" where
  "digit_val c = of_char c - 48"

definition read_digits :: "string \<Rightarrow> nat" where
  "read_digits s = foldl (\<lambda>a c. 10 * a + digit_val c) 0 (takeWhile c_isdigit s)"

definition c_atoi :: "string \<Rightarrow> int" where
  "c_atoi s =
     (case dropWhile c_isspace s of
        [] \<Rightarrow> 0
      | c # t \<Rightarrow>
          (if c = CHR 0x2D then max INT_MIN (- int (read_digits t))
           else if c = CHR 0x2B then min INT_MAX (int (read_digits t))
           else min INT_MAX (int (read_digits (c # t)))))"

lemma show_nat_digits: "c \<in> set (show_nat n) \<Longrightarrow> c_isdigit c"
  by (induction n rule: show_nat.induct)
    (subst (asm) (2) show_nat.simps, auto simp: c_isdigit_def split: if_splits)

lemma show_nat_nonempty [simp]: "show_nat n \<noteq> []"
  by (subst show_nat.simps) simp

lemma foldl_show_nat: "foldl (\<lambda>a c. 10 * a + digit_val c) 0 (show_nat n) = n"
proof (induction n rule: show_nat.induct)
  case (1 n)
  show ?case
    by (subst show_nat.simps) (use 1 in \<open>auto simp: digit_val_def\<close>)
qed

lemma read_digits_show_nat:
  "r = [] \<or> \<not> c_isdigit (hd r) \<Longrightarrow> read_digits (show_nat n @ r) = n"
proof -
  assume r: "r = [] \<or> \<not> c_isdigit (hd r)"
  have "takeWhile c_isdigit (show_nat n @ r) = show_nat n"
    using r show_nat_digits [of _ n] by (cases r) (auto simp: takeWhile_append)
  then show ?thesis by (simp add: read_digits_def foldl_show_nat)
qed

lemma digit_not_special:
  "c_isdigit c \<Longrightarrow> \<not> c_isspace c \<and> c \<noteq> CHR 0x2D \<and> c \<noteq> CHR 0x2B"
  by (auto simp: c_isdigit_def c_isspace_def)

lemma fmt_d_nonempty [simp]: "fmt_d x \<noteq> []"
  by (simp add: fmt_d_def)

lemma fmt_d_chars: "c \<in> set (fmt_d x) \<Longrightarrow> c_isdigit c \<or> c = CHR 0x2D"
  using show_nat_digits by (auto simp: fmt_d_def split: if_splits)

lemma atoi_fmt_d_rest:
  assumes "int32 x" and "r = [] \<or> \<not> c_isdigit (hd r)"
  shows "c_atoi (fmt_d x @ r) = x"
proof (cases "x < 0")
  case True
  then show ?thesis using assms read_digits_show_nat [OF assms(2)]
    by (auto simp: fmt_d_def c_atoi_def c_isspace_def int32_def)
next
  case False
  obtain c t where ct: "show_nat (nat x) = c # t"
    using show_nat_nonempty by (meson neq_Nil_conv)
  then have "c_isdigit c" using show_nat_digits [of c "nat x"] by simp
  then have c: "\<not> c_isspace c" "c \<noteq> CHR 0x2D" "c \<noteq> CHR 0x2B"
    using digit_not_special by auto
  have "read_digits (c # t @ r) = nat x"
    using read_digits_show_nat [OF assms(2), of "nat x"] ct by simp
  with False c ct assms(1) show ?thesis
    by (auto simp: fmt_d_def c_atoi_def int32_def)
qed

lemma atoi_fmt_d [simp]: "int32 x \<Longrightarrow> c_atoi (fmt_d x) = x"
  using atoi_fmt_d_rest [of x "[]"] by simp

lemma atoi_fmt_hd [simp]: "c_atoi (fmt_hd x) = to_short x"
  by (simp add: fmt_hd_def)

lemma atoi_int32: "int32 (c_atoi s)"
  by (auto simp: c_atoi_def int32_def INT_MIN_def INT_MAX_def split: list.split)

text \<open>The length of a printed number is bounded, which bounds the buffers it is printed into.\<close>

lemma show_nat_length: "n < 10 ^ k \<Longrightarrow> 0 < k \<Longrightarrow> length (show_nat n) \<le> k"
proof (induction n arbitrary: k rule: show_nat.induct)
  case (1 n)
  show ?case
  proof (cases "n < 10")
    case True
    with 1 show ?thesis by (subst show_nat.simps) simp
  next
    case False
    obtain j where j: "k = Suc j" using 1 by (cases k) auto
    with False 1(2) have "0 < j" by (cases j) auto
    moreover have "n div 10 < 10 ^ j" using 1(2) j by (simp add: less_mult_imp_div_less)
    ultimately have "length (show_nat (n div 10)) \<le> j" using 1(1) False by blast
    with False j show ?thesis by (subst show_nat.simps) simp
  qed
qed

lemma fmt_d_length_bound:
  assumes "\<bar>x\<bar> < 10 ^ k" and "0 < k"
  shows "length (fmt_d x) \<le> Suc k"
proof -
  have "nat \<bar>x\<bar> < 10 ^ k" using assms(1) by (simp add: nat_less_iff)
  then have "length (show_nat (nat \<bar>x\<bar>)) \<le> k" using assms(2) by (rule show_nat_length)
  then show ?thesis by (auto simp: fmt_d_def abs_if split: if_splits)
qed

lemma fmt_d_length: "int32 x \<Longrightarrow> length (fmt_d x) \<le> 11"
  using fmt_d_length_bound [of x 10] by (auto simp: int32_def INT_MIN_def INT_MAX_def)

lemma fmt_hd_length: "length (fmt_hd x) \<le> 6"
  using fmt_d_length_bound [of "to_short x" 5] to_short_range [of x]
  by (auto simp: fmt_hd_def short_range_def)

subsection \<open>Comma lists\<close>

fun comma_join :: "string list \<Rightarrow> string" where
  "comma_join [] = []"
| "comma_join [x] = x"
| "comma_join (x # y # xs) = x @ CHR '','' # comma_join (y # xs)"

lemma strtok_all_Nil [simp]: "strtok_all d [] = []"
  by (subst strtok_all.simps) simp

lemma strtok_all_one:
  assumes "x \<noteq> []" and "CHR '','' \<notin> set x"
  shows "strtok_all '','' x = [x]"
proof -
  have "dropWhile (\<lambda>z. z = CHR '','') x = x" using assms by (cases x) auto
  moreover have "takeWhile (\<lambda>z. z \<noteq> CHR '','') x = x" using assms(2) by (intro takeWhile_all) auto
  moreover have "dropWhile (\<lambda>z. z \<noteq> CHR '','') x = []" using assms(2) by auto
  ultimately show ?thesis using assms(1) by (subst strtok_all.simps) (simp del: dropWhile_eq_Nil_conv)
qed

lemma strtok_all_cons:
  assumes "x \<noteq> []" and "CHR '','' \<notin> set x"
  shows "strtok_all '','' (x @ CHR '','' # s) = x # strtok_all '','' s"
proof -
  obtain c y where x: "x = c # y" using assms(1) by (cases x) auto
  have d: "dropWhile (\<lambda>z. z = CHR '','') (x @ CHR '','' # s) = x @ CHR '','' # s"
    using x assms(2) by auto
  have t: "takeWhile (\<lambda>z. z \<noteq> CHR '','') (x @ CHR '','' # s) = x"
    using assms(2) by (intro takeWhile_append_stop) auto
  have r: "dropWhile (\<lambda>z. z \<noteq> CHR '','') (x @ CHR '','' # s) = CHR '','' # s"
    using assms(2) by (intro dropWhile_append_stop) auto
  have s: "strtok_all '','' (CHR '','' # s) = strtok_all '','' s"
    by (subst (1 2) strtok_all.simps) simp
  show ?thesis by (subst strtok_all.simps) (simp add: d t r s Let_def)
qed

lemma strtok_all_join:
  "\<forall>x \<in> set xs. x \<noteq> [] \<and> CHR '','' \<notin> set x \<Longrightarrow> strtok_all '','' (comma_join xs) = xs"
  by (induction xs rule: comma_join.induct)
    (simp_all add: strtok_all_one strtok_all_cons)

end
