(* ===== verification/Str.thy ===== *)
theory Str
  imports C_Library
begin

text \<open>
  String helpers of src/str.c, on buffers: each function takes the buffer and the offset of its
  argument, and returns the buffer it has written together with the offset it returns. The loops of
  the source are recursive functions over offsets. The second half gives the abstract meaning of
  each helper on strings and proves that the buffer code refines it; the configuration parsers
  use those equations only.
\<close>

subsection \<open>The code\<close>

fun striplf_loop :: "bool \<Rightarrow> nat \<Rightarrow> nat \<Rightarrow> char list \<Rightarrow> char list" where
  "striplf_loop sc p 0 buf = buf"
| "striplf_loop sc p (Suc n) buf =
     (if char_val sc (buf ! (p + n)) < 32 then striplf_loop sc p n (buf[p + n := NUL]) else buf)"

definition libamg_str_striplf :: "bool \<Rightarrow> char list \<Rightarrow> nat \<Rightarrow> char list outcome" where
  "libamg_str_striplf sc buf p =
     (case c_strlen buf p of Inl e \<Rightarrow> Inl e | Inr ln \<Rightarrow> Inr (striplf_loop sc p ln buf))"

function libamg_str_skip_spaces :: "char list \<Rightarrow> nat \<Rightarrow> nat outcome" where
  "libamg_str_skip_spaces buf p =
     (if length buf \<le> p then Inl Out_Of_Bounds
      else if c_isspace (buf ! p) then libamg_str_skip_spaces buf (Suc p)
      else Inr p)"
  by pat_completeness auto
termination
  by (relation "measure (\<lambda>(buf, p). length buf - p)") auto

declare libamg_str_skip_spaces.simps [simp del]

function strim_end :: "char list \<Rightarrow> int \<Rightarrow> int \<Rightarrow> int" where
  "strim_end buf s e = (if s \<le> e \<and> c_isspace (buf ! nat e) then strim_end buf s (e - 1) else e)"
  by pat_completeness auto
termination
  by (relation "measure (\<lambda>(buf, s, e). nat (e + 1 - s))") auto

declare strim_end.simps [simp del]

definition libamg_str_strim :: "char list \<Rightarrow> nat \<Rightarrow> (char list \<times> nat) outcome" where
  "libamg_str_strim buf p =
     (case libamg_str_skip_spaces buf p of
        Inl e \<Rightarrow> Inl e
      | Inr s \<Rightarrow>
          (case c_strlen buf s of
             Inl e \<Rightarrow> Inl e
           | Inr sz \<Rightarrow>
               (if sz = 0 then Inr (buf, s)
                else
                  let e = strim_end buf (int s) (int (s + sz) - 1) in
                  if e + 1 < 0 \<or> int (length buf) \<le> e + 1 then Inl Out_Of_Bounds
                  else Inr (buf[nat (e + 1) := NUL], s))))"

definition libamg_str_next_token :: "char list \<Rightarrow> nat \<Rightarrow> char \<Rightarrow> (char list \<times> nat option) outcome" where
  "libamg_str_next_token buf p sep =
     (case c_strchr buf p sep of
        Inl e \<Rightarrow> Inl e
      | Inr None \<Rightarrow> Inr (buf, None)
      | Inr (Some q) \<Rightarrow> Inr (buf[q := NUL], Some (Suc q)))"

subsection \<open>What it means on strings\<close>

definition strip_ctl :: "bool \<Rightarrow> string \<Rightarrow> string" where
  "strip_ctl sc s = rev (dropWhile (\<lambda>c. char_val sc c < 32) (rev s))"

definition trim_spaces :: "string \<Rightarrow> string" where
  "trim_spaces s = rev (dropWhile c_isspace (rev (dropWhile c_isspace s)))"

lemma striplf_loop_length [simp]: "length (striplf_loop sc p n buf) = length buf"
  by (induction sc p n buf rule: striplf_loop.induct) auto

lemma striplf_loop_before: "i < p \<Longrightarrow> striplf_loop sc p n buf ! i = buf ! i"
  by (induction sc p n buf rule: striplf_loop.induct) auto

lemma striplf_loop_after: "p + n \<le> i \<Longrightarrow> striplf_loop sc p n buf ! i = buf ! i"
  by (induction sc p n buf rule: striplf_loop.induct) auto

lemma strip_ctl_snoc:
  "strip_ctl sc (s @ [c]) = (if char_val sc c < 32 then strip_ctl sc s else s @ [c])"
  by (simp add: strip_ctl_def)

lemma cstr_striplf_loop:
  "terminated buf p \<Longrightarrow> n = length (cstr buf p) \<Longrightarrow>
     cstr (striplf_loop sc p n buf) p = strip_ctl sc (cstr buf p) \<and>
     terminated (striplf_loop sc p n buf) p"
proof (induction n arbitrary: buf)
  case 0
  then show ?case by (simp add: strip_ctl_def)
next
  case (Suc n)
  from Suc.prems have lt: "p + n < length buf" using terminated_length by fastforce
  have last: "buf ! (p + n) = cstr buf p ! n" using Suc.prems(2) by (intro cstr_nth) simp
  have split: "cstr buf p = take n (cstr buf p) @ [cstr buf p ! n]"
    using Suc.prems(2) by (metis lessI take_Suc_conv_app_nth take_absorb order_refl)
  have cut: "cstr (buf[p + n := NUL]) p = take n (cstr buf p)"
    using Suc.prems(2) lt by (intro cstr_cut) auto
  show ?case
  proof (cases "char_val sc (buf ! (p + n)) < 32")
    case True
    have "cstr (striplf_loop sc p n (buf[p + n := NUL])) p = strip_ctl sc (take n (cstr buf p)) \<and>
        terminated (striplf_loop sc p n (buf[p + n := NUL])) p"
      using Suc.IH [of "buf[p + n := NUL]"] cut lt Suc.prems(2) by (simp add: terminated_cut)
    with True last split show ?thesis by (metis strip_ctl_snoc striplf_loop.simps(2))
  next
    case False
    with last split Suc.prems show ?thesis by (metis strip_ctl_snoc striplf_loop.simps(2))
  qed
qed

lemma striplf_outcome [cstr_simps]:
  "terminated buf p \<Longrightarrow>
     libamg_str_striplf sc buf p = Inr (striplf_loop sc p (length (cstr buf p)) buf)"
  by (simp add: libamg_str_striplf_def c_strlen_def)

text \<open>Callers that keep a character array as its C string call the helper on a terminated copy.\<close>

definition strip_array :: "bool \<Rightarrow> string \<Rightarrow> string" where
  "strip_array sc s =
     (case libamg_str_striplf sc (s @ [NUL]) 0 of Inl e \<Rightarrow> s | Inr buf \<Rightarrow> cstr buf 0)"

lemma strip_array_eq [cstr_simps]: "NUL \<notin> set s \<Longrightarrow> strip_array sc s = strip_ctl sc s"
proof -
  assume n: "NUL \<notin> set s"
  have t: "terminated (s @ [NUL]) 0" by (simp add: terminated_def)
  with n show ?thesis
    using cstr_striplf_loop [OF t refl, of sc]
    by (simp add: strip_array_def striplf_outcome cstr_app_NUL)
qed

lemma strip_ctl_prefix: "\<exists>r. s = strip_ctl sc s @ r"
  unfolding strip_ctl_def
  by (metis rev_append rev_rev_ident takeWhile_dropWhile_id)

lemma strip_ctl_subset: "set (strip_ctl sc s) \<subseteq> set s"
  by (metis Un_iff set_append strip_ctl_prefix subsetI)

lemma strip_ctl_length: "length (strip_ctl sc s) \<le> length s"
  by (metis length_append le_add1 strip_ctl_prefix)

lemma strip_ctl_last: "strip_ctl sc s \<noteq> [] \<Longrightarrow> \<not> char_val sc (last (strip_ctl sc s)) < 32"
  unfolding strip_ctl_def by (metis hd_dropWhile last_rev rev_is_Nil_conv)

lemma strip_ctl_idem [simp]: "strip_ctl sc (strip_ctl sc s) = strip_ctl sc s"
proof (cases "strip_ctl sc s = []")
  case True
  then show ?thesis by (simp add: strip_ctl_def)
next
  case False
  then obtain t c where "strip_ctl sc s = t @ [c]" by (meson rev_exhaust)
  with strip_ctl_last [OF False] show ?thesis by (simp add: strip_ctl_snoc)
qed

lemma strip_ctl_printable: "(\<And>c. c \<in> set s \<Longrightarrow> 32 \<le> char_val sc c) \<Longrightarrow> strip_ctl sc s = s"
proof (cases s rule: rev_exhaust)
  case Nil
  then show ?thesis by (simp add: strip_ctl_def)
next
  case (snoc t c)
  assume "\<And>c. c \<in> set s \<Longrightarrow> 32 \<le> char_val sc c"
  with snoc show ?thesis by (force simp: strip_ctl_snoc)
qed

subsection \<open>Skipping and trimming\<close>

lemma skip_spaces_spec:
  "terminated buf p \<Longrightarrow>
     libamg_str_skip_spaces buf p = Inr (p + length (takeWhile c_isspace (cstr buf p)))"
proof (induction buf p rule: libamg_str_skip_spaces.induct)
  case (1 buf p)
  from "1.prems" have lt: "p < length buf" using terminated_length by fastforce
  then have d: "drop p buf = buf ! p # drop (Suc p) buf" by (simp add: Cons_nth_drop_Suc)
  show ?case
  proof (cases "c_isspace (buf ! p)")
    case True
    then have nn: "buf ! p \<noteq> NUL" by auto
    then have c: "cstr buf p = buf ! p # cstr buf (Suc p)" using d by (simp add: cstr_def)
    from "1.prems" nn d have "terminated buf (Suc p)" by (auto simp: terminated_def)
    with "1.IH" True lt have
      "libamg_str_skip_spaces buf (Suc p) = Inr (Suc p + length (takeWhile c_isspace (cstr buf (Suc p))))"
      by simp
    with True lt c show ?thesis by (subst libamg_str_skip_spaces.simps) simp
  next
    case False
    have "takeWhile c_isspace (cstr buf p) = []"
      using d False by (auto simp: cstr_def)
    with False lt show ?thesis by (subst libamg_str_skip_spaces.simps) simp
  qed
qed

lemma cstr_advance:
  assumes "n \<le> length (cstr buf p)" and "terminated buf p"
  shows "cstr buf (p + n) = drop n (cstr buf p) \<and> terminated buf (p + n)"
proof -
  obtain r where r: "drop p buf = cstr buf p @ NUL # r" using assms(2) by (rule terminated_split)
  then have "drop (p + n) buf = drop n (cstr buf p @ NUL # r)" by (metis add.commute drop_drop)
  then have d: "drop (p + n) buf = drop n (cstr buf p) @ NUL # r" using assms(1) by simp
  have "\<And>c. c \<in> set (drop n (cstr buf p)) \<Longrightarrow> c \<noteq> NUL"
    using cstr_no_NUL by (metis in_set_dropD)
  then have "cstr buf (p + n) = drop n (cstr buf p)"
    unfolding cstr_def [of buf "p + n"] d by (intro takeWhile_append_stop) auto
  moreover have "terminated buf (p + n)" unfolding terminated_def d by simp
  ultimately show ?thesis ..
qed

lemma strim_end_spec:
  "n \<le> length (cstr buf s) \<Longrightarrow>
     strim_end buf (int s) (int (s + n) - 1) =
       int (s + length (dropWhile c_isspace (rev (take n (cstr buf s))))) - 1"
proof (induction n)
  case 0
  then show ?case by (subst strim_end.simps) simp
next
  case (Suc n)
  have nth: "buf ! nat (int (s + Suc n) - 1) = cstr buf s ! n"
    using Suc.prems by (simp add: nat_int_add cstr_nth)
  have tk: "rev (take (Suc n) (cstr buf s)) = cstr buf s ! n # rev (take n (cstr buf s))"
    using Suc.prems by (simp add: take_Suc_conv_app_nth)
  have e: "int (s + Suc n) - 1 - 1 = int (s + n) - 1" by simp
  show ?case
  proof (cases "c_isspace (cstr buf s ! n)")
    case True
    then have "strim_end buf (int s) (int (s + Suc n) - 1) = strim_end buf (int s) (int (s + n) - 1)"
      using nth e by (subst strim_end.simps) simp
    with Suc True tk show ?thesis by simp
  next
    case False
    then have "strim_end buf (int s) (int (s + Suc n) - 1) = int (s + Suc n) - 1"
      using nth by (subst strim_end.simps) simp
    with Suc.prems False tk show ?thesis by simp
  qed
qed

lemma dropWhile_takeWhile_drop: "dropWhile P xs = drop (length (takeWhile P xs)) xs"
  by (rule dropWhile_eq_drop)

lemma strim_spec:
  assumes t: "terminated buf p"
  shows "\<exists>buf' s. libamg_str_strim buf p = Inr (buf', s) \<and> cstr buf' s = trim_spaces (cstr buf p)
           \<and> terminated buf' s \<and> length buf' = length buf \<and> p \<le> s"
proof -
  define s where "s = p + length (takeWhile c_isspace (cstr buf p))"
  have sk: "libamg_str_skip_spaces buf p = Inr s"
    using skip_spaces_spec [OF t] by (simp add: s_def)
  have adv: "cstr buf s = dropWhile c_isspace (cstr buf p)" "terminated buf s"
    using cstr_advance [of "length (takeWhile c_isspace (cstr buf p))" buf p] t
    by (simp_all add: s_def dropWhile_takeWhile_drop length_takeWhile_le)
  define m where "m = length (dropWhile c_isspace (rev (cstr buf s)))"
  have m: "m \<le> length (cstr buf s)"
    unfolding m_def by (metis length_dropWhile_le length_rev)
  have lt: "s + length (cstr buf s) < length buf" using adv(2) by (rule terminated_length)
  have "rev (dropWhile c_isspace (rev (cstr buf s))) = take m (cstr buf s)"
    unfolding m_def dropWhile_takeWhile_drop by (simp add: rev_drop)
  then have trim: "trim_spaces (cstr buf p) = take m (cstr buf s)"
    by (simp add: trim_spaces_def adv(1))
  show ?thesis
  proof (cases "cstr buf s = []")
    case True
    have "libamg_str_strim buf p = Inr (buf, s)"
      using sk adv(2) True by (simp add: libamg_str_strim_def c_strlen_def)
    then show ?thesis using adv(2) True trim by (simp add: s_def)
  next
    case False
    have e: "strim_end buf (int s) (int (s + length (cstr buf s)) - 1) = int (s + m) - 1"
      using strim_end_spec [of "length (cstr buf s)" buf s] by (simp add: m_def)
    have "libamg_str_strim buf p = Inr (buf[s + m := NUL], s)"
      using False sk adv(2) e lt m by (simp add: libamg_str_strim_def c_strlen_def Let_def nat_int_add)
    moreover have "cstr (buf[s + m := NUL]) s = take m (cstr buf s)"
      using m lt by (intro cstr_cut) auto
    moreover have "terminated (buf[s + m := NUL]) s"
      using m lt by (intro terminated_cut) auto
    ultimately show ?thesis using trim by (simp add: s_def)
  qed
qed

subsection \<open>Tokens\<close>

lemma next_token_none:
  "terminated buf p \<Longrightarrow> sep \<noteq> NUL \<Longrightarrow> sep \<notin> set (cstr buf p) \<Longrightarrow>
     libamg_str_next_token buf p sep = Inr (buf, None)"
  by (simp add: libamg_str_next_token_def c_strchr_def)

lemma next_token_some:
  assumes "drop p buf = k @ sep # r" and "sep \<notin> set k" and "NUL \<notin> set k" and "sep \<noteq> NUL"
  shows "libamg_str_next_token buf p sep =
           Inr (buf[p + length k := NUL], Some (Suc (p + length k)))"
proof -
  have "cstr buf p = k @ sep # takeWhile (\<lambda>c. c \<noteq> NUL) r"
  proof -
    have "\<And>c. c \<in> set k \<Longrightarrow> c \<noteq> NUL" using assms(3) by auto
    then show ?thesis unfolding cstr_def assms(1) using assms(4) by (induction k) auto
  qed
  moreover have "takeWhile (\<lambda>x. x \<noteq> sep) (k @ sep # takeWhile (\<lambda>c. c \<noteq> NUL) r) = k"
    using assms(2) by (intro takeWhile_append_stop) auto
  ultimately show ?thesis by (simp add: libamg_str_next_token_def c_strchr_def)
qed

lemma next_token_cstr:
  assumes t: "terminated buf p" and n: "sep \<noteq> NUL" and i: "sep \<in> set (cstr buf p)"
  shows "\<exists>buf' q. libamg_str_next_token buf p sep = Inr (buf', Some q) \<and> p < q \<and>
           length buf' = length buf \<and> terminated buf' q \<and>
           cstr buf p = cstr buf' p @ sep # cstr buf' q \<and> sep \<notin> set (cstr buf' p)"
proof -
  obtain r where r: "drop p buf = cstr buf p @ NUL # r" using t by (rule terminated_split)
  define k where "k = takeWhile (\<lambda>c. c \<noteq> sep) (cstr buf p)"
  define v where "v = tl (dropWhile (\<lambda>c. c \<noteq> sep) (cstr buf p))"
  have split: "cstr buf p = k @ sep # v"
    unfolding k_def v_def using split_first [OF i] .
  have k: "sep \<notin> set k" unfolding k_def by (rule takeWhile_not_in)
  have nul: "NUL \<notin> set (k @ sep # v)" using split cstr_no_NUL by metis
  have d: "drop p buf = k @ sep # (v @ NUL # r)" using r split by simp
  have nt: "libamg_str_next_token buf p sep =
      Inr (buf[p + length k := NUL], Some (Suc (p + length k)))"
    using d k nul n by (intro next_token_some) auto
  have lt: "p + length k < length buf"
    using arg_cong [OF d, of length] by simp
  have "cstr (buf[p + length k := NUL]) p = take (length k) (cstr buf p)"
    using split lt by (intro cstr_cut) auto
  moreover have "cstr (buf[p + length k := NUL]) (Suc (p + length k)) = v \<and>
      terminated (buf[p + length k := NUL]) (Suc (p + length k))"
  proof -
    have "drop (Suc (p + length k)) buf = drop (Suc (length k)) (drop p buf)"
      by (simp add: add.commute)
    then have "drop (Suc (p + length k)) buf = v @ NUL # r" using d by simp
    then show ?thesis using nul
      by (auto simp: cstr_def terminated_def intro!: takeWhile_append_stop)
  qed
  ultimately show ?thesis using nt split k by auto
qed

subsection \<open>Properties\<close>

text \<open>Stripping a C string in place leaves the longest prefix of it that does not end in a control
  character (with signed characters, bytes from 128 count as control characters too), and changes
  no byte before the string and none from its terminator on; without a terminator the length is
  undefined.\<close>

theorem striplf_in_place:
  "if terminated buf p
   then \<exists>buf'. libamg_str_striplf sc buf p = Inr buf' \<and> length buf' = length buf \<and>
          cstr buf' p = strip_ctl sc (cstr buf p) \<and>
          take p buf' = take p buf \<and>
          drop (p + length (cstr buf p)) buf' = drop (p + length (cstr buf p)) buf
   else libamg_str_striplf sc buf p = Inl Unterminated"
proof (cases "terminated buf p")
  case False
  then show ?thesis by (simp add: libamg_str_striplf_def c_strlen_def)
next
  case True
  let ?n = "length (cstr buf p)" and ?buf' = "striplf_loop sc p (length (cstr buf p)) buf"
  have "libamg_str_striplf sc buf p = Inr ?buf'" using True by (rule striplf_outcome)
  moreover have "cstr ?buf' p = strip_ctl sc (cstr buf p)" using cstr_striplf_loop [OF True refl] by blast
  moreover have "take p ?buf' = take p buf"
    by (rule nth_equalityI) (simp_all add: striplf_loop_before)
  moreover have "drop (p + ?n) ?buf' = drop (p + ?n) buf"
    by (rule nth_equalityI) (simp_all add: striplf_loop_after)
  ultimately show ?thesis using True by auto
qed

text \<open>Trimming returns a pointer into the buffer, at or after its argument, at which the C string
  is the argument's without the white space at either end; the buffer keeps its length and the
  string its terminator.\<close>

theorem strim_in_place:
  assumes "terminated buf p"
  shows "\<exists>buf' s. libamg_str_strim buf p = Inr (buf', s) \<and> cstr buf' s = trim_spaces (cstr buf p) \<and>
    terminated buf' s \<and> length buf' = length buf \<and> p \<le> s"
  using assms by (rule strim_spec)

theorem strim_in_place_witness:
  "\<exists>buf' s. libamg_str_strim (''  a b '' @ [NUL]) 0 = Inr (buf', s) \<and> cstr buf' s = ''a b''"
  using strim_in_place [of "''  a b '' @ [NUL]" 0]
  by (auto simp: terminated_def cstr_def trim_spaces_def c_isspace_def)

text \<open>Splitting at a separator that occurs in the string cuts the string there and returns the
  part behind its first occurrence: the two parts around the separator make up the old string, and
  the first does not contain it. A separator that does not occur gives the null pointer and leaves
  the buffer alone.\<close>

theorem next_token_splits:
  assumes "terminated buf p" and "sep \<noteq> NUL"
  shows "if sep \<in> set (cstr buf p)
    then \<exists>buf' q. libamg_str_next_token buf p sep = Inr (buf', Some q) \<and> p < q \<and>
           length buf' = length buf \<and> terminated buf' q \<and>
           cstr buf p = cstr buf' p @ sep # cstr buf' q \<and> sep \<notin> set (cstr buf' p)
    else libamg_str_next_token buf p sep = Inr (buf, None)"
  using next_token_cstr [OF assms] next_token_none [OF assms] by simp

theorem next_token_splits_witness:
  "\<exists>buf' q. libamg_str_next_token (''k=v=w'' @ [NUL]) 0 (CHR ''='') = Inr (buf', Some q) \<and>
     ''k=v=w'' = cstr buf' 0 @ CHR ''='' # cstr buf' q \<and> CHR ''='' \<notin> set (cstr buf' 0)"
  using next_token_splits [of "''k=v=w'' @ [NUL]" 0 "CHR ''=''"]
  by (auto simp: terminated_def cstr_def)

end
