(* ===== verification/World.thy ===== *)
theory World
  imports C_Library
begin

text \<open>
  The world the library acts on: the files it opens, the heap it allocates from, the shell it
  starts with \<open>system\<close>. What an open, an allocation or a command answers is not decided by the
  sources, so it is part of the world: \<open>cannot_read\<close> and \<open>cannot_write\<close> say which opens fail,
  \<open>alloc_ok n\<close> whether the \<open>n\<close>-th call of \<open>malloc\<close> succeeds, \<open>shell\<close> what a command returns and
  does to the files. The counters \<open>live\<close> and \<open>open_files\<close> record heap blocks not yet freed and
  streams not yet closed, so that leaks are visible; \<open>cmds\<close> logs the commands in order.
\<close>

type_synonym path = string
type_synonym file_system = "path \<rightharpoonup> string"

record world =
  files :: file_system
  cannot_read :: "path \<Rightarrow> bool"
  cannot_write :: "path \<Rightarrow> bool"
  shell :: "string \<Rightarrow> file_system \<Rightarrow> int \<times> file_system"
  alloc_ok :: "nat \<Rightarrow> bool"
  allocs :: nat
  live :: int
  open_files :: int
  cmds :: "string list"

definition c_malloc :: "world \<Rightarrow> bool \<times> world" where
  "c_malloc w =
     (if alloc_ok w (allocs w)
      then (True, w\<lparr>allocs := Suc (allocs w), live := live w + 1\<rparr>)
      else (False, w\<lparr>allocs := Suc (allocs w)\<rparr>))"

definition c_free :: "world \<Rightarrow> world" where
  "c_free w = w\<lparr>live := live w - 1\<rparr>"

text \<open>\<open>fopen(path, "r")\<close> gives the bytes the stream will deliver.\<close>

definition fopen_r :: "path \<Rightarrow> world \<Rightarrow> string option \<times> world" where
  "fopen_r p w =
     (case files w p of
        None \<Rightarrow> (None, w)
      | Some s \<Rightarrow> if cannot_read w p then (None, w)
                  else (Some s, w\<lparr>open_files := open_files w + 1\<rparr>))"

text \<open>\<open>fopen(path, "w")\<close> creates or truncates the file.\<close>

definition fopen_w :: "path \<Rightarrow> world \<Rightarrow> bool \<times> world" where
  "fopen_w p w =
     (if cannot_write w p then (False, w)
      else (True, w\<lparr>files := (files w)(p \<mapsto> []), open_files := open_files w + 1\<rparr>))"

text \<open>\<open>fprintf\<close> to a stream opened for writing appends to the file.\<close>

definition f_print :: "path \<Rightarrow> string \<Rightarrow> world \<Rightarrow> world" where
  "f_print p s w =
     w\<lparr>files := (files w)(p \<mapsto> (case files w p of None \<Rightarrow> s | Some t \<Rightarrow> t @ s))\<rparr>"

definition f_prints :: "path \<Rightarrow> string list \<Rightarrow> world \<Rightarrow> world" where
  "f_prints p ss w = foldl (\<lambda>w s. f_print p s w) w ss"

definition f_close :: "world \<Rightarrow> world" where
  "f_close w = w\<lparr>open_files := open_files w - 1\<rparr>"

definition c_system :: "string \<Rightarrow> world \<Rightarrow> int \<times> world" where
  "c_system cmd w =
     (let (r, fs) = shell w cmd (files w) in (r, w\<lparr>files := fs, cmds := cmds w @ [cmd]\<rparr>))"

definition run_cmds :: "string list \<Rightarrow> world \<Rightarrow> world" where
  "run_cmds cs w = foldl (\<lambda>w c. snd (c_system c w)) w cs"

definition can_read :: "path \<Rightarrow> world \<Rightarrow> bool" where
  "can_read p w \<longleftrightarrow> files w p \<noteq> None \<and> \<not> cannot_read w p"

text \<open>
  How every parser starts: allocate the structure, open the file; each failure returns NULL, and a
  failed open returns without freeing the structure.
\<close>

definition alloc_and_open :: "path \<Rightarrow> world \<Rightarrow> string option \<times> world" where
  "alloc_and_open p w =
     (case c_malloc w of (False, w1) \<Rightarrow> (None, w1) | (True, w1) \<Rightarrow> fopen_r p w1)"

text \<open>The documented behaviour of \<open>cp src dir\<close> that the reset functions rely on.\<close>

definition cp_copies :: "world \<Rightarrow> path \<Rightarrow> path \<Rightarrow> string \<Rightarrow> bool" where
  "cp_copies w src dst cmd \<longleftrightarrow>
     (\<forall>s. files w src = Some s \<longrightarrow> shell w cmd (files w) = (0, (files w)(dst \<mapsto> s)))"

lemma c_malloc_ok [world_simps]:
  "alloc_ok w (allocs w) \<Longrightarrow> c_malloc w = (True, w\<lparr>allocs := Suc (allocs w), live := live w + 1\<rparr>)"
  by (simp add: c_malloc_def)

lemma c_malloc_fail [world_simps]:
  "\<not> alloc_ok w (allocs w) \<Longrightarrow> c_malloc w = (False, w\<lparr>allocs := Suc (allocs w)\<rparr>)"
  by (simp add: c_malloc_def)

lemma fopen_r_ok [world_simps]:
  "files w p = Some s \<Longrightarrow> \<not> cannot_read w p \<Longrightarrow>
     fopen_r p w = (Some s, w\<lparr>open_files := open_files w + 1\<rparr>)"
  by (simp add: fopen_r_def)

lemma fopen_r_fail [world_simps]: "\<not> can_read p w \<Longrightarrow> fopen_r p w = (None, w)"
  by (auto simp: fopen_r_def can_read_def split: option.split)

lemma fopen_w_ok [world_simps]:
  "\<not> cannot_write w p \<Longrightarrow>
     fopen_w p w = (True, w\<lparr>files := (files w)(p \<mapsto> []), open_files := open_files w + 1\<rparr>)"
  by (simp add: fopen_w_def)

lemma fopen_w_fail [world_simps]: "cannot_write w p \<Longrightarrow> fopen_w p w = (False, w)"
  by (simp add: fopen_w_def)

lemma alloc_and_open_ok [world_simps]:
  "alloc_ok w (allocs w) \<Longrightarrow> files w p = Some s \<Longrightarrow> \<not> cannot_read w p \<Longrightarrow>
     alloc_and_open p w =
       (Some s, w\<lparr>allocs := Suc (allocs w), live := live w + 1, open_files := open_files w + 1\<rparr>)"
  by (simp add: alloc_and_open_def c_malloc_def fopen_r_def)

lemma alloc_and_open_cases:
  obtains (no_memory) "\<not> alloc_ok w (allocs w)"
      "alloc_and_open p w = (None, w\<lparr>allocs := Suc (allocs w)\<rparr>)"
  | (no_file) "alloc_ok w (allocs w)" "\<not> can_read p w"
      "alloc_and_open p w = (None, w\<lparr>allocs := Suc (allocs w), live := live w + 1\<rparr>)"
  | (opened) s where "alloc_ok w (allocs w)" "files w p = Some s" "\<not> cannot_read w p"
      "alloc_and_open p w =
         (Some s, w\<lparr>allocs := Suc (allocs w), live := live w + 1, open_files := open_files w + 1\<rparr>)"
proof (cases "alloc_ok w (allocs w)")
  case False
  then show thesis by (intro no_memory) (simp_all add: alloc_and_open_def c_malloc_def)
next
  case True
  show thesis
  proof (cases "can_read p w")
    case False
    with True show thesis
      by (intro no_file) (auto simp: alloc_and_open_def c_malloc_def fopen_r_def can_read_def
          split: option.split)
  next
    case ok: True
    then obtain s where "files w p = Some s" "\<not> cannot_read w p" by (auto simp: can_read_def)
    with True show thesis by (intro opened [of s]) (simp_all add: world_simps)
  qed
qed

lemma f_prints_open:
  "files w p = Some t \<Longrightarrow> f_prints p ss w = w\<lparr>files := (files w)(p \<mapsto> t @ concat ss)\<rparr>"
proof (induction ss arbitrary: w t)
  case Nil
  then show ?case by (simp add: f_prints_def fun_upd_idem)
next
  case (Cons s ss)
  have "f_prints p (s # ss) w = f_prints p ss (f_print p s w)" by (simp add: f_prints_def)
  also have "f_print p s w = w\<lparr>files := (files w)(p \<mapsto> t @ s)\<rparr>"
    using Cons.prems by (simp add: f_print_def)
  also have "f_prints p ss (w\<lparr>files := (files w)(p \<mapsto> t @ s)\<rparr>) =
      (w\<lparr>files := (files w)(p \<mapsto> t @ s)\<rparr>)\<lparr>files := (files w)(p \<mapsto> t @ s, p \<mapsto> (t @ s) @ concat ss)\<rparr>"
    by (subst Cons.IH [of _ "t @ s"]) simp_all
  finally show ?case by (simp del: fun_upd_apply)
qed

text \<open>Opening, printing and closing leaves the file with the text printed and nothing else changed.\<close>

lemma write_file [world_simps]:
  "f_close (f_prints p ss (w\<lparr>files := (files w)(p \<mapsto> []), open_files := open_files w + 1\<rparr>)) =
     w\<lparr>files := (files w)(p \<mapsto> concat ss)\<rparr>"
  by (simp add: f_prints_open f_close_def)

lemma c_system_cmds [simp]: "cmds (snd (c_system c w)) = cmds w @ [c]"
  by (simp add: c_system_def split: prod.split)

lemma c_system_frame [simp]:
  "live (snd (c_system c w)) = live w"
  "open_files (snd (c_system c w)) = open_files w"
  "allocs (snd (c_system c w)) = allocs w"
  "alloc_ok (snd (c_system c w)) = alloc_ok w"
  "cannot_read (snd (c_system c w)) = cannot_read w"
  "cannot_write (snd (c_system c w)) = cannot_write w"
  "shell (snd (c_system c w)) = shell w"
  by (simp_all add: c_system_def split: prod.split)

lemma run_cmds_simps [simp]:
  "run_cmds [] w = w"
  "run_cmds (c # cs) w = run_cmds cs (snd (c_system c w))"
  by (simp_all add: run_cmds_def)

lemma cmds_run_cmds [simp]: "cmds (run_cmds cs w) = cmds w @ cs"
  by (induction cs arbitrary: w) auto

lemma run_cmds_frame [simp]: "live (run_cmds cs w) = live w" "open_files (run_cmds cs w) = open_files w"
  by (induction cs arbitrary: w) auto

lemma cp_copiesD:
  "cp_copies w src dst cmd \<Longrightarrow> files w src = Some s \<Longrightarrow>
     c_system cmd w = (0, w\<lparr>files := (files w)(dst \<mapsto> s), cmds := cmds w @ [cmd]\<rparr>)"
  by (simp add: cp_copies_def c_system_def)

end
