(* ===== verification/Conf_File.thy ===== *)
theory Conf_File
  imports Str World
begin

text \<open>
  The reading loop that the configuration parsers of sys_log.c, extensions.c, comcerto.c, sip.c and
  dahdi.c share:

  \<^verbatim>\<open>while (fgets(buffer, BUF_SIZE, file)) {
    key = buffer;
    if (strchr(key, '=') == NULL) continue;
    value = libamg_str_next_token(buffer, '=');
    strtok(value, DELIMS);
    ... dispatch on key and value ...
  }\<close>

  \<open>chunks n s\<close> is what the successive calls of \<open>fgets\<close> with a buffer of \<open>n\<close> bytes deliver,
  \<open>split_line\<close> the part of the body before the dispatch, on the buffer, and \<open>conf_read\<close> the whole
  loop with the dispatch as a parameter. The locale \<open>conf_reader\<close> states what a dispatch needs
  for a list of printed lines to be read back line by line.
\<close>

subsection \<open>fgets\<close>

fun line_prefix :: "nat \<Rightarrow> string \<Rightarrow> string" where
  "line_prefix 0 s = []"
| "line_prefix (Suc k) [] = []"
| "line_prefix (Suc k) (c # s) = (if c = LF then [c] else c # line_prefix k s)"

definition fgets :: "nat \<Rightarrow> string \<Rightarrow> (string \<times> string) option" where
  "fgets n s =
     (if s = [] then None
      else let l = line_prefix (n - 1) s in Some (l, drop (length l) s))"

text \<open>\<open>fgets\<close> into the array: the chunk and its NUL over what was there, nothing at the end of the file.\<close>

definition fgets_into :: "char list \<Rightarrow> string \<Rightarrow> char list" where
  "fgets_into buf s =
     (case fgets (length buf) s of None \<Rightarrow> buf | Some (l, r) \<Rightarrow> l @ NUL # drop (Suc (length l)) buf)"

lemma line_prefix_length: "length (line_prefix k s) \<le> k"
  by (induction k s rule: line_prefix.induct) auto

lemma line_prefix_nonempty: "s \<noteq> [] \<Longrightarrow> 0 < k \<Longrightarrow> line_prefix k s \<noteq> []"
  by (cases k; cases s) auto

lemma line_prefix_split: "line_prefix k s @ drop (length (line_prefix k s)) s = s"
  by (induction k s rule: line_prefix.induct) auto

text \<open>A buffer of one byte would make \<open>fgets\<close> deliver empty strings forever; no caller has one.\<close>

function chunks :: "nat \<Rightarrow> string \<Rightarrow> string list" where
  "chunks n s =
     (if n < 2 then []
      else case fgets n s of None \<Rightarrow> [] | Some (l, r) \<Rightarrow> l # chunks n r)"
  by pat_completeness auto
termination
proof (relation "measure (\<lambda>(n, s). length s)", goal_cases)
  case 1
  then show ?case by simp
next
  case (2 n s x l r)
  then have "s \<noteq> []" "l = line_prefix (n - 1) s" "r = drop (length l) s"
    by (auto simp: fgets_def Let_def split: if_splits)
  with 2(1) line_prefix_nonempty [of s "n - 1"] show ?case by auto
qed

declare chunks.simps [simp del]

lemma chunks_Nil [simp]: "chunks n [] = []"
  by (subst chunks.simps) (simp add: fgets_def)

lemma chunks_unfold:
  "2 \<le> n \<Longrightarrow> s \<noteq> [] \<Longrightarrow>
     chunks n s = line_prefix (n - 1) s # chunks n (drop (length (line_prefix (n - 1) s)) s)"
  by (subst chunks.simps) (simp add: fgets_def Let_def)

lemma chunks_induct [consumes 1, case_names Nil Cons]:
  assumes "2 \<le> n" and "P []"
    and "\<And>s. s \<noteq> [] \<Longrightarrow> P (drop (length (line_prefix (n - 1) s)) s) \<Longrightarrow> P s"
  shows "P s"
proof (induction s rule: length_induct)
  case (1 s)
  show ?case
  proof (cases "s = []")
    case False
    have "line_prefix (n - 1) s \<noteq> []" using False assms(1) by (intro line_prefix_nonempty) auto
    then have "length (drop (length (line_prefix (n - 1) s)) s) < length s"
      using False by simp
    with 1 False assms(3) show ?thesis by blast
  qed (simp add: assms(2))
qed

lemma chunks_length:
  assumes n: "2 \<le> n"
  shows "l \<in> set (chunks n s) \<Longrightarrow> length l < n"
  using n
proof (induction s rule: chunks_induct)
  case Nil
  then show ?case by simp
next
  case (Cons s)
  have "length (line_prefix (n - 1) s) < n"
    using line_prefix_length [of "n - 1" s] n by linarith
  with Cons show ?case by (auto simp: chunks_unfold [OF n])
qed

lemma concat_chunks:
  assumes n: "2 \<le> n"
  shows "concat (chunks n s) = s"
  using n
proof (induction s rule: chunks_induct)
  case Nil
  then show ?case by simp
next
  case (Cons s)
  then show ?case by (simp add: chunks_unfold [OF n] line_prefix_split)
qed

text \<open>A line feed always ends a chunk, so text that ends with one is read independently of what follows.\<close>

lemma line_prefix_append:
  "a \<noteq> [] \<Longrightarrow> last a = LF \<Longrightarrow> line_prefix k (a @ b) = line_prefix k a"
  by (induction k a rule: line_prefix.induct) (auto split: if_splits)

lemma line_prefix_whole_or_last:
  "drop (length (line_prefix k s)) s = [] \<or> last (drop (length (line_prefix k s)) s) = last s"
  by (metis drop_eq_Nil2 last_drop linorder_not_less)

lemma chunks_append:
  assumes n: "2 \<le> n"
  shows "a = [] \<or> last a = LF \<Longrightarrow> chunks n (a @ b) = chunks n a @ chunks n b"
  using n
proof (induction a rule: chunks_induct)
  case Nil
  then show ?case by simp
next
  case (Cons a)
  let ?l = "line_prefix (n - 1) a"
  have l: "line_prefix (n - Suc 0) (a @ b) = line_prefix (n - Suc 0) a" using Cons by (intro line_prefix_append) auto
  have len: "length ?l \<le> length a" by (metis line_prefix_split length_append le_add1)
  have "chunks n (drop (length ?l) a @ b) = chunks n (drop (length ?l) a) @ chunks n b"
    using Cons line_prefix_whole_or_last [of "n - 1" a] by auto
  then show ?case using Cons.hyps len by (simp add: chunks_unfold [OF n] l)
qed

definition is_line :: "nat \<Rightarrow> string \<Rightarrow> bool" where
  "is_line n l \<longleftrightarrow> l \<noteq> [] \<and> last l = LF \<and> LF \<notin> set (butlast l) \<and> length l < n"

lemma line_prefix_line:
  "LF \<notin> set t \<Longrightarrow> length t < k \<Longrightarrow> line_prefix k (t @ LF # r) = t @ [LF]"
proof (induction t arbitrary: k)
  case Nil
  then show ?case by (cases k) auto
next
  case (Cons c t)
  then show ?case by (cases k) auto
qed

lemma chunks_line:
  assumes "is_line n l"
  shows "chunks n (l @ r) = l # chunks n r"
proof -
  obtain t where t: "l = t @ [LF]" "LF \<notin> set t" "length t + 1 < n"
    using assms unfolding is_line_def by (metis One_nat_def append_butlast_last_id length_append_singleton Suc_eq_plus1)
  then show ?thesis
    by (subst chunks.simps) (simp add: fgets_def Let_def line_prefix_line)
qed

lemma chunks_concat: "(\<And>l. l \<in> set ls \<Longrightarrow> is_line n l) \<Longrightarrow> chunks n (concat ls) = ls"
  by (induction ls) (simp_all add: chunks_line)

subsection \<open>Key and value of a line\<close>

definition split_line :: "string \<Rightarrow> string \<Rightarrow> (string \<times> string) option outcome" where
  "split_line delims line =
     (let buffer = line @ [NUL] in
      case c_strchr buffer 0 (CHR ''='') of
        Inl e \<Rightarrow> Inl e
      | Inr None \<Rightarrow> Inr None
      | Inr (Some _) \<Rightarrow>
          (case libamg_str_next_token buffer 0 (CHR ''='') of
             Inl e \<Rightarrow> Inl e
           | Inr (buf, None) \<Rightarrow> Inl Null_Deref
           | Inr (buf, Some v) \<Rightarrow>
               (case c_strtok buf v delims of
                  (_, buf', _) \<Rightarrow> Inr (Some (cstr buf' 0, cstr buf' v)))))"

definition conf_step :: "string \<Rightarrow> ('c \<Rightarrow> string \<Rightarrow> string \<Rightarrow> 'c outcome) \<Rightarrow> 'c \<Rightarrow> string \<Rightarrow> 'c outcome" where
  "conf_step delims upd c line =
     (case split_line delims line of
        Inl e \<Rightarrow> Inl e
      | Inr None \<Rightarrow> Inr c
      | Inr (Some (k, v)) \<Rightarrow> upd c k v)"

definition conf_read ::
    "nat \<Rightarrow> string \<Rightarrow> ('c \<Rightarrow> string \<Rightarrow> string \<Rightarrow> 'c outcome) \<Rightarrow> 'c \<Rightarrow> string \<Rightarrow> 'c outcome" where
  "conf_read bufsz delims upd c content = run_steps (conf_step delims upd) c (chunks bufsz content)"

text \<open>
  What the crop does to a value: leading delimiters stay, the first token stays, the rest goes;
  a value of delimiters only is left as it is.
\<close>

definition crop :: "string \<Rightarrow> string \<Rightarrow> string" where
  "crop delims s =
     (let lead = takeWhile (\<lambda>c. c \<in> set delims) s;
          tok = takeWhile (\<lambda>c. c \<notin> set delims) (dropWhile (\<lambda>c. c \<in> set delims) s)
      in if tok = [] then s else lead @ tok)"

lemma strtok_writes:
  assumes "c_strtok buf v d = (t, buf', sv)"
  shows "buf' = buf \<or> (\<exists>n. buf' = buf[v + n := NUL])"
proof -
  let ?lead = "length (takeWhile (\<lambda>c. c \<in> set d) (cstr buf v))"
  let ?tok = "takeWhile (\<lambda>c. c \<notin> set d) (dropWhile (\<lambda>c. c \<in> set d) (cstr buf v))"
  from assms have "buf' = buf \<or> buf' = buf[v + (?lead + length ?tok) := NUL]"
    by (simp add: c_strtok_def Let_def add.assoc split: if_splits)
  then show ?thesis by blast
qed

lemma strtok_cstr_before:
  assumes "c_strtok buf v d = (t, buf', sv)" and "p + length (cstr buf p) < v"
    and "terminated buf p"
  shows "cstr buf' p = cstr buf p"
proof -
  obtain e where e: "buf' = buf \<or> buf' = buf[e := NUL]" "v \<le> e"
    using strtok_writes [OF assms(1)] le_add1 by blast
  obtain r where r: "drop p buf = cstr buf p @ NUL # r" using assms(3) by (rule terminated_split)
  obtain m where m: "e - p = length (cstr buf p) + Suc m"
    using e(2) assms(2) that [of "e - p - length (cstr buf p) - 1"] by simp
  have "drop p (buf[e := NUL]) = (drop p buf)[e - p := NUL]"
    using e(2) assms(2) by (intro drop_update_inside) simp
  also have "\<dots> = cstr buf p @ NUL # r[m := NUL]"
    unfolding r m by (simp add: list_update_append)
  finally have d: "drop p (buf[e := NUL]) = cstr buf p @ NUL # r[m := NUL]" .
  have "cstr (buf[e := NUL]) p = cstr buf p"
    unfolding cstr_def [of "buf[e := NUL]"] d
    by (rule takeWhile_append_stop) (use cstr_no_NUL in auto)
  with e show ?thesis by auto
qed

lemma strtok_cstr_at:
  assumes "c_strtok buf v d = (t, buf', sv)" and "terminated buf v"
  shows "cstr buf' v = crop d (cstr buf v)"
proof -
  define s where "s = cstr buf v"
  define lead where "lead = takeWhile (\<lambda>c. c \<in> set d) s"
  define tok where "tok = takeWhile (\<lambda>c. c \<notin> set d) (dropWhile (\<lambda>c. c \<in> set d) s)"
  obtain r where "dropWhile (\<lambda>c. c \<in> set d) s = tok @ r"
    unfolding tok_def by (metis takeWhile_dropWhile_id)
  then have s: "s = lead @ tok @ r" unfolding lead_def by (metis takeWhile_dropWhile_id)
  have lt: "v + length s < length buf" unfolding s_def using assms(2) by (rule terminated_length)
  show ?thesis
  proof (cases "tok \<noteq> [] \<and> length lead + length tok < length s")
    case True
    then have "buf' = buf[v + (length lead + length tok) := NUL]"
      using assms(1) by (auto simp: c_strtok_def Let_def s_def [symmetric] lead_def [symmetric]
          tok_def [symmetric] add.assoc)
    then have "cstr buf' v = take (length lead + length tok) s"
      using True lt unfolding s_def by (auto intro: cstr_cut)
    also have "\<dots> = lead @ tok" by (subst s) simp
    finally show ?thesis
      using True by (simp add: crop_def Let_def s_def [symmetric] lead_def [symmetric] tok_def [symmetric])
  next
    case False
    then have "buf' = buf"
      using assms(1) by (auto simp: c_strtok_def Let_def s_def [symmetric] lead_def [symmetric]
          tok_def [symmetric] split: if_splits)
    moreover have "tok \<noteq> [] \<Longrightarrow> s = lead @ tok" using False s by auto
    ultimately show ?thesis
      by (auto simp: crop_def Let_def s_def [symmetric] lead_def [symmetric] tok_def [symmetric])
  qed
qed

lemma split_line_plain [conf_simps]: "CHR ''='' \<notin> set l \<Longrightarrow> split_line d l = Inr None"
proof -
  assume a: "CHR ''='' \<notin> set l"
  have "CHR ''='' \<notin> set (cstr (l @ [NUL]) 0)"
    using a by (auto simp: cstr_def dest!: set_takeWhileD)
  moreover have "terminated (l @ [NUL]) 0" by (simp add: terminated_def)
  ultimately show ?thesis by (simp add: split_line_def c_strchr_def Let_def)
qed

text \<open>Every line with an equals sign before any NUL byte is split at its first one.\<close>

lemma split_line_eq:
  assumes k: "CHR ''='' \<notin> set k" "NUL \<notin> set k"
  shows "split_line d (k @ CHR ''='' # v) = Inr (Some (k, crop d (cstr (v @ [NUL]) 0)))"
proof -
  let ?buf = "k @ CHR ''='' # v @ [NUL]"
  let ?cut = "k @ NUL # v @ [NUL]"
  have cs: "cstr ?buf 0 = k @ CHR ''='' # cstr (v @ [NUL]) 0"
    using k(2) by (auto simp: cstr_def takeWhile_append)
  then have ch: "c_strchr ?buf 0 (CHR ''='') =
      Inr (Some (length (takeWhile (\<lambda>x. x \<noteq> CHR ''='') (cstr ?buf 0))))"
    by (simp add: c_strchr_def)
  have nt: "libamg_str_next_token ?buf 0 (CHR ''='') = Inr (?cut, Some (Suc (length k)))"
    using next_token_some [of 0 ?buf k "CHR ''=''" "v @ [NUL]"] k by (simp add: list_update_append)
  obtain t buf' sv where st: "c_strtok ?cut (Suc (length k)) d = (t, buf', sv)"
    using prod_cases3 by blast
  have t0: "terminated ?cut 0" and tv: "terminated ?cut (Suc (length k))"
    by (simp_all add: terminated_def)
  have c0: "cstr ?cut 0 = k" using k(2) by (rule cstr_app_NUL)
  have cv: "cstr ?cut (Suc (length k)) = cstr (v @ [NUL]) 0" by (simp add: cstr_def)
  have "cstr buf' 0 = k"
    using strtok_cstr_before [OF st, of 0] t0 c0 by simp
  moreover have "cstr buf' (Suc (length k)) = crop d (cstr (v @ [NUL]) 0)"
    using strtok_cstr_at [OF st tv] cv by simp
  ultimately show ?thesis using ch nt st by (simp add: split_line_def Let_def)
qed

lemma crop_token: "s \<noteq> [] \<Longrightarrow> (\<And>c. c \<in> set s \<Longrightarrow> c \<notin> set d) \<Longrightarrow> crop d (s @ r) =
    s @ takeWhile (\<lambda>c. c \<notin> set d) r"
proof -
  assume a: "s \<noteq> []" and b: "\<And>c. c \<in> set s \<Longrightarrow> c \<notin> set d"
  then have "dropWhile (\<lambda>c. c \<in> set d) (s @ r) = s @ r" "takeWhile (\<lambda>c. c \<in> set d) (s @ r) = []"
    by (cases s; simp)+
  with a b show ?thesis by (simp add: crop_def Let_def takeWhile_append)
qed

lemma crop_blank: "(\<And>c. c \<in> set s \<Longrightarrow> c \<in> set d) \<Longrightarrow> crop d s = s"
proof -
  assume "\<And>c. c \<in> set s \<Longrightarrow> c \<in> set d"
  then have "dropWhile (\<lambda>c. c \<in> set d) s = []" by simp
  then show "crop d s = s" by (simp only: crop_def Let_def takeWhile.simps simp_thms if_True)
qed

text \<open>A cropped value is at most as long as the line it came from.\<close>

lemma crop_length: "length (crop d s) \<le> length s"
proof -
  have "length (takeWhile (\<lambda>c. c \<notin> set d) (dropWhile (\<lambda>c. c \<in> set d) s)) \<le>
      length (dropWhile (\<lambda>c. c \<in> set d) s)"
    by (rule length_takeWhile_le)
  moreover have "length (takeWhile (\<lambda>c. c \<in> set d) s) + length (dropWhile (\<lambda>c. c \<in> set d) s) = length s"
    by (metis length_append takeWhile_dropWhile_id)
  ultimately show ?thesis by (simp add: crop_def Let_def)
qed

subsection \<open>Printed lines\<close>

text \<open>The line that \<open>fprintf(file, "key=%s\n", value)\<close> prints.\<close>

definition conf_line :: "string \<Rightarrow> string \<Rightarrow> string" where
  "conf_line k v = k @ CHR ''='' # v @ [LF]"

definition yes_no :: "int \<Rightarrow> string" where
  "yes_no b = (if b \<noteq> 0 then ''yes'' else ''no'')"

definition plain_value :: "string \<Rightarrow> string \<Rightarrow> bool" where
  "plain_value d v \<longleftrightarrow> v \<noteq> [] \<and> (\<forall>c \<in> set v. c \<notin> set d \<and> c \<noteq> NUL)"

definition plain_key :: "string \<Rightarrow> bool" where
  "plain_key k \<longleftrightarrow> (\<forall>c \<in> set k. c \<noteq> CHR ''='' \<and> c \<noteq> NUL \<and> c \<noteq> LF)"

lemma plain_key_simps [conf_simps]:
  "plain_key []"
  "plain_key (c # k) \<longleftrightarrow> c \<noteq> CHR ''='' \<and> c \<noteq> NUL \<and> c \<noteq> LF \<and> plain_key k"
  by (auto simp: plain_key_def)

lemma conf_line_is_line [conf_simps]:
  "plain_key k \<Longrightarrow> LF \<notin> set v \<Longrightarrow> length k + length v + 2 < n \<Longrightarrow> is_line n (conf_line k v)"
  by (auto simp: is_line_def conf_line_def plain_key_def butlast_append)

lemma split_conf_line:
  assumes "plain_key k" and "plain_value d v" and "LF \<in> set d"
  shows "split_line d (conf_line k v) = Inr (Some (k, v))"
proof -
  have k: "CHR ''='' \<notin> set k" "NUL \<notin> set k" using assms(1) by (auto simp: plain_key_def)
  have "NUL \<notin> set (v @ [LF])" using assms(2) by (auto simp: plain_value_def)
  then have "cstr ((v @ [LF]) @ [NUL]) 0 = v @ [LF]" by (rule cstr_app_NUL)
  moreover have "crop d (v @ [LF]) = v"
    using assms(2,3) by (subst crop_token) (auto simp: plain_value_def)
  ultimately show ?thesis using split_line_eq [OF k, of d "v @ [LF]"] by (simp add: conf_line_def)
qed

lemma split_conf_line_any:
  assumes "plain_key k" and "NUL \<notin> set v"
  shows "split_line d (conf_line k v) = Inr (Some (k, crop d (v @ [LF])))"
proof -
  have k: "CHR ''='' \<notin> set k" "NUL \<notin> set k" using assms(1) by (auto simp: plain_key_def)
  have "NUL \<notin> set (v @ [LF])" using assms(2) by simp
  then have "cstr ((v @ [LF]) @ [NUL]) 0 = v @ [LF]" by (rule cstr_app_NUL)
  then show ?thesis using split_line_eq [OF k, of d "v @ [LF]"] by (simp add: conf_line_def)
qed

text \<open>An empty value is not read back as empty: the crop finds no token and leaves the line feed.\<close>

lemma split_conf_line_empty:
  assumes "plain_key k" and "LF \<in> set d"
  shows "split_line d (conf_line k []) = Inr (Some (k, [LF]))"
proof -
  have k: "CHR ''='' \<notin> set k" "NUL \<notin> set k" using assms(1) by (auto simp: plain_key_def)
  have "cstr ([LF] @ [NUL]) 0 = [LF]" by (rule cstr_app_NUL) simp
  moreover have "crop d [LF] = [LF]" using assms(2) by (intro crop_blank) auto
  ultimately show ?thesis using split_line_eq [OF k, of d "[LF]"] by (simp add: conf_line_def)
qed

lemma split_line_total: "\<exists>r. split_line d l = Inr r"
proof -
  let ?buf = "l @ [NUL]"
  have t: "terminated ?buf 0" by (simp add: terminated_def)
  show ?thesis
  proof (cases "CHR ''='' \<in> set (cstr ?buf 0)")
    case True
    with next_token_cstr [OF t _ True] show ?thesis
      by (auto simp: split_line_def c_strchr_def Let_def split: prod.split)
  next
    case False
    with t show ?thesis by (simp add: split_line_def c_strchr_def Let_def)
  qed
qed

lemma split_line_value:
  assumes "split_line d l = Inr (Some (k, v))"
  shows "NUL \<notin> set v \<and> length v \<le> length l"
proof -
  let ?buf = "l @ [NUL]"
  have t: "terminated ?buf 0" by (simp add: terminated_def)
  have i: "CHR ''='' \<in> set (cstr ?buf 0)"
    using assms t by (auto simp: split_line_def c_strchr_def Let_def split: if_splits)
  have len: "length (cstr ?buf 0) \<le> length l" using terminated_length [OF t] by simp
  obtain b q where nt: "libamg_str_next_token ?buf 0 (CHR ''='') = Inr (b, Some q)"
      "cstr ?buf 0 = cstr b 0 @ CHR ''='' # cstr b q" "terminated b q"
    using next_token_cstr [OF t _ i] by auto
  obtain t' b' sv where st: "c_strtok b q d = (t', b', sv)" using prod_cases3 by blast
  have v: "v = cstr b' q"
    using assms nt(1) st i by (auto simp: split_line_def c_strchr_def Let_def)
  have "length (cstr b' q) \<le> length (cstr b q)"
    using strtok_cstr_at [OF st nt(3)] crop_length by simp
  also have "\<dots> \<le> length (cstr ?buf 0)" unfolding nt(2) by simp
  finally show ?thesis using v len cstr_no_NUL by auto
qed

subsection \<open>The interface of a dispatch\<close>

locale conf_reader =
  fixes bufsz :: nat and delims :: string
    and upd :: "'c \<Rightarrow> string \<Rightarrow> string \<Rightarrow> 'c outcome"
  assumes room: "2 \<le> bufsz"
    and LF_delim: "LF \<in> set delims"
    and number_chars: "c_isdigit c \<or> c = CHR 0x2D \<Longrightarrow> c \<notin> set delims"
begin

lemma step_plain: "CHR ''='' \<notin> set l \<Longrightarrow> conf_step delims upd c l = Inr c"
  by (simp add: conf_step_def split_line_plain)

lemma step_line:
  "plain_key k \<Longrightarrow> plain_value delims v \<Longrightarrow> conf_step delims upd c (conf_line k v) = upd c k v"
  by (simp add: conf_step_def split_conf_line LF_delim)

lemma step_value:
  "plain_key k \<Longrightarrow> NUL \<notin> set v \<Longrightarrow>
     conf_step delims upd c (conf_line k v) = upd c k (crop delims (v @ [LF]))"
  by (simp add: conf_step_def split_conf_line_any)

lemma step_empty:
  "plain_key k \<Longrightarrow> conf_step delims upd c (conf_line k []) = upd c k [LF]"
  by (simp add: conf_step_def split_conf_line_empty LF_delim)

lemma step_number:
  "plain_key k \<Longrightarrow> conf_step delims upd c (conf_line k (fmt_d x)) = upd c k (fmt_d x)"
proof -
  have "plain_value delims (fmt_d x)"
    using fmt_d_chars [of _ x] number_chars
    by (fastforce simp: plain_value_def c_isdigit_def)
  then show "plain_key k \<Longrightarrow> ?thesis" by (intro step_line)
qed

lemma step_short:
  "plain_key k \<Longrightarrow> conf_step delims upd c (conf_line k (fmt_hd x)) = upd c k (fmt_hd x)"
  unfolding fmt_hd_def by (rule step_number)

lemma read_lines:
  "(\<And>l. l \<in> set ls \<Longrightarrow> is_line bufsz l) \<Longrightarrow>
     conf_read bufsz delims upd c (concat ls) = run_steps (conf_step delims upd) c ls"
  by (simp add: conf_read_def chunks_concat)

lemma read_append:
  "a = [] \<or> last a = LF \<Longrightarrow>
     conf_read bufsz delims upd c (a @ b) =
       (case conf_read bufsz delims upd c a of Inl e \<Rightarrow> Inl e | Inr c' \<Rightarrow> conf_read bufsz delims upd c' b)"
  by (simp add: conf_read_def chunks_append [OF room] run_steps_append cong: sum.case_cong)

lemma read_one:
  "is_line bufsz l \<Longrightarrow> conf_read bufsz delims upd c l = conf_step delims upd c l"
  using read_lines [of "[l]" c] by (simp split: sum.split)

lemma read_none: "CHR ''='' \<notin> set s \<Longrightarrow> conf_read bufsz delims upd c s = Inr c"
proof -
  assume a: "CHR ''='' \<notin> set s"
  have "conf_step delims upd c' l = Inr c'" if "l \<in> set (chunks bufsz s)" for c' l
  proof (rule step_plain)
    have "set l \<subseteq> set (concat (chunks bufsz s))" using that by auto
    with a concat_chunks [OF room, of s] show "CHR ''='' \<notin> set l" by auto
  qed
  then have "run_steps (conf_step delims upd) c ls = Inr c" if "set ls \<subseteq> set (chunks bufsz s)" for ls
    using that by (induction ls) auto
  then show ?thesis by (simp add: conf_read_def)
qed

lemma read_inv:
  assumes "conf_read bufsz delims upd c s = Inr c'" and "P c"
    and keep: "\<And>c k v c'. P c \<Longrightarrow> NUL \<notin> set v \<Longrightarrow> length v < bufsz \<Longrightarrow> upd c k v = Inr c' \<Longrightarrow> P c'"
  shows "P c'"
proof -
  have step: "P d'" if "l \<in> set (chunks bufsz s)" "P d" "conf_step delims upd d l = Inr d'" for d d' l
    using that split_line_value [of delims l] chunks_length [OF room, of l s] keep
    by (force simp: conf_step_def split: sum.splits option.splits)
  have "P d'" if "set ls \<subseteq> set (chunks bufsz s)" "P d" "run_steps (conf_step delims upd) d ls = Inr d'"
    for ls d d'
    using that step by (induction ls arbitrary: d) (auto split: sum.splits)
  then show ?thesis using assms(1,2) unfolding conf_read_def by blast
qed

end

text \<open>A dispatch that never faults makes a loop that never faults.\<close>

locale total_reader = conf_reader +
  assumes total: "\<exists>c'. upd c k v = Inr c'"
begin

lemma read_total: "\<exists>c'. conf_read bufsz delims upd c s = Inr c'"
proof -
  have "\<exists>c'. conf_step delims upd c l = Inr c'" for c l
    using split_line_total [of delims l] total by (auto simp: conf_step_def split: option.splits)
  then have "\<exists>c'. run_steps (conf_step delims upd) c ls = Inr c'" for ls
  proof (induction ls arbitrary: c)
    case (Cons l ls)
    obtain d where "conf_step delims upd c l = Inr d" using Cons.prems by blast
    with Cons show ?case by simp
  qed simp
  then show ?thesis by (simp add: conf_read_def)
qed

end

lemma LF_not_in_number [conf_simps]: "LF \<notin> set (fmt_d x)" "LF \<notin> set (fmt_hd x)"
  using fmt_d_chars [of LF] by (auto simp: fmt_hd_def c_isdigit_def)

lemma yes_no_facts [conf_simps]:
  "LF \<notin> set (yes_no b)" "(yes_no b = ''yes'') = (b \<noteq> 0)" "(yes_no b = ''no'') = (b = 0)"
  by (auto simp: yes_no_def)

lemma yes_no_length: "length (yes_no b) \<le> 3"
  by (simp add: yes_no_def)

lemma yes_no_plain [conf_simps]: "plain_value d (yes_no b) \<longleftrightarrow>
    (\<forall>c \<in> set (yes_no b). c \<notin> set d)"
  by (auto simp: plain_value_def yes_no_def)

end
