(* ===== verification/Sys_Log.thy ===== *)
theory Sys_Log
  imports Conf_File
begin

text \<open>
  The syslog configuration of src/sys_log.c and src/sys_log.h: the structure, the parser and the
  printer of /etc/sys_log.conf, the command line that restarts the syslog daemon, and the reset to
  the factory file. The dispatch \<open>sys_log_set\<close> interprets the locale \<open>total_reader\<close>, which gives
  the reading loop; the properties are that a saved configuration is read back, what happens when
  the remote host is empty, and that the command fits its buffer.
\<close>

record sys_log_config =
  remote_enable :: int
  loglevel :: int
  remote_host :: string

definition FILE_SYS_LOG_CONF_NAME :: string where "FILE_SYS_LOG_CONF_NAME = ''sys_log.conf''"
definition FILE_SYS_LOG_CONF_PATH :: string where "FILE_SYS_LOG_CONF_PATH = ''/etc/''"
definition FILE_SYS_LOG_CONF_DEFAULT_PATH :: string where
  "FILE_SYS_LOG_CONF_DEFAULT_PATH = ''/etc.ro/''"
definition FILE_SYS_LOG_CONF :: path where
  "FILE_SYS_LOG_CONF = FILE_SYS_LOG_CONF_PATH @ FILE_SYS_LOG_CONF_NAME"
definition DAEMON_SYS_LOG :: string where "DAEMON_SYS_LOG = ''/sbin/syslogd''"
definition DAEMON_PORT_SYS_LOG :: int where "DAEMON_PORT_SYS_LOG = 172"

abbreviation SYS_LOG_BUF_SIZE :: nat where "SYS_LOG_BUF_SIZE \<equiv> 256"

text \<open>
  The delimiters of the crop: in the source the literal is \<open>" \t\n\0;#"\<close>, whose NUL byte ends it, so
  the semicolon and the hash sign behind it are not delimiters.
\<close>

abbreviation blank_delims :: string where "blank_delims \<equiv> [CHR 0x20, CHR 0x09, CHR 0x0A]"

definition sys_log_empty :: sys_log_config where
  "sys_log_empty = \<lparr>remote_enable = 0, loglevel = 0, remote_host = []\<rparr>"

definition sys_log_set :: "sys_log_config \<Rightarrow> string \<Rightarrow> string \<Rightarrow> sys_log_config outcome" where
  "sys_log_set conf key value =
     Inr (if key = ''remote_enable'' then conf\<lparr>remote_enable := c_atoi value\<rparr>
          else if key = ''loglevel'' then conf\<lparr>loglevel := c_atoi value\<rparr>
          else if key = ''remote_host'' then conf\<lparr>remote_host := c_strncpy 63 value\<rparr>
          else conf)"

definition libamg_sys_log_parse_config :: "world \<Rightarrow> (sys_log_config option \<times> world) outcome" where
  "libamg_sys_log_parse_config w =
     (case alloc_and_open FILE_SYS_LOG_CONF w of
        (None, w1) \<Rightarrow> Inr (None, w1)
      | (Some content, w1) \<Rightarrow>
          (case conf_read SYS_LOG_BUF_SIZE blank_delims sys_log_set sys_log_empty content of
             Inl e \<Rightarrow> Inl e
           | Inr conf \<Rightarrow> Inr (Some conf, f_close w1)))"

definition sys_log_prints :: "sys_log_config \<Rightarrow> string list" where
  "sys_log_prints conf =
     [conf_line ''remote_enable'' (fmt_d (remote_enable conf)),
      conf_line ''loglevel'' (fmt_d (loglevel conf)),
      conf_line ''remote_host'' (remote_host conf)]"

definition libamg_sys_log_save_config :: "sys_log_config \<Rightarrow> world \<Rightarrow> int \<times> world" where
  "libamg_sys_log_save_config conf w =
     (case fopen_w FILE_SYS_LOG_CONF w of
        (False, w1) \<Rightarrow> (- 1, w1)
      | (True, w1) \<Rightarrow> (0, f_close (f_prints FILE_SYS_LOG_CONF (sys_log_prints conf) w1)))"

definition libamg_sys_log_reset_config :: "world \<Rightarrow> int \<times> world" where
  "libamg_sys_log_reset_config w =
     c_system (c_snprintf SYS_LOG_BUF_SIZE
       (''cp '' @ FILE_SYS_LOG_CONF_DEFAULT_PATH @ FILE_SYS_LOG_CONF_NAME @ '' '' @
        FILE_SYS_LOG_CONF_PATH)) w"

definition sys_log_command :: "sys_log_config \<Rightarrow> string" where
  "sys_log_command config =
     DAEMON_SYS_LOG @
     (if remote_enable config \<noteq> 0 then
        (if loglevel config \<noteq> 0 then '' -l '' @ fmt_d (loglevel config) else []) @
        (if length (remote_host config) > 0
         then '' -L -R '' @ remote_host config @ '':'' @ fmt_d DAEMON_PORT_SYS_LOG else [])
      else [])"

text \<open>The local array \<open>command\<close> has \<open>BUF_SIZE\<close> bytes, one of them for the terminator.\<close>

definition libamg_sys_log_daemon_apply_config :: "world \<Rightarrow> (int \<times> world) outcome" where
  "libamg_sys_log_daemon_apply_config w =
     (case libamg_sys_log_parse_config w of
        Inl e \<Rightarrow> Inl e
      | Inr (None, w1) \<Rightarrow> Inl Null_Deref
      | Inr (Some config, w1) \<Rightarrow>
          (let w2 = snd (c_system ''/bin/pkill syslogd'' w1);
               command = sys_log_command config
           in if SYS_LOG_BUF_SIZE \<le> length command then Inl Out_Of_Bounds
              else Inr (0, c_free (snd (c_system command w2)))))"

subsection \<open>Reading\<close>

interpretation slog: total_reader SYS_LOG_BUF_SIZE blank_delims sys_log_set
  by unfold_locales (auto simp: sys_log_set_def c_isdigit_def)

definition sys_log_ok :: "sys_log_config \<Rightarrow> bool" where
  "sys_log_ok conf \<longleftrightarrow>
     int32 (remote_enable conf) \<and> int32 (loglevel conf) \<and>
     length (remote_host conf) \<le> 63 \<and> NUL \<notin> set (remote_host conf)"

lemma sys_log_empty_ok: "sys_log_ok sys_log_empty"
  by (simp add: sys_log_ok_def sys_log_empty_def int32_def INT_MIN_def INT_MAX_def)

lemma sys_log_set_ok:
  "sys_log_ok c \<Longrightarrow> NUL \<notin> set v \<Longrightarrow> sys_log_set c k v = Inr c' \<Longrightarrow> sys_log_ok c'"
  by (auto simp: sys_log_set_def sys_log_ok_def c_strncpy_def atoi_int32
      dest: in_set_takeD split: if_splits)

lemma sys_log_read_ok:
  "conf_read SYS_LOG_BUF_SIZE blank_delims sys_log_set sys_log_empty s = Inr c \<Longrightarrow> sys_log_ok c"
  by (erule slog.read_inv) (auto simp: sys_log_empty_ok intro: sys_log_set_ok)

lemma sys_log_parse_cases:
  obtains w' where "libamg_sys_log_parse_config w = Inr (None, w')"
  | c w' where "libamg_sys_log_parse_config w = Inr (Some c, w')" "sys_log_ok c"
      "live w' = live w + 1" "open_files w' = open_files w" "cmds w' = cmds w"
proof (cases rule: alloc_and_open_cases [of w FILE_SYS_LOG_CONF])
  case (opened s)
  obtain c where c: "conf_read SYS_LOG_BUF_SIZE blank_delims sys_log_set sys_log_empty s = Inr c"
    using slog.read_total by blast
  define w' where "w' = w\<lparr>allocs := Suc (allocs w), live := live w + 1\<rparr>"
  have "libamg_sys_log_parse_config w = Inr (Some c, w')"
    using opened c by (simp add: libamg_sys_log_parse_config_def f_close_def w'_def)
  then show ?thesis
    using sys_log_read_ok [OF c] by (rule that(2)) (simp_all add: w'_def)
qed (auto simp: libamg_sys_log_parse_config_def intro: that(1))

subsection \<open>Saving and reading back\<close>

lemma sys_log_lines:
  "sys_log_ok c \<Longrightarrow> LF \<notin> set (remote_host c) \<Longrightarrow> l \<in> set (sys_log_prints c) \<Longrightarrow>
     is_line SYS_LOG_BUF_SIZE l"
  using fmt_d_length [of "remote_enable c"] fmt_d_length [of "loglevel c"]
  by (auto simp: sys_log_prints_def sys_log_ok_def conf_simps intro!: conf_line_is_line)

lemma sys_log_read_back:
  assumes "sys_log_ok c" and "plain_value blank_delims (remote_host c)"
  shows "conf_read SYS_LOG_BUF_SIZE blank_delims sys_log_set sys_log_empty
           (concat (sys_log_prints c)) = Inr c"
proof -
  have "LF \<notin> set (remote_host c)" using assms(2) by (auto simp: plain_value_def)
  then have "conf_read SYS_LOG_BUF_SIZE blank_delims sys_log_set sys_log_empty
      (concat (sys_log_prints c)) =
      run_steps (conf_step blank_delims sys_log_set) sys_log_empty (sys_log_prints c)"
    using assms(1) sys_log_lines by (intro slog.read_lines)
  also have "\<dots> = Inr c"
    using assms
    by (simp add: sys_log_prints_def slog.step_number slog.step_line conf_simps sys_log_set_def
        sys_log_empty_def sys_log_ok_def c_strncpy_def)
  finally show ?thesis .
qed

lemma sys_log_save_effect:
  "\<not> cannot_write w FILE_SYS_LOG_CONF \<Longrightarrow>
     libamg_sys_log_save_config c w =
       (0, w\<lparr>files := (files w)(FILE_SYS_LOG_CONF \<mapsto> concat (sys_log_prints c))\<rparr>)"
  by (simp add: libamg_sys_log_save_config_def world_simps)

text \<open>C17: A syslog configuration whose host is a non-empty word without blanks of at most 63 bytes, and whose
  numbers are 32-bit integers, is read back unchanged after it has been saved, whatever the file held before.
  Saving allocates nothing and closes its stream; the parser closes its own and leaves allocated the one block
  that it returns. (Other hosts are not read back: an empty one becomes a line feed, see below.)\<close>

theorem sys_log_save_parse:
  assumes "sys_log_ok c" and "plain_value blank_delims (remote_host c)"
    and "\<not> cannot_write w FILE_SYS_LOG_CONF" and "\<not> cannot_read w FILE_SYS_LOG_CONF"
    and "alloc_ok w (allocs w)"
  shows "\<exists>w1 w2. libamg_sys_log_save_config c w = (0, w1) \<and>
           live w1 = live w \<and> open_files w1 = open_files w \<and>
           libamg_sys_log_parse_config w1 = Inr (Some c, w2) \<and>
           open_files w2 = open_files w \<and> live w2 = live w + 1"
  using assms sys_log_read_back [OF assms(1,2)]
  by (simp add: sys_log_save_effect libamg_sys_log_parse_config_def world_simps f_close_def)

definition demo_world :: world where
  "demo_world = \<lparr>files = Map.empty, cannot_read = (\<lambda>_. False), cannot_write = (\<lambda>_. False),
     shell = (\<lambda>_ fs. (0, fs)), alloc_ok = (\<lambda>_. True), allocs = 0, live = 0, open_files = 0, cmds = []\<rparr>"

theorem sys_log_save_parse_witness:
  "\<exists>w1 w2. libamg_sys_log_save_config
       \<lparr>remote_enable = 1, loglevel = 7, remote_host = ''10.0.0.9''\<rparr> demo_world = (0, w1) \<and>
     live w1 = 0 \<and> open_files w1 = 0 \<and>
     libamg_sys_log_parse_config w1 =
       Inr (Some \<lparr>remote_enable = 1, loglevel = 7, remote_host = ''10.0.0.9''\<rparr>, w2) \<and>
     open_files w2 = 0 \<and> live w2 = 1"
  using sys_log_save_parse [of "\<lparr>remote_enable = 1, loglevel = 7, remote_host = ''10.0.0.9''\<rparr>"
      demo_world]
  by (simp add: sys_log_ok_def int32_def INT_MIN_def INT_MAX_def plain_value_def demo_world_def)

text \<open>An empty remote host is not read back: the saved line has no token after the equals
  sign, the crop leaves the line feed in place, and with remote logging enabled the daemon is
  started with that line feed as the host, which ends the command early and leaves the port as a
  second command line of the shell.\<close>

theorem sys_log_empty_host:
  assumes "sys_log_ok c" and "remote_host c = []" and "remote_enable c \<noteq> 0" and "loglevel c = 0"
    and "\<not> cannot_write w FILE_SYS_LOG_CONF" and "\<not> cannot_read w FILE_SYS_LOG_CONF"
    and "alloc_ok w (allocs w)"
  shows "\<exists>w1 w2. libamg_sys_log_save_config c w = (0, w1) \<and>
           libamg_sys_log_daemon_apply_config w1 = Inr (0, w2) \<and>
           cmds w2 = cmds w @ [''/bin/pkill syslogd'', ''/sbin/syslogd -L -R \<newline>:172'']"
proof -
  let ?c' = "c\<lparr>remote_host := [LF]\<rparr>"
  have "conf_read SYS_LOG_BUF_SIZE blank_delims sys_log_set sys_log_empty
      (concat (sys_log_prints c)) =
      run_steps (conf_step blank_delims sys_log_set) sys_log_empty (sys_log_prints c)"
    using assms(1,2) sys_log_lines by (intro slog.read_lines) simp
  also have "\<dots> = Inr ?c'"
    using assms(1,2)
    by (simp add: sys_log_prints_def slog.step_number slog.step_empty conf_simps sys_log_set_def
        sys_log_empty_def sys_log_ok_def c_strncpy_def)
  finally have r: "conf_read SYS_LOG_BUF_SIZE blank_delims sys_log_set sys_log_empty
      (concat (sys_log_prints c)) = Inr ?c'" .
  have p: "fmt_d 172 = ''172''" by (simp add: fmt_d_def show_nat.simps)
  have cmd: "sys_log_command ?c' = ''/sbin/syslogd -L -R \<newline>:172''"
    using assms(3,4) by (simp add: sys_log_command_def DAEMON_SYS_LOG_def DAEMON_PORT_SYS_LOG_def p)
  show ?thesis
    using assms(5-7) r
    by (simp add: sys_log_save_effect libamg_sys_log_daemon_apply_config_def
        libamg_sys_log_parse_config_def world_simps cmd Let_def f_close_def c_free_def)
qed

theorem sys_log_empty_host_witness:
  "\<exists>w1 w2. libamg_sys_log_save_config \<lparr>remote_enable = 1, loglevel = 0, remote_host = []\<rparr> demo_world =
       (0, w1) \<and>
     libamg_sys_log_daemon_apply_config w1 = Inr (0, w2) \<and>
     cmds w2 = [''/bin/pkill syslogd'', ''/sbin/syslogd -L -R \<newline>:172'']"
  using sys_log_empty_host [of "\<lparr>remote_enable = 1, loglevel = 0, remote_host = []\<rparr>" demo_world]
  by (simp add: sys_log_ok_def int32_def INT_MIN_def INT_MAX_def demo_world_def)

subsection \<open>Applying\<close>

lemma sys_log_command_length: "sys_log_ok c \<Longrightarrow> length (sys_log_command c) \<le> 107"
  using fmt_d_length [of "loglevel c"]
  by (auto simp: sys_log_command_def sys_log_ok_def DAEMON_SYS_LOG_def DAEMON_PORT_SYS_LOG_def
      fmt_d_def show_nat.simps)

text \<open>In every world the apply function either dereferences the null pointer that the parser
  returned, or kills the daemon, starts it with the command built from the parsed configuration,
  which always fits its buffer of 256 bytes, releases the configuration and returns 0.\<close>

theorem sys_log_apply_outcome:
  "(libamg_sys_log_daemon_apply_config w = Inl Null_Deref \<and>
      (\<exists>w'. libamg_sys_log_parse_config w = Inr (None, w'))) \<or>
   (\<exists>c w1 w2. libamg_sys_log_parse_config w = Inr (Some c, w1) \<and>
      libamg_sys_log_daemon_apply_config w = Inr (0, w2) \<and>
      length (sys_log_command c) < 256 \<and>
      cmds w2 = cmds w @ [''/bin/pkill syslogd'', sys_log_command c] \<and>
      live w2 = live w \<and> open_files w2 = open_files w)"
proof (cases rule: sys_log_parse_cases [of w])
  case (1 w')
  then show ?thesis by (simp add: libamg_sys_log_daemon_apply_config_def)
next
  case (2 c w')
  with sys_log_command_length [of c] show ?thesis
    by (simp add: libamg_sys_log_daemon_apply_config_def Let_def c_free_def)
qed

text \<open>Under the documented behaviour of cp, resetting replaces the configuration file by the
  factory file and returns 0.\<close>

theorem sys_log_reset:
  assumes "cp_copies w ''/etc.ro/sys_log.conf'' FILE_SYS_LOG_CONF ''cp /etc.ro/sys_log.conf /etc/''"
    and "files w ''/etc.ro/sys_log.conf'' = Some s"
  shows "\<exists>w'. libamg_sys_log_reset_config w = (0, w') \<and>
           files w' = (files w)(FILE_SYS_LOG_CONF \<mapsto> s)"
  using cp_copiesD [OF assms]
  by (simp add: libamg_sys_log_reset_config_def c_snprintf_def FILE_SYS_LOG_CONF_DEFAULT_PATH_def
      FILE_SYS_LOG_CONF_NAME_def FILE_SYS_LOG_CONF_PATH_def)

theorem sys_log_reset_witness:
  "\<exists>w'. libamg_sys_log_reset_config
       (demo_world\<lparr>files := [''/etc.ro/sys_log.conf'' \<mapsto> ''loglevel=7''],
          shell := (\<lambda>_ fs. (0, fs(FILE_SYS_LOG_CONF := fs ''/etc.ro/sys_log.conf'')))\<rparr>) = (0, w') \<and>
     files w' = [''/etc.ro/sys_log.conf'' \<mapsto> ''loglevel=7'', FILE_SYS_LOG_CONF \<mapsto> ''loglevel=7'']"
  by (rule sys_log_reset [of "demo_world\<lparr>files := [''/etc.ro/sys_log.conf'' \<mapsto> ''loglevel=7''],
          shell := (\<lambda>_ fs. (0, fs(FILE_SYS_LOG_CONF := fs ''/etc.ro/sys_log.conf'')))\<rparr>"
        "''loglevel=7''", simplified])
    (simp add: cp_copies_def)

end
