(* ===== verification/Extensions.thy ===== *)
theory Extensions
  imports Conf_File
begin

text \<open>
  The dial plan of src/extensions.c and src/extensions.h: the structure with the optional dial
  prefix, the parser and the printer of /etc/asterisk/extensions.conf, the emptiness check, the
  flush, the reset and the copy to flash. The printer emits the constant sections of the header;
  the properties say what the parser makes of a file in terms of its last assignment, and that a
  saved prefix is never read back.
\<close>

record extensions_config =
  prefix_enable :: int
  dial_prefix :: int

definition FILE_EXTENSIONS_CONF_NAME :: string where "FILE_EXTENSIONS_CONF_NAME = ''extensions.conf''"
definition FILE_EXTENSIONS_CONF_PATH :: string where "FILE_EXTENSIONS_CONF_PATH = ''/etc/asterisk/''"
definition FILE_EXTENSIONS_CONF_DEFAULT_PATH :: string where
  "FILE_EXTENSIONS_CONF_DEFAULT_PATH = ''/etc.ro/asterisk/''"
definition FILE_EXTENSIONS_CONF :: path where
  "FILE_EXTENSIONS_CONF = FILE_EXTENSIONS_CONF_PATH @ FILE_EXTENSIONS_CONF_NAME"

definition EXTENSIONS_GENERAL_CONTENT :: string where
  "EXTENSIONS_GENERAL_CONTENT =
     ''[general]\<newline>'' @ ''static=yes\<newline>'' @ ''writeprotect=no\<newline>'' @ ''autofallthrough=yes\<newline>'' @
     ''clearglobalvars=no\<newline>'' @ ''priorityjumping=no\<newline>''"

definition EXTENSIONS_GLOBALS_CONTENT :: string where
  "EXTENSIONS_GLOBALS_CONTENT = ''\<newline>[globals]''"

definition EXTENSIONS_GLOBALS_PREFIX :: string where "EXTENSIONS_GLOBALS_PREFIX = ''PREFIX=''"

definition EXTENSIONS_ACCOUNT_FROM_SPAN1_CONTENT :: string where
  "EXTENSIONS_ACCOUNT_FROM_SPAN1_CONTENT =
     ''\<newline>[from-span1]\<newline>'' @ ''exten => _X.,1,Noop()\<newline>'' @ ''exten => _X.,n,Answer()\<newline>'' @
     ''exten => _X.,n,Ringing()\<newline>''"

definition EXTENSIONS_ACCOUNT_FROM_SPAN1_DIAL_STAND :: string where
  "EXTENSIONS_ACCOUNT_FROM_SPAN1_DIAL_STAND =
     ''exten => _X.,n,Dial(SIP/${EXTEN}@User1&Local/s@nop)\<newline>''"

definition EXTENSIONS_ACCOUNT_FROM_SPAN1_DIAL_PREFIX :: string where
  "EXTENSIONS_ACCOUNT_FROM_SPAN1_DIAL_PREFIX =
     ''exten => _X.,n,Dial(SIP/${PREFIX}${EXTEN}@User1&Local/s@nop)\<newline>''"

definition EXTENSIONS_ACCOUNT_NOP_CONTENT :: string where
  "EXTENSIONS_ACCOUNT_NOP_CONTENT = ''\<newline>[nop]\<newline>'' @ ''exten => s,1,Hangup()\<newline>''"

definition EXTENSIONS_ACCOUNT_FROM_SIP_CONTENT :: string where
  "EXTENSIONS_ACCOUNT_FROM_SIP_CONTENT =
     ''\<newline>[from-sip]\<newline>'' @ ''exten => _X.,1,Noop()\<newline>'' @
     ''exten => _X.,n,Dial(DAHDI/g1/${EXTEN})\<newline>''"

abbreviation EXTENSIONS_BUF_SIZE :: nat where "EXTENSIONS_BUF_SIZE \<equiv> 256"
abbreviation extensions_delims :: string where "extensions_delims \<equiv> [CHR 0x20, CHR 0x09, CHR 0x0A]"

definition libamg_extensions_check_config :: "world \<Rightarrow> int \<times> world" where
  "libamg_extensions_check_config w =
     (case fopen_r FILE_EXTENSIONS_CONF w of
        (None, w1) \<Rightarrow> (- 1, w1)
      | (Some content, w1) \<Rightarrow> (if length content > 0 then 1 else 0, f_close w1))"

definition libamg_extensions_flush_config :: "world \<Rightarrow> int \<times> world" where
  "libamg_extensions_flush_config w =
     (case fopen_w FILE_EXTENSIONS_CONF w of (False, w1) \<Rightarrow> (- 1, w1) | (True, w1) \<Rightarrow> (0, f_close w1))"

definition libamg_extensions_reset_config :: "world \<Rightarrow> int \<times> world" where
  "libamg_extensions_reset_config w =
     c_system (c_snprintf EXTENSIONS_BUF_SIZE
       (''cp '' @ FILE_EXTENSIONS_CONF_DEFAULT_PATH @ FILE_EXTENSIONS_CONF_NAME @ '' '' @
        FILE_EXTENSIONS_CONF_PATH)) w"

definition extensions_empty :: extensions_config where
  "extensions_empty = \<lparr>prefix_enable = 0, dial_prefix = 0\<rparr>"

definition extensions_set ::
    "extensions_config \<Rightarrow> string \<Rightarrow> string \<Rightarrow> extensions_config outcome" where
  "extensions_set conf key value =
     Inr (if key = ''PREFIX'' then conf\<lparr>dial_prefix := c_atoi value, prefix_enable := 1\<rparr>
          else conf\<lparr>dial_prefix := - 1, prefix_enable := 0\<rparr>)"

definition libamg_extensions_parse_config :: "world \<Rightarrow> (extensions_config option \<times> world) outcome" where
  "libamg_extensions_parse_config w =
     (case alloc_and_open FILE_EXTENSIONS_CONF w of
        (None, w1) \<Rightarrow> Inr (None, w1)
      | (Some content, w1) \<Rightarrow>
          (case conf_read EXTENSIONS_BUF_SIZE extensions_delims extensions_set extensions_empty content of
             Inl e \<Rightarrow> Inl e
           | Inr conf \<Rightarrow> Inr (Some conf, f_close w1)))"

definition extensions_prints :: "extensions_config \<Rightarrow> string list" where
  "extensions_prints conf =
     [EXTENSIONS_GENERAL_CONTENT, EXTENSIONS_GLOBALS_CONTENT] @
     (if prefix_enable conf \<noteq> 0
      then [EXTENSIONS_GLOBALS_PREFIX @ ''='' @ fmt_hd (dial_prefix conf) @ [LF]] else []) @
     [EXTENSIONS_ACCOUNT_FROM_SPAN1_CONTENT] @
     (if prefix_enable conf \<noteq> 0 then [EXTENSIONS_ACCOUNT_FROM_SPAN1_DIAL_PREFIX]
      else [EXTENSIONS_ACCOUNT_FROM_SPAN1_DIAL_STAND]) @
     [EXTENSIONS_ACCOUNT_NOP_CONTENT, EXTENSIONS_ACCOUNT_FROM_SIP_CONTENT]"

definition libamg_extensions_save_config :: "extensions_config \<Rightarrow> world \<Rightarrow> int \<times> world" where
  "libamg_extensions_save_config conf w =
     (case fopen_w FILE_EXTENSIONS_CONF w of
        (False, w1) \<Rightarrow> (- 1, w1)
      | (True, w1) \<Rightarrow> (0, f_close (f_prints FILE_EXTENSIONS_CONF (extensions_prints conf) w1)))"

definition libamg_extensions_flash_save_config :: "world \<Rightarrow> world" where
  "libamg_extensions_flash_save_config w =
     run_cmds
       [''if [ ! -d /mnt/config/asterisk ]; then '' @ ''mkdir /mnt/config/asterisk; fi'',
        ''cp '' @ FILE_EXTENSIONS_CONF @ '' /mnt/config/asterisk''] w"

subsection \<open>What the parser makes of a file\<close>

interpretation ext: total_reader EXTENSIONS_BUF_SIZE extensions_delims extensions_set
  by unfold_locales (auto simp: extensions_set_def c_isdigit_def)

text \<open>The text before the last assignment does not matter, nor does text without an equals sign after it.\<close>

lemma extensions_read_last:
  assumes "a = [] \<or> last a = LF" and "is_line EXTENSIONS_BUF_SIZE l"
    and "split_line extensions_delims l = Inr (Some (k, v))" and "CHR ''='' \<notin> set b"
  shows "conf_read EXTENSIONS_BUF_SIZE extensions_delims extensions_set extensions_empty (a @ l @ b) =
           Inr (if k = ''PREFIX'' then \<lparr>prefix_enable = 1, dial_prefix = c_atoi v\<rparr>
                else \<lparr>prefix_enable = 0, dial_prefix = - 1\<rparr>)"
proof -
  obtain c where "conf_read EXTENSIONS_BUF_SIZE extensions_delims extensions_set extensions_empty a = Inr c"
    using ext.read_total by blast
  moreover have "last l = LF" using assms(2) by (simp add: is_line_def)
  ultimately show ?thesis
    using assms
    by (auto simp: ext.read_append ext.read_one ext.read_none conf_step_def extensions_set_def)
qed

text \<open>The parser returns a prefix exactly when the last assignment of the file is to PREFIX: it
  enables the prefix and takes its number, and any other assignment in last place disables it and
  sets it to -1, whatever precedes it.\<close>

theorem extensions_parse_last_assignment:
  assumes "files w FILE_EXTENSIONS_CONF = Some (a @ conf_line k v @ b)"
    and "\<not> cannot_read w FILE_EXTENSIONS_CONF" and "alloc_ok w (allocs w)"
    and "a = [] \<or> last a = LF" and "CHR ''='' \<notin> set b"
    and "plain_key k" and "plain_value extensions_delims v" and "length k + length v < 254"
  shows "\<exists>w'. libamg_extensions_parse_config w =
           Inr (Some (if k = ''PREFIX'' then \<lparr>prefix_enable = 1, dial_prefix = c_atoi v\<rparr>
                      else \<lparr>prefix_enable = 0, dial_prefix = - 1\<rparr>), w') \<and>
         open_files w' = open_files w"
proof -
  have "is_line EXTENSIONS_BUF_SIZE (conf_line k v)"
    using assms(6-8) by (intro conf_line_is_line) (auto simp: plain_value_def)
  then show ?thesis
    using extensions_read_last [OF assms(4), of "conf_line k v" k v b] assms
    by (simp add: split_conf_line libamg_extensions_parse_config_def world_simps f_close_def)
qed

definition ext_demo :: world where
  "ext_demo = \<lparr>files = [FILE_EXTENSIONS_CONF \<mapsto> ''static=yes\<newline>PREFIX=42\<newline>[nop]\<newline>''],
     cannot_read = (\<lambda>_. False), cannot_write = (\<lambda>_. False),
     shell = (\<lambda>_ fs. (0, fs)), alloc_ok = (\<lambda>_. True), allocs = 0, live = 0, open_files = 0, cmds = []\<rparr>"

theorem extensions_parse_last_assignment_witness:
  "\<exists>w'. libamg_extensions_parse_config ext_demo =
     Inr (Some \<lparr>prefix_enable = 1, dial_prefix = 42\<rparr>, w') \<and> open_files w' = 0"
proof -
  have "c_atoi ''42'' = 42"
    by (simp add: c_atoi_def c_isspace_def read_digits_def c_isdigit_def digit_val_def INT_MAX_def)
  then show ?thesis
    using extensions_parse_last_assignment
      [of ext_demo "''static=yes\<newline>''" "''PREFIX''" "''42''" "''[nop]\<newline>''"]
    by (simp add: ext_demo_def conf_line_def plain_key_def plain_value_def)
qed

subsection \<open>Saving\<close>

lemma extensions_save_effect:
  "\<not> cannot_write w FILE_EXTENSIONS_CONF \<Longrightarrow>
     libamg_extensions_save_config c w =
       (0, w\<lparr>files := (files w)(FILE_EXTENSIONS_CONF \<mapsto> concat (extensions_prints c))\<rparr>)"
  by (simp add: libamg_extensions_save_config_def world_simps)

definition last_extension :: string where
  "last_extension = ''exten => _X.,n,Dial(DAHDI/g1/${EXTEN})\<newline>''"

lemma extensions_prints_split:
  "\<exists>a. concat (extensions_prints c) = a @ last_extension \<and> last a = LF"
proof -
  define a where "a = concat (butlast (extensions_prints c)) @ ''\<newline>[from-sip]\<newline>'' @
      ''exten => _X.,1,Noop()\<newline>''"
  have "concat (extensions_prints c) = a @ last_extension"
    by (simp add: a_def extensions_prints_def last_extension_def butlast_append
        EXTENSIONS_ACCOUNT_FROM_SIP_CONTENT_def)
  moreover have "last a = LF" by (simp add: a_def)
  ultimately show ?thesis by blast
qed

lemma last_extension_line:
  "is_line EXTENSIONS_BUF_SIZE last_extension"
  "\<exists>v. split_line extensions_delims last_extension = Inr (Some (''exten '', v))"
proof -
  show "is_line EXTENSIONS_BUF_SIZE last_extension" by (simp add: is_line_def last_extension_def)
  show "\<exists>v. split_line extensions_delims last_extension = Inr (Some (''exten '', v))"
    using split_line_eq [of "''exten ''" extensions_delims "''> _X.,n,Dial(DAHDI/g1/${EXTEN})\<newline>''"]
    by (simp add: last_extension_def)
qed

text \<open>A dial prefix does not survive: whatever configuration is saved, parsing the saved file
  reports the prefix as disabled with the value -1.\<close>

theorem extensions_prefix_lost:
  assumes "\<not> cannot_write w FILE_EXTENSIONS_CONF" and "\<not> cannot_read w FILE_EXTENSIONS_CONF"
    and "alloc_ok w (allocs w)"
  shows "\<exists>w1 w2. libamg_extensions_save_config c w = (0, w1) \<and>
           libamg_extensions_parse_config w1 =
             Inr (Some \<lparr>prefix_enable = 0, dial_prefix = - 1\<rparr>, w2)"
proof -
  obtain a where a: "concat (extensions_prints c) = a @ last_extension" "last a = LF"
    using extensions_prints_split by blast
  obtain v where "split_line extensions_delims last_extension = Inr (Some (''exten '', v))"
    using last_extension_line(2) by blast
  with a last_extension_line(1) have
    "conf_read EXTENSIONS_BUF_SIZE extensions_delims extensions_set extensions_empty
       (concat (extensions_prints c)) = Inr \<lparr>prefix_enable = 0, dial_prefix = - 1\<rparr>"
    using extensions_read_last [of a last_extension "''exten ''" v "[]"] by simp
  with assms show ?thesis
    by (simp add: extensions_save_effect libamg_extensions_parse_config_def world_simps)
qed

theorem extensions_prefix_lost_witness:
  "\<exists>w1 w2. libamg_extensions_save_config \<lparr>prefix_enable = 1, dial_prefix = 42\<rparr> ext_demo = (0, w1) \<and>
     libamg_extensions_parse_config w1 = Inr (Some \<lparr>prefix_enable = 0, dial_prefix = - 1\<rparr>, w2)"
  by (rule extensions_prefix_lost) (simp_all add: ext_demo_def)

text \<open>The emptiness check is exact: it answers 0 after a flush and 1 after a save, and -1 only
  when the file cannot be opened; none of the three leaves a stream open.\<close>

theorem extensions_check_config_spec:
  assumes "\<not> cannot_write w FILE_EXTENSIONS_CONF" and "\<not> cannot_read w FILE_EXTENSIONS_CONF"
  shows "fst (libamg_extensions_check_config (snd (libamg_extensions_flush_config w))) = 0 \<and>
         fst (libamg_extensions_check_config (snd (libamg_extensions_save_config c w))) = 1 \<and>
         (fst (libamg_extensions_check_config w) = - 1 \<longleftrightarrow> files w FILE_EXTENSIONS_CONF = None) \<and>
         open_files (snd (libamg_extensions_check_config w)) = open_files w \<and>
         open_files (snd (libamg_extensions_flush_config w)) = open_files w \<and>
         open_files (snd (libamg_extensions_save_config c w)) = open_files w"
proof -
  have ne: "concat (extensions_prints c) \<noteq> []"
    by (simp add: extensions_prints_def EXTENSIONS_GENERAL_CONTENT_def)
  show ?thesis
    using assms ne
    by (auto simp: libamg_extensions_check_config_def libamg_extensions_flush_config_def
        extensions_save_effect fopen_r_def fopen_w_def f_close_def split: option.split)
qed

theorem extensions_check_config_spec_witness:
  "fst (libamg_extensions_check_config (snd (libamg_extensions_flush_config ext_demo))) = 0 \<and>
   fst (libamg_extensions_check_config
     (snd (libamg_extensions_save_config \<lparr>prefix_enable = 0, dial_prefix = 0\<rparr> ext_demo))) = 1"
  using extensions_check_config_spec [of ext_demo "\<lparr>prefix_enable = 0, dial_prefix = 0\<rparr>"]
  by (simp add: ext_demo_def)

end
