(* ===== verification/Code_Tables.thy ===== *)
theory Code_Tables
  imports C_Library
begin

text \<open>
  The tables between names in configuration files and codes in the structures: codecs, DTMF modes,
  insecure modes, transports, session timers and refreshers (src/sip.c, src/sip.h) and pass-through
  codecs (src/comcerto.c). The locale \<open>code_table\<close> is what the printers and parsers rely on: the
  name printed for a code is read back as that code. \<open>exact_code_table\<close> adds that no other name is
  read as the code. Every table below interprets one of the two.
\<close>

text \<open>\<open>strncmp(s, t, n) == 0\<close> on C strings\<close>

definition c_strncmp_eq :: "string \<Rightarrow> string \<Rightarrow> nat \<Rightarrow> bool" where
  "c_strncmp_eq s t n \<longleftrightarrow> take n s = take n t"

locale code_table =
  fixes name_of :: "int \<Rightarrow> string option" and code_of :: "string \<Rightarrow> int" and fallback :: int
  assumes code_of_name: "name_of c = Some n \<Longrightarrow> code_of n = c"
begin

lemma names_distinct: "name_of c = Some n \<Longrightarrow> name_of d = Some n \<Longrightarrow> c = d"
  using code_of_name by metis

lemma inj_names: "inj_on name_of {c. name_of c \<noteq> None}"
  by (auto intro!: inj_onI names_distinct)

end

locale exact_code_table = code_table +
  assumes unknown_name: "code_of n \<noteq> fallback \<Longrightarrow> name_of (code_of n) = Some n"
begin

lemma code_iff_name: "c \<noteq> fallback \<Longrightarrow> code_of n = c \<longleftrightarrow> name_of c = Some n"
  using code_of_name unknown_name by blast

lemma name_of_code_of: "name_of (code_of n) = Some n \<or> code_of n = fallback"
  using unknown_name by blast

end

subsection \<open>Codecs\<close>

definition libamg_sip_get_codec_code :: "string \<Rightarrow> int" where
  "libamg_sip_get_codec_code codec_name =
     (if c_strncmp_eq codec_name ''alaw'' (length ''alaw'') then 0x100
      else if c_strncmp_eq codec_name ''ulaw'' (length ''ulaw'') then 0x80
      else if c_strncmp_eq codec_name ''g723'' (length ''g723'') then 0x40
      else if c_strncmp_eq codec_name ''g726-16'' (length ''g726-16'') then 0x20
      else if c_strncmp_eq codec_name ''g726-24'' (length ''g726-24'') then 0x10
      else if c_strncmp_eq codec_name ''g726-40'' (length ''g726-40'') then 0x4
      else if c_strncmp_eq codec_name ''g726'' (length ''g726'') then 0x8
      else if c_strncmp_eq codec_name ''g729'' (length ''g729'') then 0x2
      else if c_strncmp_eq codec_name ''gsm'' (length ''gsm'') then 0x1
      else - 1)"

definition libamg_sip_get_codec_name :: "int \<Rightarrow> string option" where
  "libamg_sip_get_codec_name codec_code =
     (if codec_code = 0x100 then Some ''alaw''
      else if codec_code = 0x80 then Some ''ulaw''
      else if codec_code = 0x40 then Some ''g723''
      else if codec_code = 0x20 then Some ''g726-16''
      else if codec_code = 0x10 then Some ''g726-24''
      else if codec_code = 0x8 then Some ''g726''
      else if codec_code = 0x4 then Some ''g726-40''
      else if codec_code = 0x2 then Some ''g729''
      else if codec_code = 0x1 then Some ''gsm''
      else None)"

interpretation codec: code_table libamg_sip_get_codec_name libamg_sip_get_codec_code "- 1"
  by unfold_locales
    (auto simp: libamg_sip_get_codec_name_def libamg_sip_get_codec_code_def c_strncmp_eq_def
      split: if_splits)

lemma if_elims:
  assumes "(if b then x else y) = Some z"
  obtains "b" "x = Some z" | "\<not> b" "y = Some z"
  using assms by (cases b) auto

definition codec_codes :: "int list" where
  "codec_codes = [0x100, 0x80, 0x40, 0x20, 0x10, 0x8, 0x4, 0x2, 0x1]"

lemma codec_name_defined: "libamg_sip_get_codec_name c \<noteq> None \<longleftrightarrow> c \<in> set codec_codes"
  by (simp add: libamg_sip_get_codec_name_def codec_codes_def)

lemma codec_code_range: "libamg_sip_get_codec_code s \<in> set codec_codes \<or> libamg_sip_get_codec_code s = - 1"
  by (simp add: libamg_sip_get_codec_code_def codec_codes_def)

lemma codec_code_printed:
  "libamg_sip_get_codec_name c = Some n \<Longrightarrow> libamg_sip_get_codec_code (n @ CHR '':'' # r) = c"
  unfolding libamg_sip_get_codec_name_def
  by (elim if_elims) (auto simp: libamg_sip_get_codec_code_def c_strncmp_eq_def)

text \<open>The code that the codec printer names is recovered from that name even when the packet
  interval follows it after a colon, as in the allow lines of sip.conf; in particular the name
  g726 of the 32 kbps codec is not mistaken for the three longer names that begin with it, and
  distinct codes print distinct names.\<close>

theorem codec_name_colon_roundtrip:
  assumes "libamg_sip_get_codec_name c = Some n"
  shows "libamg_sip_get_codec_code (n @ CHR '':'' # r) = c \<and>
         (libamg_sip_get_codec_name d = Some n \<longrightarrow> d = c)"
  using codec_code_printed [OF assms] codec.names_distinct [OF assms, of d] by blast

theorem codec_name_colon_roundtrip_witness:
  "libamg_sip_get_codec_code ''g726:20'' = 8"
  using codec_name_colon_roundtrip [of 8 "''g726''" "''20''"]
  by (simp add: libamg_sip_get_codec_name_def)

subsection \<open>Modes of an account\<close>

definition libamg_sip_get_session_timers_refresher_code :: "string \<Rightarrow> int" where
  "libamg_sip_get_session_timers_refresher_code nm =
     (if nm = ''uac'' then 0x2 else if nm = ''uas'' then 0x1 else 0x0)"

definition libamg_sip_get_session_timers_refresher_name :: "int \<Rightarrow> string option" where
  "libamg_sip_get_session_timers_refresher_name code =
     (if code = 0x2 then Some ''uac'' else if code = 0x1 then Some ''uas'' else None)"

definition libamg_sip_get_session_timers_code :: "string \<Rightarrow> int" where
  "libamg_sip_get_session_timers_code nm =
     (if nm = ''originate'' then 0x4 else if nm = ''refuse'' then 0x2
      else if nm = ''accept'' then 0x1 else 0x0)"

definition libamg_sip_get_session_timers_name :: "int \<Rightarrow> string option" where
  "libamg_sip_get_session_timers_name code =
     (if code = 0x4 then Some ''originate'' else if code = 0x2 then Some ''refuse''
      else if code = 0x1 then Some ''accept'' else None)"

definition libamg_sip_get_transport_code :: "string \<Rightarrow> int" where
  "libamg_sip_get_transport_code nm =
     (if nm = ''tcp'' then 1 else if nm = ''udp'' then 0 else - 1)"

definition libamg_sip_get_transport_name :: "int \<Rightarrow> string option" where
  "libamg_sip_get_transport_name code =
     (if code = 0 then Some ''udp'' else if code = 1 then Some ''tcp'' else None)"

definition libamg_sip_get_insecure_code :: "string \<Rightarrow> int" where
  "libamg_sip_get_insecure_code nm =
     (if nm = ''very'' then 0x8 else if nm = ''port'' then 0x4
      else if nm = ''invite'' then 0x2 else if nm = ''port,invite'' then 0x1
      else if nm = ''no'' then 0x0 else - 1)"

definition libamg_sip_get_insecure_name :: "int \<Rightarrow> string option" where
  "libamg_sip_get_insecure_name code =
     (if code = 0x8 then Some ''very'' else if code = 0x4 then Some ''port''
      else if code = 0x2 then Some ''invite'' else if code = 0x1 then Some ''port,invite''
      else if code = 0x0 then Some ''no'' else None)"

definition libamg_sip_get_dtmfmode_code :: "string \<Rightarrow> int" where
  "libamg_sip_get_dtmfmode_code nm =
     (if nm = ''inband'' then 0x4 else if nm = ''rfc2833'' then 0x2
      else if nm = ''info'' then 0x1 else if nm = ''auto'' then 0x8 else - 1)"

definition libamg_sip_get_dtmfmode_name :: "int \<Rightarrow> string option" where
  "libamg_sip_get_dtmfmode_name code =
     (if code = 0x4 then Some ''inband'' else if code = 0x2 then Some ''rfc2833''
      else if code = 0x1 then Some ''info'' else if code = 0x8 then Some ''auto'' else None)"

definition libamg_comcerto_get_codec_passthrough_code :: "string \<Rightarrow> int" where
  "libamg_comcerto_get_codec_passthrough_code nm =
     (if nm = ''alaw'' then 0x100 else if nm = ''ulaw'' then 0x80 else 0)"

definition libamg_comcerto_get_codec_passthrough_name :: "int \<Rightarrow> string option" where
  "libamg_comcerto_get_codec_passthrough_name code =
     (if code = 0x100 then Some ''alaw'' else if code = 0x80 then Some ''ulaw'' else None)"

interpretation refresher: exact_code_table
  libamg_sip_get_session_timers_refresher_name libamg_sip_get_session_timers_refresher_code 0
  by unfold_locales
    (auto simp: libamg_sip_get_session_timers_refresher_name_def
      libamg_sip_get_session_timers_refresher_code_def split: if_splits)

interpretation timers: exact_code_table
  libamg_sip_get_session_timers_name libamg_sip_get_session_timers_code 0
  by unfold_locales
    (auto simp: libamg_sip_get_session_timers_name_def libamg_sip_get_session_timers_code_def
      split: if_splits)

interpretation transport_modes: exact_code_table
  libamg_sip_get_transport_name libamg_sip_get_transport_code "- 1"
  by unfold_locales
    (auto simp: libamg_sip_get_transport_name_def libamg_sip_get_transport_code_def split: if_splits)

interpretation insecure_modes: exact_code_table
  libamg_sip_get_insecure_name libamg_sip_get_insecure_code "- 1"
  by unfold_locales
    (auto simp: libamg_sip_get_insecure_name_def libamg_sip_get_insecure_code_def split: if_splits)

interpretation dtmf_modes: exact_code_table
  libamg_sip_get_dtmfmode_name libamg_sip_get_dtmfmode_code "- 1"
  by unfold_locales
    (auto simp: libamg_sip_get_dtmfmode_name_def libamg_sip_get_dtmfmode_code_def split: if_splits)

interpretation passthrough: exact_code_table
  libamg_comcerto_get_codec_passthrough_name libamg_comcerto_get_codec_passthrough_code 0
  by unfold_locales
    (auto simp: libamg_comcerto_get_codec_passthrough_name_def
      libamg_comcerto_get_codec_passthrough_code_def split: if_splits)

text \<open>In each of the six exact mode tables a name is read as a code other than the fallback
  exactly when that code prints as the name; so names and codes correspond one to one.\<close>

theorem mode_tables_exact:
  "(c \<noteq> 0 \<longrightarrow> (libamg_sip_get_session_timers_refresher_code n = c \<longleftrightarrow>
      libamg_sip_get_session_timers_refresher_name c = Some n)) \<and>
   (c \<noteq> 0 \<longrightarrow> (libamg_sip_get_session_timers_code n = c \<longleftrightarrow>
      libamg_sip_get_session_timers_name c = Some n)) \<and>
   (c \<noteq> - 1 \<longrightarrow> (libamg_sip_get_transport_code n = c \<longleftrightarrow> libamg_sip_get_transport_name c = Some n)) \<and>
   (c \<noteq> - 1 \<longrightarrow> (libamg_sip_get_insecure_code n = c \<longleftrightarrow> libamg_sip_get_insecure_name c = Some n)) \<and>
   (c \<noteq> - 1 \<longrightarrow> (libamg_sip_get_dtmfmode_code n = c \<longleftrightarrow> libamg_sip_get_dtmfmode_name c = Some n)) \<and>
   (c \<noteq> 0 \<longrightarrow> (libamg_comcerto_get_codec_passthrough_code n = c \<longleftrightarrow>
      libamg_comcerto_get_codec_passthrough_name c = Some n))"
  using refresher.code_iff_name timers.code_iff_name transport_modes.code_iff_name
    insecure_modes.code_iff_name dtmf_modes.code_iff_name passthrough.code_iff_name
  by blast

theorem mode_tables_exact_witness:
  "libamg_sip_get_insecure_code ''port,invite'' = 1 \<and> libamg_sip_get_dtmfmode_code ''auto'' = 8"
  using mode_tables_exact [of 1 "''port,invite''"] mode_tables_exact [of 8 "''auto''"]
  by (simp add: libamg_sip_get_insecure_name_def libamg_sip_get_dtmfmode_name_def)

end
