(* ===== verification/Comcerto.thy ===== *)
theory Comcerto
  imports Conf_File Code_Tables
begin

text \<open>
  The DSP configuration of src/comcerto.c and src/comcerto.h: the structures, the parser of
  /etc/asterisk/comcerto.conf and the functions that consult it (codec intervals, VAD and comfort
  noise flags, G.723.1 rate, debugging). The printer is here too; the save function, which also
  rewrites sip.conf, is in Comcerto_Save because it needs the SIP component.
\<close>

record libamg_codecs_intvl =
  g711_a :: int
  g711_u :: int
  g723_1 :: int
  g726_16 :: int
  g726_24 :: int
  g726_32 :: int
  g726_40 :: int
  g729 :: int
  gsm :: int

record libamg_jb_config =
  jb_enable :: int
  jb_maxsize :: int
  jb_impl :: int
  jb_mindelay :: int
  jb_typdelay :: int
  jb_maxdelay :: int
  jb_delet_thrld :: int

record comcerto_config =
  debug :: int
  codec_g723_1 :: int
  pass_through :: int
  ais_enable :: int
  vad_enable :: int
  vad_level :: int
  cng_enable :: int
  echocan_enable :: int
  ectail :: int
  txgain :: int
  rxgain :: int
  e1_enable :: int
  e1_loopback_enable :: int
  mfcr2_tone_amp :: int
  jb_conf :: libamg_jb_config
  codecs_intvl :: libamg_codecs_intvl

definition FILE_COMCERTO_CONF_NAME :: string where "FILE_COMCERTO_CONF_NAME = ''comcerto.conf''"
definition FILE_COMCERTO_CONF_PATH :: string where "FILE_COMCERTO_CONF_PATH = ''/etc/asterisk/''"
definition FILE_COMCERTO_CONF :: path where
  "FILE_COMCERTO_CONF = FILE_COMCERTO_CONF_PATH @ FILE_COMCERTO_CONF_NAME"
definition FILE_CONCERTO_CONF_DEFAULT_PATH :: string where
  "FILE_CONCERTO_CONF_DEFAULT_PATH = ''/etc.ro/asterisk/''"

abbreviation COMCERTO_BUF_SIZE :: nat where "COMCERTO_BUF_SIZE \<equiv> 128"
abbreviation comcerto_delims :: string where "comcerto_delims \<equiv> [CHR 0x20, CHR 0x09, CHR 0x0A]"

definition jb_zero :: libamg_jb_config where
  "jb_zero = \<lparr>jb_enable = 0, jb_maxsize = 0, jb_impl = 0, jb_mindelay = 0, jb_typdelay = 0,
     jb_maxdelay = 0, jb_delet_thrld = 0\<rparr>"

definition intvl_zero :: libamg_codecs_intvl where
  "intvl_zero = \<lparr>g711_a = 0, g711_u = 0, g723_1 = 0, g726_16 = 0, g726_24 = 0, g726_32 = 0,
     g726_40 = 0, g729 = 0, gsm = 0\<rparr>"

definition comcerto_empty :: comcerto_config where
  "comcerto_empty = \<lparr>debug = 0, codec_g723_1 = 0, pass_through = 0, ais_enable = 0, vad_enable = 0,
     vad_level = 0, cng_enable = 0, echocan_enable = 0, ectail = 0, txgain = 0, rxgain = 0,
     e1_enable = 0, e1_loopback_enable = 0, mfcr2_tone_amp = 0, jb_conf = jb_zero,
     codecs_intvl = intvl_zero\<rparr>"

text \<open>\<open>!strcmp(value, word)\<close> as a number\<close>

definition streq :: "string \<Rightarrow> string \<Rightarrow> int" where
  "streq s t = (if s = t then 1 else 0)"

definition comcerto_set :: "comcerto_config \<Rightarrow> string \<Rightarrow> string \<Rightarrow> comcerto_config outcome" where
  "comcerto_set conf key value =
     (let jb = jb_conf conf; iv = codecs_intvl conf in Inr (
      if key = ''codec_g723_1'' then conf\<lparr>codec_g723_1 := streq value ''6.3kbps''\<rparr>
      else if key = ''pass_through'' then
        conf\<lparr>pass_through := libamg_comcerto_get_codec_passthrough_code value\<rparr>
      else if key = ''ais_enable'' then conf\<lparr>ais_enable := streq value ''yes''\<rparr>
      else if key = ''vad_enable'' then conf\<lparr>vad_enable := streq value ''yes''\<rparr>
      else if key = ''vad_level'' then conf\<lparr>vad_level := c_atoi value\<rparr>
      else if key = ''cng_enable'' then conf\<lparr>cng_enable := streq value ''yes''\<rparr>
      else if key = ''echocancel_enable'' then conf\<lparr>echocan_enable := streq value ''yes''\<rparr>
      else if key = ''txgain'' then conf\<lparr>txgain := c_atoi value\<rparr>
      else if key = ''rxgain'' then conf\<lparr>rxgain := c_atoi value\<rparr>
      else if key = ''ectail'' then conf\<lparr>ectail := c_atoi value\<rparr>
      else if key = ''e1_enable'' then conf\<lparr>e1_enable := streq value ''yes''\<rparr>
      else if key = ''e1_loopback_enable'' then conf\<lparr>e1_loopback_enable := streq value ''yes''\<rparr>
      else if key = ''jbenable'' then conf\<lparr>jb_conf := jb\<lparr>jb_enable := streq value ''yes''\<rparr>\<rparr>
      else if key = ''jbmaxsize'' then conf\<lparr>jb_conf := jb\<lparr>jb_maxsize := c_atoi value\<rparr>\<rparr>
      else if key = ''jbimpl'' then conf\<lparr>jb_conf := jb\<lparr>jb_impl := streq value ''adaptive''\<rparr>\<rparr>
      else if key = ''jbmindelay'' then conf\<lparr>jb_conf := jb\<lparr>jb_mindelay := c_atoi value\<rparr>\<rparr>
      else if key = ''jbtypdelay'' then conf\<lparr>jb_conf := jb\<lparr>jb_typdelay := c_atoi value\<rparr>\<rparr>
      else if key = ''jbmaxdelay'' then conf\<lparr>jb_conf := jb\<lparr>jb_maxdelay := c_atoi value\<rparr>\<rparr>
      else if key = ''jbdelet_thrld'' then conf\<lparr>jb_conf := jb\<lparr>jb_delet_thrld := c_atoi value\<rparr>\<rparr>
      else if key = ''mfcr2_tone_amp'' then conf\<lparr>mfcr2_tone_amp := c_atoi value\<rparr>
      else if key = ''debug'' then conf\<lparr>debug := c_atoi value\<rparr>
      else if key = ''codec_intvl_g711_a'' then conf\<lparr>codecs_intvl := iv\<lparr>g711_a := c_atoi value\<rparr>\<rparr>
      else if key = ''codec_intvl_g711_u'' then conf\<lparr>codecs_intvl := iv\<lparr>g711_u := c_atoi value\<rparr>\<rparr>
      else if key = ''codec_intvl_g723_1'' then conf\<lparr>codecs_intvl := iv\<lparr>g723_1 := c_atoi value\<rparr>\<rparr>
      else if key = ''codec_intvl_g726_16'' then conf\<lparr>codecs_intvl := iv\<lparr>g726_16 := c_atoi value\<rparr>\<rparr>
      else if key = ''codec_intvl_g726_24'' then conf\<lparr>codecs_intvl := iv\<lparr>g726_24 := c_atoi value\<rparr>\<rparr>
      else if key = ''codec_intvl_g726_32'' then conf\<lparr>codecs_intvl := iv\<lparr>g726_32 := c_atoi value\<rparr>\<rparr>
      else if key = ''codec_intvl_g726_40'' then conf\<lparr>codecs_intvl := iv\<lparr>g726_40 := c_atoi value\<rparr>\<rparr>
      else if key = ''codec_intvl_g729'' then conf\<lparr>codecs_intvl := iv\<lparr>g729 := c_atoi value\<rparr>\<rparr>
      else if key = ''codec_intvl_gsm'' then conf\<lparr>codecs_intvl := iv\<lparr>gsm := c_atoi value\<rparr>\<rparr>
      else conf))"

definition libamg_comcerto_parse_config :: "world \<Rightarrow> (comcerto_config option \<times> world) outcome" where
  "libamg_comcerto_parse_config w =
     (case alloc_and_open FILE_COMCERTO_CONF w of
        (None, w1) \<Rightarrow> Inr (None, w1)
      | (Some content, w1) \<Rightarrow>
          (case conf_read COMCERTO_BUF_SIZE comcerto_delims comcerto_set comcerto_empty content of
             Inl e \<Rightarrow> Inl e
           | Inr conf \<Rightarrow> Inr (Some conf, f_close w1)))"

text \<open>
  The prints of the save function; a pass-through code without a name would hand NULL to
  \<open>fprintf\<close>.
\<close>

definition comcerto_head_prints :: "comcerto_config \<Rightarrow> string list" where
  "comcerto_head_prints conf =
     [''[general]\<newline>'',
      conf_line ''debug'' (fmt_d (debug conf)),
      conf_line ''ais_enable'' (yes_no (ais_enable conf)),
      conf_line ''vad_enable'' (yes_no (vad_enable conf)),
      conf_line ''vad_level'' (fmt_hd (vad_level conf)),
      conf_line ''cng_enable'' (yes_no (cng_enable conf)),
      conf_line ''echocancel_enable'' (yes_no (echocan_enable conf)),
      conf_line ''ectail'' (fmt_hd (ectail conf)),
      conf_line ''e1_enable'' (yes_no (e1_enable conf)),
      conf_line ''e1_loopback_enable'' (yes_no (e1_loopback_enable conf)),
      conf_line ''mfcr2_tone_amp'' (fmt_d (mfcr2_tone_amp conf)),
      conf_line ''jbenable'' ''yes'',
      conf_line ''jbmaxsize'' (fmt_hd (jb_maxsize (jb_conf conf))),
      conf_line ''jbimpl'' (if jb_impl (jb_conf conf) \<noteq> 0 then ''adaptive'' else ''fixed''),
      conf_line ''jbmindelay'' (fmt_hd (jb_mindelay (jb_conf conf))),
      conf_line ''jbtypdelay'' (fmt_hd (jb_typdelay (jb_conf conf))),
      conf_line ''jbmaxdelay'' (fmt_hd (jb_maxdelay (jb_conf conf))),
      conf_line ''jbdelet_thrld'' (fmt_hd (jb_delet_thrld (jb_conf conf))),
      conf_line ''txgain'' (fmt_hd (txgain conf)),
      conf_line ''rxgain'' (fmt_hd (rxgain conf)),
      conf_line ''codec_g723_1'' (if codec_g723_1 conf \<noteq> 0 then ''6.3kbps'' else ''5.3kbps'')]"

definition comcerto_pass_prints :: "comcerto_config \<Rightarrow> string list outcome" where
  "comcerto_pass_prints conf =
     (if pass_through conf \<noteq> 0 then
        (case libamg_comcerto_get_codec_passthrough_name (pass_through conf) of
           None \<Rightarrow> Inl Null_Deref
         | Some nm \<Rightarrow> Inr [conf_line ''pass_through'' nm])
      else Inr [])"

definition comcerto_intvl_prints :: "comcerto_config \<Rightarrow> string list" where
  "comcerto_intvl_prints conf =
     (let iv = codecs_intvl conf in
     [conf_line ''codec_intvl_g711_a'' (fmt_hd (g711_a iv)),
      conf_line ''codec_intvl_g711_u'' (fmt_hd (g711_u iv)),
      conf_line ''codec_intvl_g723_1'' (fmt_hd (g723_1 iv)),
      conf_line ''codec_intvl_g726_16'' (fmt_hd (g726_16 iv)),
      conf_line ''codec_intvl_g726_24'' (fmt_hd (g726_24 iv)),
      conf_line ''codec_intvl_g726_32'' (fmt_hd (g726_32 iv)),
      conf_line ''codec_intvl_g726_40'' (fmt_hd (g726_40 iv)),
      conf_line ''codec_intvl_g729'' (fmt_hd (g729 iv)),
      conf_line ''codec_intvl_gsm'' (fmt_hd (gsm iv))])"

definition comcerto_prints :: "comcerto_config \<Rightarrow> string list outcome" where
  "comcerto_prints conf =
     (case comcerto_pass_prints conf of
        Inl e \<Rightarrow> Inl e
      | Inr ps \<Rightarrow> Inr (comcerto_head_prints conf @ ps @ comcerto_intvl_prints conf))"

subsection \<open>Functions that consult the configuration\<close>

definition libamg_comcerto_get_cng_enable :: "world \<Rightarrow> (int \<times> world) outcome" where
  "libamg_comcerto_get_cng_enable w =
     (case libamg_comcerto_parse_config w of
        Inl e \<Rightarrow> Inl e
      | Inr (None, w1) \<Rightarrow> Inl Null_Deref
      | Inr (Some config, w1) \<Rightarrow> Inr (cng_enable config, c_free w1))"

definition libamg_comcerto_get_vad_enable :: "world \<Rightarrow> (int \<times> world) outcome" where
  "libamg_comcerto_get_vad_enable w =
     (case libamg_comcerto_parse_config w of
        Inl e \<Rightarrow> Inl e
      | Inr (None, w1) \<Rightarrow> Inl Null_Deref
      | Inr (Some config, w1) \<Rightarrow> Inr (vad_enable config, c_free w1))"

definition libamg_comcerto_get_codec_g723_1_bitrate_name :: "world \<Rightarrow> (string \<times> world) outcome" where
  "libamg_comcerto_get_codec_g723_1_bitrate_name w =
     (case libamg_comcerto_parse_config w of
        Inl e \<Rightarrow> Inl e
      | Inr (None, w1) \<Rightarrow> Inl Null_Deref
      | Inr (Some config, w1) \<Rightarrow>
          (if codec_g723_1 config \<noteq> 0 then Inr (''6.3'', c_free w1) else Inr (''5.3'', c_free w1)))"

definition interval_of :: "libamg_codecs_intvl \<Rightarrow> int \<Rightarrow> int" where
  "interval_of iv codec_code =
     (if codec_code = 0x100 then g711_a iv
      else if codec_code = 0x80 then g711_u iv
      else if codec_code = 0x40 then g723_1 iv
      else if codec_code = 0x20 then g726_16 iv
      else if codec_code = 0x10 then g726_24 iv
      else if codec_code = 0x8 then g726_32 iv
      else if codec_code = 0x4 then g726_40 iv
      else if codec_code = 0x2 then g729 iv
      else if codec_code = 0x1 then gsm iv
      else 20)"

definition libamg_comcerto_get_codec_packetization_interval :: "int \<Rightarrow> world \<Rightarrow> (int \<times> world) outcome" where
  "libamg_comcerto_get_codec_packetization_interval codec_code w =
     (case libamg_comcerto_parse_config w of
        Inl e \<Rightarrow> Inl e
      | Inr (None, w1) \<Rightarrow> Inr (20, w1)
      | Inr (Some config, w1) \<Rightarrow> Inr (interval_of (codecs_intvl config) codec_code, c_free w1))"

definition libamg_comcerto_reset_config :: "world \<Rightarrow> int \<times> world" where
  "libamg_comcerto_reset_config w =
     c_system (c_snprintf COMCERTO_BUF_SIZE
       (''cp '' @ FILE_CONCERTO_CONF_DEFAULT_PATH @ FILE_COMCERTO_CONF_NAME @ '' '' @
        FILE_COMCERTO_CONF_PATH)) w"

definition libamg_comcerto_rtp_reload :: "world \<Rightarrow> int \<times> world" where
  "libamg_comcerto_rtp_reload w =
     c_system (''asterisk -rx '' @ [CHR 0x22] @ ''module reload librtp-comcerto'' @ [CHR 0x22]) w"

definition DEBUG_SIP :: int where "DEBUG_SIP = 0x1"
definition DEBUG_MFCR2 :: int where "DEBUG_MFCR2 = 0x2"
definition DEBUG_ISDN :: int where "DEBUG_ISDN = 0x4"
definition DEBUG_DTMF :: int where "DEBUG_DTMF = 0x8"

definition quoted :: "string \<Rightarrow> string" where
  "quoted s = CHR 0x27 # s @ [CHR 0x27]"

definition debug_cmds :: "int \<Rightarrow> string list" where
  "debug_cmds d =
     (if d \<noteq> 0 then [''/sbin/asterisk -rx '' @ quoted ''core set verbose 99''] else []) @
     (if and d DEBUG_SIP \<noteq> 0 then [''/sbin/asterisk -rx '' @ quoted ''sip set debug on''] else []) @
     (if and d DEBUG_MFCR2 \<noteq> 0 then [''/sbin/asterisk -rx '' @ quoted ''mfcr2 set debug all''] else []) @
     (if and d DEBUG_ISDN \<noteq> 0 then [''/sbin/asterisk -rx '' @ quoted ''pri set debug on span 1''] else []) @
     (if and d DEBUG_DTMF \<noteq> 0 then [''/sbin/asterisk -rx '' @ quoted ''core set debug 99''] else [])"

definition libamg_comcerto_set_debugging :: "world \<Rightarrow> (int \<times> world) outcome" where
  "libamg_comcerto_set_debugging w =
     (case libamg_comcerto_parse_config w of
        Inl e \<Rightarrow> Inl e
      | Inr (None, w1) \<Rightarrow> Inl Null_Deref
      | Inr (Some config, w1) \<Rightarrow> Inr (0, run_cmds (debug_cmds (debug config)) w1))"

subsection \<open>Reading back\<close>

interpretation com: total_reader COMCERTO_BUF_SIZE comcerto_delims comcerto_set
  by unfold_locales (auto simp: comcerto_set_def Let_def c_isdigit_def)

text \<open>What a configuration becomes when it is printed and parsed again.\<close>

definition flag :: "int \<Rightarrow> int" where
  "flag b = (if b \<noteq> 0 then 1 else 0)"

definition comcerto_norm :: "comcerto_config \<Rightarrow> comcerto_config" where
  "comcerto_norm c =
     c\<lparr>codec_g723_1 := flag (codec_g723_1 c), ais_enable := flag (ais_enable c),
       vad_enable := flag (vad_enable c), vad_level := to_short (vad_level c),
       cng_enable := flag (cng_enable c), echocan_enable := flag (echocan_enable c),
       ectail := to_short (ectail c), txgain := to_short (txgain c), rxgain := to_short (rxgain c),
       e1_enable := flag (e1_enable c), e1_loopback_enable := flag (e1_loopback_enable c),
       jb_conf :=
         \<lparr>jb_enable = 1, jb_maxsize = to_short (jb_maxsize (jb_conf c)),
          jb_impl = flag (jb_impl (jb_conf c)), jb_mindelay = to_short (jb_mindelay (jb_conf c)),
          jb_typdelay = to_short (jb_typdelay (jb_conf c)),
          jb_maxdelay = to_short (jb_maxdelay (jb_conf c)),
          jb_delet_thrld = to_short (jb_delet_thrld (jb_conf c))\<rparr>,
       codecs_intvl :=
         \<lparr>g711_a = to_short (g711_a (codecs_intvl c)), g711_u = to_short (g711_u (codecs_intvl c)),
          g723_1 = to_short (g723_1 (codecs_intvl c)), g726_16 = to_short (g726_16 (codecs_intvl c)),
          g726_24 = to_short (g726_24 (codecs_intvl c)), g726_32 = to_short (g726_32 (codecs_intvl c)),
          g726_40 = to_short (g726_40 (codecs_intvl c)), g729 = to_short (g729 (codecs_intvl c)),
          gsm = to_short (gsm (codecs_intvl c))\<rparr>\<rparr>"

definition comcerto_ok :: "comcerto_config \<Rightarrow> bool" where
  "comcerto_ok c \<longleftrightarrow>
     int32 (debug c) \<and> int32 (mfcr2_tone_amp c) \<and> pass_through c \<in> {0, 0x80, 0x100}"

lemma comcerto_prints_defined:
  "comcerto_ok c \<Longrightarrow> \<exists>ps. comcerto_prints c = Inr ps"
  by (auto simp: comcerto_ok_def comcerto_prints_def comcerto_pass_prints_def
      libamg_comcerto_get_codec_passthrough_name_def)

lemma comcerto_prints_lines:
  assumes "comcerto_ok c" and "comcerto_prints c = Inr ps" and "l \<in> set ps"
  shows "is_line COMCERTO_BUF_SIZE l"
proof -
  have gen: "is_line COMCERTO_BUF_SIZE ''[general]\<newline>''" by (simp add: is_line_def)
  have hd: "is_line COMCERTO_BUF_SIZE (conf_line k (fmt_hd x))"
    if "plain_key k" "length k \<le> 20" for k x
    using that fmt_hd_length [of x] by (auto intro!: conf_line_is_line simp: conf_simps)
  have d: "is_line COMCERTO_BUF_SIZE (conf_line k (fmt_d x))"
    if "plain_key k" "length k \<le> 20" "int32 x" for k x
    using that fmt_d_length [of x] by (auto intro!: conf_line_is_line simp: conf_simps)
  have yn: "is_line COMCERTO_BUF_SIZE (conf_line k (yes_no x))"
    if "plain_key k" "length k \<le> 20" for k x
    using that yes_no_length [of x] by (auto intro!: conf_line_is_line simp: conf_simps)
  have lit: "is_line COMCERTO_BUF_SIZE (conf_line k v)"
    if "plain_key k" "length k \<le> 20" "length v \<le> 20" "LF \<notin> set v" for k v
    using that by (auto intro!: conf_line_is_line)
  consider "l \<in> set (comcerto_head_prints c)" | "l \<in> set (comcerto_intvl_prints c)"
    | ps' where "comcerto_pass_prints c = Inr ps'" "l \<in> set ps'"
    using assms(2,3) by (auto simp: comcerto_prints_def split: sum.splits)
  then show ?thesis
  proof cases
    case 1
    then show ?thesis using assms(1)
      by (auto simp: comcerto_head_prints_def comcerto_ok_def gen conf_simps intro!: hd d yn lit
          split: if_splits)
  next
    case 2
    then show ?thesis by (auto simp: comcerto_intvl_prints_def Let_def conf_simps intro!: hd)
  next
    case 3
    then show ?thesis using assms(1)
      by (auto simp: comcerto_pass_prints_def libamg_comcerto_get_codec_passthrough_name_def
          comcerto_ok_def conf_simps intro!: lit split: if_splits)
  qed
qed

text \<open>The dispatch, one rule per key.\<close>

lemma comcerto_set_key:
  "comcerto_set c ''codec_g723_1'' v = Inr (c\<lparr>codec_g723_1 := streq v ''6.3kbps''\<rparr>)"
  "comcerto_set c ''pass_through'' v =
     Inr (c\<lparr>pass_through := libamg_comcerto_get_codec_passthrough_code v\<rparr>)"
  "comcerto_set c ''ais_enable'' v = Inr (c\<lparr>ais_enable := streq v ''yes''\<rparr>)"
  "comcerto_set c ''vad_enable'' v = Inr (c\<lparr>vad_enable := streq v ''yes''\<rparr>)"
  "comcerto_set c ''vad_level'' v = Inr (c\<lparr>vad_level := c_atoi v\<rparr>)"
  "comcerto_set c ''cng_enable'' v = Inr (c\<lparr>cng_enable := streq v ''yes''\<rparr>)"
  "comcerto_set c ''echocancel_enable'' v = Inr (c\<lparr>echocan_enable := streq v ''yes''\<rparr>)"
  "comcerto_set c ''txgain'' v = Inr (c\<lparr>txgain := c_atoi v\<rparr>)"
  "comcerto_set c ''rxgain'' v = Inr (c\<lparr>rxgain := c_atoi v\<rparr>)"
  "comcerto_set c ''ectail'' v = Inr (c\<lparr>ectail := c_atoi v\<rparr>)"
  "comcerto_set c ''e1_enable'' v = Inr (c\<lparr>e1_enable := streq v ''yes''\<rparr>)"
  "comcerto_set c ''e1_loopback_enable'' v = Inr (c\<lparr>e1_loopback_enable := streq v ''yes''\<rparr>)"
  "comcerto_set c ''mfcr2_tone_amp'' v = Inr (c\<lparr>mfcr2_tone_amp := c_atoi v\<rparr>)"
  "comcerto_set c ''debug'' v = Inr (c\<lparr>debug := c_atoi v\<rparr>)"
  by (simp_all add: comcerto_set_def Let_def)

lemma comcerto_set_jb_key:
  "comcerto_set c ''jbenable'' v = Inr (c\<lparr>jb_conf := (jb_conf c)\<lparr>jb_enable := streq v ''yes''\<rparr>\<rparr>)"
  "comcerto_set c ''jbmaxsize'' v = Inr (c\<lparr>jb_conf := (jb_conf c)\<lparr>jb_maxsize := c_atoi v\<rparr>\<rparr>)"
  "comcerto_set c ''jbimpl'' v = Inr (c\<lparr>jb_conf := (jb_conf c)\<lparr>jb_impl := streq v ''adaptive''\<rparr>\<rparr>)"
  "comcerto_set c ''jbmindelay'' v = Inr (c\<lparr>jb_conf := (jb_conf c)\<lparr>jb_mindelay := c_atoi v\<rparr>\<rparr>)"
  "comcerto_set c ''jbtypdelay'' v = Inr (c\<lparr>jb_conf := (jb_conf c)\<lparr>jb_typdelay := c_atoi v\<rparr>\<rparr>)"
  "comcerto_set c ''jbmaxdelay'' v = Inr (c\<lparr>jb_conf := (jb_conf c)\<lparr>jb_maxdelay := c_atoi v\<rparr>\<rparr>)"
  "comcerto_set c ''jbdelet_thrld'' v =
     Inr (c\<lparr>jb_conf := (jb_conf c)\<lparr>jb_delet_thrld := c_atoi v\<rparr>\<rparr>)"
  by (simp_all add: comcerto_set_def Let_def)

lemma comcerto_set_intvl_key:
  "comcerto_set c ''codec_intvl_g711_a'' v = Inr (c\<lparr>codecs_intvl := (codecs_intvl c)\<lparr>g711_a := c_atoi v\<rparr>\<rparr>)"
  "comcerto_set c ''codec_intvl_g711_u'' v = Inr (c\<lparr>codecs_intvl := (codecs_intvl c)\<lparr>g711_u := c_atoi v\<rparr>\<rparr>)"
  "comcerto_set c ''codec_intvl_g723_1'' v = Inr (c\<lparr>codecs_intvl := (codecs_intvl c)\<lparr>g723_1 := c_atoi v\<rparr>\<rparr>)"
  "comcerto_set c ''codec_intvl_g726_16'' v = Inr (c\<lparr>codecs_intvl := (codecs_intvl c)\<lparr>g726_16 := c_atoi v\<rparr>\<rparr>)"
  "comcerto_set c ''codec_intvl_g726_24'' v = Inr (c\<lparr>codecs_intvl := (codecs_intvl c)\<lparr>g726_24 := c_atoi v\<rparr>\<rparr>)"
  "comcerto_set c ''codec_intvl_g726_32'' v = Inr (c\<lparr>codecs_intvl := (codecs_intvl c)\<lparr>g726_32 := c_atoi v\<rparr>\<rparr>)"
  "comcerto_set c ''codec_intvl_g726_40'' v = Inr (c\<lparr>codecs_intvl := (codecs_intvl c)\<lparr>g726_40 := c_atoi v\<rparr>\<rparr>)"
  "comcerto_set c ''codec_intvl_g729'' v = Inr (c\<lparr>codecs_intvl := (codecs_intvl c)\<lparr>g729 := c_atoi v\<rparr>\<rparr>)"
  "comcerto_set c ''codec_intvl_gsm'' v = Inr (c\<lparr>codecs_intvl := (codecs_intvl c)\<lparr>gsm := c_atoi v\<rparr>\<rparr>)"
  by (simp_all add: comcerto_set_def Let_def)

lemma comcerto_words:
  "plain_value comcerto_delims (yes_no x)"
  "plain_value comcerto_delims ''yes''"
  "plain_value comcerto_delims ''adaptive''" "plain_value comcerto_delims ''fixed''"
  "plain_value comcerto_delims ''6.3kbps''" "plain_value comcerto_delims ''5.3kbps''"
  "plain_value comcerto_delims ''alaw''" "plain_value comcerto_delims ''ulaw''"
  by (simp_all add: plain_value_def yes_no_def)

lemma streq_simps:
  "streq (yes_no x) ''yes'' = flag x" "streq v v = 1"
  "streq ''fixed'' ''adaptive'' = 0" "streq ''5.3kbps'' ''6.3kbps'' = 0"
  by (simp_all add: streq_def yes_no_def flag_def)

lemma comcerto_choices:
  "plain_value comcerto_delims (if b then ''adaptive'' else ''fixed'')"
  "plain_value comcerto_delims (if b then ''6.3kbps'' else ''5.3kbps'')"
  "streq (if x \<noteq> 0 then ''adaptive'' else ''fixed'') ''adaptive'' = flag x"
  "streq (if x \<noteq> 0 then ''6.3kbps'' else ''5.3kbps'') ''6.3kbps'' = flag x"
  by (simp_all add: comcerto_words streq_def flag_def)

lemmas comcerto_step_simps =
  com.step_number com.step_short com.step_line plain_key_simps
  comcerto_words comcerto_choices streq_simps
  comcerto_set_key comcerto_set_jb_key comcerto_set_intvl_key

lemma comcerto_general: "conf_step comcerto_delims comcerto_set c ''[general]\<newline>'' = Inr c"
  by (rule com.step_plain) simp

lemma comcerto_head_read:
  assumes "comcerto_ok c"
  shows "run_steps (conf_step comcerto_delims comcerto_set) comcerto_empty (comcerto_head_prints c) =
    Inr ((comcerto_norm c)\<lparr>pass_through := 0, codecs_intvl := intvl_zero\<rparr>)"
proof -
  have "int32 (debug c)" "int32 (mfcr2_tone_amp c)" using assms by (simp_all add: comcerto_ok_def)
  then show ?thesis
    unfolding comcerto_head_prints_def comcerto_norm_def comcerto_empty_def jb_zero_def
    by (simp add: comcerto_step_simps comcerto_general split del: if_split)
qed

lemma comcerto_pass_read:
  assumes "comcerto_ok c" and "comcerto_pass_prints c = Inr ps"
  shows "run_steps (conf_step comcerto_delims comcerto_set) d ps =
    Inr (d\<lparr>pass_through := if pass_through c = 0 then pass_through d else pass_through c\<rparr>)"
  using assms
  by (auto simp: comcerto_pass_prints_def comcerto_ok_def comcerto_step_simps
      libamg_comcerto_get_codec_passthrough_name_def libamg_comcerto_get_codec_passthrough_code_def)

lemma comcerto_intvl_read:
  "run_steps (conf_step comcerto_delims comcerto_set) d (comcerto_intvl_prints c) =
    Inr (d\<lparr>codecs_intvl := codecs_intvl (comcerto_norm c)\<rparr>)"
  by (simp add: comcerto_intvl_prints_def Let_def comcerto_step_simps comcerto_norm_def)

lemma comcerto_read_back:
  assumes ok: "comcerto_ok c" and ps: "comcerto_prints c = Inr ps"
  shows "conf_read COMCERTO_BUF_SIZE comcerto_delims comcerto_set comcerto_empty (concat ps) =
    Inr (comcerto_norm c)"
proof -
  obtain qs where qs: "comcerto_pass_prints c = Inr qs"
      "ps = comcerto_head_prints c @ qs @ comcerto_intvl_prints c"
    using ps by (auto simp: comcerto_prints_def split: sum.splits)
  have "conf_read COMCERTO_BUF_SIZE comcerto_delims comcerto_set comcerto_empty (concat ps) =
      run_steps (conf_step comcerto_delims comcerto_set) comcerto_empty ps"
    using comcerto_prints_lines [OF ok ps] by (rule com.read_lines)
  also have "\<dots> = Inr (comcerto_norm c)"
    unfolding qs(2) run_steps_append comcerto_head_read [OF ok]
    using comcerto_pass_read [OF ok qs(1)]
    by (simp add: run_steps_append comcerto_intvl_read comcerto_norm_def)
  finally show ?thesis .
qed

lemma comcerto_parse_printed:
  assumes "comcerto_ok c" and "comcerto_prints c = Inr ps"
    and "files w FILE_COMCERTO_CONF = Some (concat ps)" "\<not> cannot_read w FILE_COMCERTO_CONF"
    and "alloc_ok w (allocs w)"
  shows "libamg_comcerto_parse_config w =
    Inr (Some (comcerto_norm c), w\<lparr>allocs := Suc (allocs w), live := live w + 1\<rparr>)"
  using assms comcerto_read_back [OF assms(1,2)]
  by (simp add: libamg_comcerto_parse_config_def world_simps f_close_def)

text \<open>In every world the interval lookup returns a number of 32 bits and changes only the heap.\<close>

definition intvls_ok :: "comcerto_config \<Rightarrow> bool" where
  "intvls_ok c \<longleftrightarrow> (let iv = codecs_intvl c in
     int32 (g711_a iv) \<and> int32 (g711_u iv) \<and> int32 (g723_1 iv) \<and> int32 (g726_16 iv) \<and>
     int32 (g726_24 iv) \<and> int32 (g726_32 iv) \<and> int32 (g726_40 iv) \<and> int32 (g729 iv) \<and> int32 (gsm iv))"

lemma intvls_ok_if: "intvls_ok c \<Longrightarrow> intvls_ok d \<Longrightarrow> intvls_ok (if b then c else d)"
  by simp

lemma comcerto_set_intvls:
  assumes "intvls_ok c" and "comcerto_set c k v = Inr c'"
  shows "intvls_ok c'"
proof -
  have "intvls_ok (projr (comcerto_set c k v))"
    unfolding comcerto_set_def Let_def sum.sel
    by (intro intvls_ok_if; use assms(1) in \<open>simp add: intvls_ok_def atoi_int32 Let_def\<close>)
  then show ?thesis by (simp add: assms(2))
qed

lemma comcerto_empty_intvls: "intvls_ok comcerto_empty"
  by (simp add: intvls_ok_def comcerto_empty_def intvl_zero_def int32_def INT_MIN_def INT_MAX_def)

lemma interval_of_int32: "intvls_ok c \<Longrightarrow> int32 (interval_of (codecs_intvl c) code)"
  by (simp add: intvls_ok_def Let_def interval_of_def int32_def [of 20] INT_MIN_def INT_MAX_def)

lemma comcerto_interval_result:
  "\<exists>x n l. libamg_comcerto_get_codec_packetization_interval code w =
      Inr (x, w\<lparr>allocs := n, live := l\<rparr>) \<and> int32 x \<and> (can_read FILE_COMCERTO_CONF w \<longrightarrow> l = live w) \<and>
      (\<not> can_read FILE_COMCERTO_CONF w \<and> (\<forall>k. alloc_ok w k) \<longrightarrow> l = live w + 1)"
proof (cases rule: alloc_and_open_cases [of w FILE_COMCERTO_CONF])
  case (opened s)
  obtain c where c: "conf_read COMCERTO_BUF_SIZE comcerto_delims comcerto_set comcerto_empty s = Inr c"
    using com.read_total by blast
  have "intvls_ok c"
    using c comcerto_empty_intvls comcerto_set_intvls by (rule com.read_inv)
  then have "int32 (interval_of (codecs_intvl c) code)" by (rule interval_of_int32)
  moreover have "libamg_comcerto_get_codec_packetization_interval code w =
      Inr (interval_of (codecs_intvl c) code, w\<lparr>allocs := Suc (allocs w), live := live w\<rparr>)"
    using opened c
    by (simp add: libamg_comcerto_get_codec_packetization_interval_def libamg_comcerto_parse_config_def
        f_close_def c_free_def)
  moreover have "can_read FILE_COMCERTO_CONF w" using opened by (simp add: can_read_def)
  ultimately show ?thesis by blast
next
  case no_memory
  then have "libamg_comcerto_get_codec_packetization_interval code w =
      Inr (20, w\<lparr>allocs := Suc (allocs w), live := live w\<rparr>)"
    by (simp add: libamg_comcerto_get_codec_packetization_interval_def libamg_comcerto_parse_config_def)
  moreover have "int32 20" by (simp add: int32_def INT_MIN_def INT_MAX_def)
  ultimately show ?thesis using no_memory(1) by blast
next
  case no_file
  then have "libamg_comcerto_get_codec_packetization_interval code w =
      Inr (20, w\<lparr>allocs := Suc (allocs w), live := live w + 1\<rparr>)"
    by (simp add: libamg_comcerto_get_codec_packetization_interval_def libamg_comcerto_parse_config_def)
  moreover have "int32 20" by (simp add: int32_def INT_MIN_def INT_MAX_def)
  ultimately show ?thesis using no_file by blast
qed

definition comcerto_demo :: comcerto_config where
  "comcerto_demo = comcerto_empty\<lparr>debug := 5, codec_g723_1 := 1, pass_through := 0x80, vad_level := 3,
     txgain := - 4, codecs_intvl := intvl_zero\<lparr>g711_a := 20, g729 := 40, gsm := 65556\<rparr>\<rparr>"

lemma comcerto_demo_ok: "comcerto_ok comcerto_demo"
  by (simp add: comcerto_ok_def comcerto_demo_def comcerto_empty_def int32_def INT_MIN_def INT_MAX_def)

definition comcerto_world :: "(path \<Rightarrow> string option) \<Rightarrow> world" where
  "comcerto_world fs = \<lparr>files = fs, cannot_read = (\<lambda>_. False), cannot_write = (\<lambda>_. False),
     shell = (\<lambda>c fs. (0, fs)), alloc_ok = (\<lambda>_. True), allocs = 0, live = 0, open_files = 0, cmds = []\<rparr>"

text \<open>When comcerto.conf holds the text that the printer writes for a configuration, the packet
  interval looked up for a codec is the interval stored for it, as a signed 16-bit number, and 20 for
  every code that is not one of the nine codecs; the lookup leaves the world as it was except for the
  count of allocations, so it neither leaks a block nor keeps the file open.\<close>

theorem comcerto_interval_lookup:
  assumes "comcerto_ok c" and "comcerto_prints c = Inr ps"
    and "files w FILE_COMCERTO_CONF = Some (concat ps)" "\<not> cannot_read w FILE_COMCERTO_CONF"
    and "alloc_ok w (allocs w)"
  shows "libamg_comcerto_get_codec_packetization_interval code w =
    Inr (case map_of [(256, g711_a), (128, g711_u), (64, g723_1), (32, g726_16), (16, g726_24), (8, g726_32),
             (4, g726_40), (2, g729), (1, gsm)] code of
           None \<Rightarrow> 20
         | Some member \<Rightarrow> to_short (member (codecs_intvl c)),
         w\<lparr>allocs := Suc (allocs w)\<rparr>)"
  using comcerto_parse_printed [OF assms]
  by (simp add: libamg_comcerto_get_codec_packetization_interval_def c_free_def
      comcerto_norm_def interval_of_def)

theorem comcerto_interval_lookup_witness:
  "\<exists>ps. comcerto_prints comcerto_demo = Inr ps \<and>
     (\<forall>w. w = comcerto_world [FILE_COMCERTO_CONF \<mapsto> concat ps] \<longrightarrow>
        libamg_comcerto_get_codec_packetization_interval 1 w = Inr (20, w\<lparr>allocs := 1\<rparr>) \<and>
        libamg_comcerto_get_codec_packetization_interval 2 w = Inr (40, w\<lparr>allocs := 1\<rparr>))"
proof -
  obtain ps where ps: "comcerto_prints comcerto_demo = Inr ps"
    using comcerto_prints_defined [OF comcerto_demo_ok] by blast
  have v: "to_short (gsm (codecs_intvl comcerto_demo)) = 20" "to_short (g729 (codecs_intvl comcerto_demo)) = 40"
    by (simp_all add: comcerto_demo_def comcerto_empty_def to_short_def intvl_zero_def)
  with comcerto_interval_lookup [OF comcerto_demo_ok ps, of "comcerto_world [FILE_COMCERTO_CONF \<mapsto> concat ps]"] ps v
  show ?thesis by (simp add: comcerto_world_def)
qed

text \<open>Without a readable comcerto.conf the lookup of a packet interval answers 20 (and loses the
  block it allocated for the structure, when it got one), while the readers of the comfort noise flag,
  the VAD flag and the G.723.1 rate, and the function that turns debugging on, dereference a null
  pointer.\<close>

theorem comcerto_without_file:
  assumes "\<not> can_read FILE_COMCERTO_CONF w"
  shows "libamg_comcerto_get_codec_packetization_interval code w =
      Inr (20, if alloc_ok w (allocs w) then w\<lparr>allocs := Suc (allocs w), live := live w + 1\<rparr>
               else w\<lparr>allocs := Suc (allocs w)\<rparr>) \<and>
    libamg_comcerto_get_cng_enable w = Inl Null_Deref \<and>
    libamg_comcerto_get_vad_enable w = Inl Null_Deref \<and>
    libamg_comcerto_get_codec_g723_1_bitrate_name w = Inl Null_Deref \<and>
    libamg_comcerto_set_debugging w = Inl Null_Deref"
  using assms
  by (cases rule: alloc_and_open_cases [of w FILE_COMCERTO_CONF])
    (auto simp: libamg_comcerto_get_codec_packetization_interval_def libamg_comcerto_get_cng_enable_def
      libamg_comcerto_get_vad_enable_def libamg_comcerto_get_codec_g723_1_bitrate_name_def
      libamg_comcerto_set_debugging_def libamg_comcerto_parse_config_def can_read_def)

theorem comcerto_without_file_witness:
  "libamg_comcerto_get_cng_enable (comcerto_world (\<lambda>_. None)) = Inl Null_Deref"
  using comcerto_without_file [of "comcerto_world (\<lambda>_. None)" 1]
  by (simp add: can_read_def comcerto_world_def)

end
