(* ===== verification/Sip.thy ===== *)
theory Sip
  imports Comcerto
begin

text \<open>
  The SIP configuration of src/sip.c and src/sip.h: the structures, the parser and the printer of
  /etc/asterisk/sip.conf, the shortest packet interval of the allowed codecs and the registration
  state read from the output of asterisk. A field that is a character array is the C string it
  holds; the arrays of the session timer mode (16 bytes) and of the refresher (8 bytes) can be
  filled to the last byte by the parser, so the printer's read of them is checked.
\<close>

record libamg_sip_account =
  sip_nat :: int
  qualify :: int
  callerid :: string
  fromuser :: string
  insecure :: string
  username :: string
  secret :: string
  host :: string
  transport :: string
  port :: int
  dtmfmode :: string
  allow :: "int list"

record libamg_sip_config =
  bindport :: int
  tcpenable :: int
  t1min :: int
  timert1 :: int
  timerb :: int
  rtptimeout :: int
  rtpholdtimeout :: int
  rtpkeepalive :: int
  session_timers :: string
  session_expires :: int
  session_minse :: int
  session_refresher :: string
  defaultexpiry :: int
  register_enable :: int
  autoframing :: int
  sip_jb_conf :: libamg_jb_config
  register_username :: string
  register_secret :: string
  register_host :: string
  account :: libamg_sip_account

abbreviation SIP_BUF_SIZE :: nat where "SIP_BUF_SIZE \<equiv> 256"
abbreviation NUM_AVAILABLE_CODECS :: nat where "NUM_AVAILABLE_CODECS \<equiv> 9"
abbreviation sip_delims :: string where "sip_delims \<equiv> [CHR 0x20, CHR 0x09, CHR 0x0A]"

definition FILE_SIP_CONF_NAME :: string where "FILE_SIP_CONF_NAME = ''sip.conf''"
definition FILE_SIP_CONF_PATH :: string where "FILE_SIP_CONF_PATH = ''/etc/asterisk/''"
definition FILE_SIP_CONF :: path where "FILE_SIP_CONF = FILE_SIP_CONF_PATH @ FILE_SIP_CONF_NAME"
definition FILE_SIP_CONF_DEFAULT_PATH :: string where
  "FILE_SIP_CONF_DEFAULT_PATH = ''/etc.ro/asterisk/''"

definition SIP_GENERAL_CONTENT :: string where
  "SIP_GENERAL_CONTENT =
     ''[general]\<newline>context=from-sip\<newline>sdpsession=SIP Call\<newline>sdpowner=ParksSIP-MG\<newline>disallow=all\<newline>srvlookup=yes\<newline>bindaddr=0.0.0.0\<newline>engine=comcerto\<newline>''"

definition SIP_ACCOUNT_CONTENT :: string where
  "SIP_ACCOUNT_CONTENT = ''#include sip_account_custom.conf\<newline>type=friend\<newline>''"

definition SIP_ACCOUNT_NAME :: string where "SIP_ACCOUNT_NAME = ''User1''"
definition SIP_TCP_BINDADDR :: string where "SIP_TCP_BINDADDR = ''tcpbindaddr=0.0.0.0\<newline>''"

definition sip_account_empty :: libamg_sip_account where
  "sip_account_empty = \<lparr>sip_nat = 0, qualify = 0, callerid = [], fromuser = [], insecure = [],
     username = [], secret = [], host = [], transport = [], port = 0, dtmfmode = [],
     allow = replicate NUM_AVAILABLE_CODECS 0\<rparr>"

definition sip_empty :: libamg_sip_config where
  "sip_empty = \<lparr>bindport = 0, tcpenable = 0, t1min = 0, timert1 = 0, timerb = 0, rtptimeout = 0,
     rtpholdtimeout = 0, rtpkeepalive = 0, session_timers = [], session_expires = 0,
     session_minse = 0, session_refresher = [], defaultexpiry = 0, register_enable = 0,
     autoframing = 0, sip_jb_conf = jb_zero, register_username = [], register_secret = [],
     register_host = [], account = sip_account_empty\<rparr>"

subsection \<open>Parsing\<close>

text \<open>
  One round of the dispatch. The state is the structure and the counter \<open>pos_codecs\<close>; the guard of
  the allow lines lets the counter reach the length of the array, and the store is then out of
  bounds.
\<close>

definition sip_allow :: "libamg_sip_config \<times> nat \<Rightarrow> string \<Rightarrow> (libamg_sip_config \<times> nat) outcome" where
  "sip_allow st value =
     (case st of (conf, pos_codecs) \<Rightarrow>
        let acc = account conf in
        if NUM_AVAILABLE_CODECS < pos_codecs then Inr (conf, pos_codecs)
        else if length (allow acc) \<le> pos_codecs then Inl Out_Of_Bounds
        else Inr (conf\<lparr>account := acc\<lparr>allow :=
                    (allow acc)[pos_codecs := libamg_sip_get_codec_code value]\<rparr>\<rparr>, Suc pos_codecs))"

definition sip_set_field :: "bool \<Rightarrow> libamg_sip_config \<Rightarrow> string \<Rightarrow> string \<Rightarrow> libamg_sip_config" where
  "sip_set_field sc conf key value =
     (let jb = sip_jb_conf conf; acc = account conf in
      if key = ''bindport'' then conf\<lparr>bindport := to_ushort (c_atoi value)\<rparr>
      else if key = ''defaultexpiry'' then conf\<lparr>defaultexpiry := c_atoi value\<rparr>
      else if key = ''tcpenable'' then conf\<lparr>tcpenable := streq value ''yes''\<rparr>
      else if key = ''jbenable'' then conf\<lparr>sip_jb_conf := jb\<lparr>jb_enable := streq value ''yes''\<rparr>\<rparr>
      else if key = ''jbmaxsize'' then conf\<lparr>sip_jb_conf := jb\<lparr>jb_maxsize := c_atoi value\<rparr>\<rparr>
      else if key = ''jbimpl'' then conf\<lparr>sip_jb_conf := jb\<lparr>jb_impl := streq value ''adaptive''\<rparr>\<rparr>
      else if key = ''t1min'' then conf\<lparr>t1min := c_atoi value\<rparr>
      else if key = ''timert1'' then conf\<lparr>timert1 := c_atoi value\<rparr>
      else if key = ''timerb'' then conf\<lparr>timerb := c_atoi value\<rparr>
      else if key = ''rtptimeout'' then conf\<lparr>rtptimeout := c_atoi value\<rparr>
      else if key = ''rtpholdtimeout'' then conf\<lparr>rtpholdtimeout := c_atoi value\<rparr>
      else if key = ''rtpkeepalive'' then conf\<lparr>rtpkeepalive := c_atoi value\<rparr>
      else if key = ''session-timers'' then conf\<lparr>session_timers := c_strncpy 16 value\<rparr>
      else if key = ''session-expires'' then conf\<lparr>defaultexpiry := c_atoi value\<rparr>
      else if key = ''session-minse'' then conf\<lparr>defaultexpiry := c_atoi value\<rparr>
      else if key = ''session-refresher'' then conf\<lparr>session_refresher := c_strncpy 8 value\<rparr>
      else if key = ''register'' then conf\<lparr>register_enable := 1\<rparr>
      else if key = '';reg_username'' then conf\<lparr>register_username := c_strncpy 63 value\<rparr>
      else if key = '';reg_secret'' then conf\<lparr>register_secret := c_strncpy 63 value\<rparr>
      else if key = '';reg_host'' then conf\<lparr>register_host := c_strncpy 63 value\<rparr>
      else if key = ''host'' then conf\<lparr>account := acc\<lparr>host := c_strncpy 63 value\<rparr>\<rparr>
      else if key = ''port'' then conf\<lparr>account := acc\<lparr>port := to_ushort (c_atoi value)\<rparr>\<rparr>
      else if key = ''username'' then conf\<lparr>account := acc\<lparr>username := c_strncpy 63 value\<rparr>\<rparr>
      else if key = ''secret'' then conf\<lparr>account := acc\<lparr>secret := c_strncpy 63 value\<rparr>\<rparr>
      else if key = ''dtmfmode'' then conf\<lparr>account := acc\<lparr>dtmfmode := c_strncpy 31 value\<rparr>\<rparr>
      else if key = ''nat'' then conf\<lparr>account := acc\<lparr>sip_nat := streq value ''yes''\<rparr>\<rparr>
      else if key = ''qualify'' then conf\<lparr>account := acc\<lparr>qualify := streq value ''yes''\<rparr>\<rparr>
      else if key = ''insecure'' then conf\<lparr>account := acc\<lparr>insecure := c_strncpy 31 value\<rparr>\<rparr>
      else if key = ''callerid'' then conf\<lparr>account := acc\<lparr>callerid := c_strncpy 63 value\<rparr>\<rparr>
      else if key = ''fromuser'' then
        conf\<lparr>account := acc\<lparr>fromuser := c_strncpy 63 (strip_array sc value)\<rparr>\<rparr>
      else if key = ''transport'' then conf\<lparr>account := acc\<lparr>transport := c_strncpy 7 value\<rparr>\<rparr>
      else conf)"

definition sip_set ::
    "bool \<Rightarrow> libamg_sip_config \<times> nat \<Rightarrow> string \<Rightarrow> string \<Rightarrow> (libamg_sip_config \<times> nat) outcome" where
  "sip_set sc st key value =
     (if key = ''allow'' then sip_allow st value
      else Inr (sip_set_field sc (fst st) key value, snd st))"

definition libamg_sip_parse_config :: "bool \<Rightarrow> world \<Rightarrow> (libamg_sip_config option \<times> world) outcome" where
  "libamg_sip_parse_config sc w =
     (case alloc_and_open FILE_SIP_CONF w of
        (None, w1) \<Rightarrow> Inr (None, w1)
      | (Some content, w1) \<Rightarrow>
          (case conf_read SIP_BUF_SIZE sip_delims (sip_set sc) (sip_empty, 0) content of
             Inl e \<Rightarrow> Inl e
           | Inr (conf, _) \<Rightarrow> Inr (Some conf, f_close w1)))"

subsection \<open>Saving\<close>

text \<open>
  The fields that the save function strips in place before it prints them; none of them is read
  before its own strip.
\<close>

definition sip_strip :: "bool \<Rightarrow> libamg_sip_config \<Rightarrow> libamg_sip_config" where
  "sip_strip sc conf =
     conf\<lparr>register_username := strip_array sc (register_username conf),
          register_secret := strip_array sc (register_secret conf),
          register_host := strip_array sc (register_host conf),
          account := (account conf)\<lparr>host := strip_array sc (host (account conf)),
            username := strip_array sc (username (account conf)),
            secret := strip_array sc (secret (account conf)),
            callerid := strip_array sc (callerid (account conf)),
            fromuser := strip_array sc (fromuser (account conf))\<rparr>\<rparr>"

definition sip_general_prints :: "libamg_sip_config \<Rightarrow> string list" where
  "sip_general_prints conf =
     [SIP_GENERAL_CONTENT,
      conf_line ''useragent'' ''Parks-AMG'',
      conf_line ''bindport'' (fmt_hd (bindport conf)),
      conf_line ''defaultexpiry'' (fmt_hd (defaultexpiry conf)),
      conf_line ''tcpenable'' (yes_no (tcpenable conf)),
      SIP_TCP_BINDADDR,
      conf_line ''jbenable'' ''yes'',
      conf_line ''jbmaxsize'' (fmt_hd (jb_maxsize (sip_jb_conf conf))),
      conf_line ''jbimpl'' (if jb_impl (sip_jb_conf conf) \<noteq> 0 then ''adaptive'' else ''fixed'')]"

definition print_if_set :: "string \<Rightarrow> int \<Rightarrow> string list" where
  "print_if_set k x = (if x \<noteq> 0 then [conf_line k (fmt_hd x)] else [])"

definition print_if_text :: "string \<Rightarrow> string \<Rightarrow> string list" where
  "print_if_text k v = (if length v > 0 then [conf_line k v] else [])"

definition sip_timer_prints :: "libamg_sip_config \<Rightarrow> string list" where
  "sip_timer_prints conf =
     print_if_set ''t1min'' (t1min conf) @ print_if_set ''timert1'' (timert1 conf) @
     print_if_set ''timerb'' (timerb conf) @ print_if_set ''rtptimeout'' (rtptimeout conf) @
     print_if_set ''rtpholdtimeout'' (rtpholdtimeout conf) @
     print_if_set ''rtpkeepalive'' (rtpkeepalive conf)"

text \<open>The tests \<open>if (conf->session_timers)\<close> and \<open>if (conf->session_refresher)\<close> are tests of array
  addresses, which always hold.\<close>

definition sip_session_prints :: "libamg_sip_config \<Rightarrow> string list" where
  "sip_session_prints conf =
     [conf_line ''session-timers'' (session_timers conf)] @
     print_if_set ''session-expires'' (session_expires conf) @
     print_if_set ''session-minse'' (session_minse conf) @
     [conf_line ''session-refresher'' (session_refresher conf),
      conf_line ''autoframing'' (yes_no (autoframing conf))]"

definition sip_register_line :: "libamg_sip_config \<Rightarrow> string" where
  "sip_register_line conf =
     ''register=>'' @ transport (account conf) @ ''://'' @ register_username conf @ '':'' @
     register_secret conf @ ''@'' @ register_host conf @ '':'' @ fmt_hd (port (account conf)) @ ''/'' @
     SIP_ACCOUNT_NAME @ [LF]"

definition sip_register_prints :: "libamg_sip_config \<Rightarrow> string list" where
  "sip_register_prints conf =
     [conf_line '';reg_username'' (register_username conf),
      conf_line '';reg_secret'' (register_secret conf),
      conf_line '';reg_host'' (register_host conf)] @
     (if register_enable conf \<noteq> 0 \<and> length (register_username conf) \<noteq> 0 \<and>
         length (register_secret conf) \<noteq> 0 \<and> length (register_host conf) \<noteq> 0
      then [sip_register_line conf] else [])"

definition sip_account_prints :: "libamg_sip_account \<Rightarrow> string list" where
  "sip_account_prints acc =
     [''\<newline>['' @ SIP_ACCOUNT_NAME @ '']\<newline>'', SIP_ACCOUNT_CONTENT] @
     print_if_text ''host'' (host acc) @
     [conf_line ''port'' (fmt_hd (port acc))] @
     print_if_text ''username'' (username acc) @ print_if_text ''secret'' (secret acc) @
     [conf_line ''dtmfmode'' (dtmfmode acc)] @
     print_if_text ''callerid'' (callerid acc) @ print_if_text ''fromuser'' (fromuser acc) @
     [conf_line ''nat'' (yes_no (sip_nat acc)), conf_line ''qualify'' (yes_no (qualify acc))] @
     print_if_text ''insecure'' (insecure acc) @ print_if_text ''transport'' (transport acc)"

text \<open>
  The loop over the codecs: each allowed codec is printed with the packet interval that
  comcerto.conf holds for it at that moment; a positive code without a name would hand NULL to
  \<open>fprintf\<close>.
\<close>

fun sip_print_allow :: "int list \<Rightarrow> world \<Rightarrow> world outcome" where
  "sip_print_allow [] w = Inr w"
| "sip_print_allow (c # cs) w =
     (if c \<le> 0 then sip_print_allow cs w
      else case libamg_comcerto_get_codec_packetization_interval c w of
          Inl e \<Rightarrow> Inl e
        | Inr (intvl, w1) \<Rightarrow>
            (case libamg_sip_get_codec_name c of
               None \<Rightarrow> Inl Null_Deref
             | Some nm \<Rightarrow>
                 sip_print_allow cs
                   (f_print FILE_SIP_CONF (conf_line ''allow'' (nm @ '':'' @ fmt_d intvl)) w1)))"

definition libamg_sip_save_config ::
    "bool \<Rightarrow> libamg_sip_config \<Rightarrow> world \<Rightarrow> (int \<times> libamg_sip_config \<times> world) outcome" where
  "libamg_sip_save_config sc conf w =
     (case fopen_w FILE_SIP_CONF w of
        (False, w1) \<Rightarrow> Inr (- 1, conf, w1)
      | (True, w1) \<Rightarrow>
          (if 16 \<le> length (session_timers conf) \<or> 8 \<le> length (session_refresher conf)
           then Inl Unterminated
           else
             let conf' = sip_strip sc conf;
                 w2 = f_prints FILE_SIP_CONF
                        (sip_general_prints conf' @ sip_timer_prints conf' @ sip_session_prints conf' @
                         sip_register_prints conf' @ sip_account_prints (account conf')) w1
             in case sip_print_allow (allow (account conf')) w2 of
                  Inl e \<Rightarrow> Inl e
                | Inr w3 \<Rightarrow> Inr (0, conf', f_close w3)))"

definition libamg_sip_flash_save_config :: "world \<Rightarrow> world" where
  "libamg_sip_flash_save_config w =
     run_cmds [''if [ ! -d /mnt/config/asterisk ]; then mkdir /mnt/config/asterisk; fi'',
               ''cp '' @ FILE_SIP_CONF @ '' /mnt/config/asterisk''] w"

definition libamg_sip_reset_config :: "world \<Rightarrow> int \<times> world" where
  "libamg_sip_reset_config w =
     c_system (c_snprintf SIP_BUF_SIZE
       (''cp '' @ FILE_SIP_CONF_DEFAULT_PATH @ FILE_SIP_CONF_NAME @ '' '' @ FILE_SIP_CONF_PATH)) w"

subsection \<open>Reading back\<close>

interpretation sip: conf_reader SIP_BUF_SIZE sip_delims "sip_set sc" for sc
  by unfold_locales (auto simp: c_isdigit_def)

lemma sip_set_key:
  "sip_set_field sc c ''bindport'' v = c\<lparr>bindport := to_ushort (c_atoi v)\<rparr>"
  "sip_set_field sc c ''defaultexpiry'' v = c\<lparr>defaultexpiry := c_atoi v\<rparr>"
  "sip_set_field sc c ''tcpenable'' v = c\<lparr>tcpenable := streq v ''yes''\<rparr>"
  "sip_set_field sc c ''jbenable'' v = c\<lparr>sip_jb_conf := (sip_jb_conf c)\<lparr>jb_enable := streq v ''yes''\<rparr>\<rparr>"
  "sip_set_field sc c ''jbmaxsize'' v = c\<lparr>sip_jb_conf := (sip_jb_conf c)\<lparr>jb_maxsize := c_atoi v\<rparr>\<rparr>"
  "sip_set_field sc c ''jbimpl'' v = c\<lparr>sip_jb_conf := (sip_jb_conf c)\<lparr>jb_impl := streq v ''adaptive''\<rparr>\<rparr>"
  "sip_set_field sc c ''t1min'' v = c\<lparr>t1min := c_atoi v\<rparr>"
  "sip_set_field sc c ''timert1'' v = c\<lparr>timert1 := c_atoi v\<rparr>"
  "sip_set_field sc c ''timerb'' v = c\<lparr>timerb := c_atoi v\<rparr>"
  "sip_set_field sc c ''rtptimeout'' v = c\<lparr>rtptimeout := c_atoi v\<rparr>"
  "sip_set_field sc c ''rtpholdtimeout'' v = c\<lparr>rtpholdtimeout := c_atoi v\<rparr>"
  "sip_set_field sc c ''rtpkeepalive'' v = c\<lparr>rtpkeepalive := c_atoi v\<rparr>"
  by (simp_all add: sip_set_field_def Let_def)

lemma sip_set_session_key:
  "sip_set_field sc c ''session-timers'' v = c\<lparr>session_timers := c_strncpy 16 v\<rparr>"
  "sip_set_field sc c ''session-expires'' v = c\<lparr>defaultexpiry := c_atoi v\<rparr>"
  "sip_set_field sc c ''session-minse'' v = c\<lparr>defaultexpiry := c_atoi v\<rparr>"
  "sip_set_field sc c ''session-refresher'' v = c\<lparr>session_refresher := c_strncpy 8 v\<rparr>"
  "sip_set_field sc c ''autoframing'' v = c"
  "sip_set_field sc c ''register'' v = c\<lparr>register_enable := 1\<rparr>"
  "sip_set_field sc c '';reg_username'' v = c\<lparr>register_username := c_strncpy 63 v\<rparr>"
  "sip_set_field sc c '';reg_secret'' v = c\<lparr>register_secret := c_strncpy 63 v\<rparr>"
  "sip_set_field sc c '';reg_host'' v = c\<lparr>register_host := c_strncpy 63 v\<rparr>"
  by (simp_all add: sip_set_field_def Let_def)

lemma sip_set_account_key:
  "sip_set_field sc c ''host'' v = c\<lparr>account := (account c)\<lparr>host := c_strncpy 63 v\<rparr>\<rparr>"
  "sip_set_field sc c ''port'' v = c\<lparr>account := (account c)\<lparr>port := to_ushort (c_atoi v)\<rparr>\<rparr>"
  "sip_set_field sc c ''username'' v = c\<lparr>account := (account c)\<lparr>username := c_strncpy 63 v\<rparr>\<rparr>"
  "sip_set_field sc c ''secret'' v = c\<lparr>account := (account c)\<lparr>secret := c_strncpy 63 v\<rparr>\<rparr>"
  "sip_set_field sc c ''dtmfmode'' v = c\<lparr>account := (account c)\<lparr>dtmfmode := c_strncpy 31 v\<rparr>\<rparr>"
  "sip_set_field sc c ''nat'' v = c\<lparr>account := (account c)\<lparr>sip_nat := streq v ''yes''\<rparr>\<rparr>"
  "sip_set_field sc c ''qualify'' v = c\<lparr>account := (account c)\<lparr>qualify := streq v ''yes''\<rparr>\<rparr>"
  "sip_set_field sc c ''insecure'' v = c\<lparr>account := (account c)\<lparr>insecure := c_strncpy 31 v\<rparr>\<rparr>"
  "sip_set_field sc c ''callerid'' v = c\<lparr>account := (account c)\<lparr>callerid := c_strncpy 63 v\<rparr>\<rparr>"
  "sip_set_field sc c ''fromuser'' v =
     c\<lparr>account := (account c)\<lparr>fromuser := c_strncpy 63 (strip_array sc v)\<rparr>\<rparr>"
  "sip_set_field sc c ''transport'' v = c\<lparr>account := (account c)\<lparr>transport := c_strncpy 7 v\<rparr>\<rparr>"
  by (simp_all add: sip_set_field_def Let_def)

lemma sip_set_other_key:
  "sip_set_field sc c ''context'' v = c" "sip_set_field sc c ''sdpsession'' v = c"
  "sip_set_field sc c ''sdpowner'' v = c" "sip_set_field sc c ''disallow'' v = c"
  "sip_set_field sc c ''srvlookup'' v = c" "sip_set_field sc c ''bindaddr'' v = c"
  "sip_set_field sc c ''engine'' v = c" "sip_set_field sc c ''useragent'' v = c"
  "sip_set_field sc c ''tcpbindaddr'' v = c" "sip_set_field sc c ''type'' v = c"
  by (simp_all add: sip_set_field_def Let_def)

lemmas sip_set_keys = sip_set_key sip_set_session_key sip_set_account_key sip_set_other_key

lemma sip_set_not_allow:
  "k \<noteq> ''allow'' \<Longrightarrow> sip_set sc (c, p) k v = Inr (sip_set_field sc c k v, p)"
  by (simp add: sip_set_def)

text \<open>One printed line, in the three shapes that the printer has.\<close>

abbreviation sip_step :: "bool \<Rightarrow> libamg_sip_config \<times> nat \<Rightarrow> string \<Rightarrow> (libamg_sip_config \<times> nat) outcome" where
  "sip_step sc \<equiv> conf_step sip_delims (sip_set sc)"

lemma sip_step_short:
  "plain_key k \<Longrightarrow> k \<noteq> ''allow'' \<Longrightarrow>
     sip_step sc (c, p) (conf_line k (fmt_hd x)) = Inr (sip_set_field sc c k (fmt_hd x), p)"
  by (simp add: sip.step_short sip_set_not_allow)

lemma sip_step_word:
  "plain_key k \<Longrightarrow> k \<noteq> ''allow'' \<Longrightarrow> plain_value sip_delims v \<Longrightarrow>
     sip_step sc (c, p) (conf_line k v) = Inr (sip_set_field sc c k v, p)"
  by (simp add: sip.step_line sip_set_not_allow)

lemma sip_step_text:
  "plain_key k \<Longrightarrow> k \<noteq> ''allow'' \<Longrightarrow> NUL \<notin> set v \<Longrightarrow>
     sip_step sc (c, p) (conf_line k v) = Inr (sip_set_field sc c k (crop sip_delims (v @ [LF])), p)"
  by (simp add: sip.step_value sip_set_not_allow)

lemma sip_steps_if_set:
  "plain_key k \<Longrightarrow> k \<noteq> ''allow'' \<Longrightarrow>
     run_steps (sip_step sc) (c, p) (print_if_set k x) =
       Inr (if x \<noteq> 0 then sip_set_field sc c k (fmt_hd x) else c, p)"
  by (simp add: print_if_set_def sip_step_short)

lemma sip_steps_if_text:
  "plain_key k \<Longrightarrow> k \<noteq> ''allow'' \<Longrightarrow> NUL \<notin> set v \<Longrightarrow>
     run_steps (sip_step sc) (c, p) (print_if_text k v) =
       Inr (if v \<noteq> [] then sip_set_field sc c k (crop sip_delims (v @ [LF])) else c, p)"
  by (simp add: print_if_text_def sip_step_text)

lemma run_steps_single: "run_steps f c [x] = f c x"
  by (simp split: sum.split)

lemma sip_ignored_lines:
  "sip_step sc (c, p) ''[general]\<newline>'' = Inr (c, p)"
  "sip_step sc (c, p) ''\<newline>'' = Inr (c, p)"
  "sip_step sc (c, p) ''[User1]\<newline>'' = Inr (c, p)"
  "sip_step sc (c, p) ''#include sip_account_custom.conf\<newline>'' = Inr (c, p)"
  by (rule sip.step_plain; simp)+

text \<open>The fixed parts of the text, line by line.\<close>

definition sip_general_lines :: "string list" where
  "sip_general_lines =
     [''[general]\<newline>'', conf_line ''context'' ''from-sip'', conf_line ''sdpsession'' ''SIP Call'',
      conf_line ''sdpowner'' ''ParksSIP-MG'', conf_line ''disallow'' ''all'', conf_line ''srvlookup'' ''yes'',
      conf_line ''bindaddr'' ''0.0.0.0'', conf_line ''engine'' ''comcerto'']"

definition sip_account_lines :: "string list" where
  "sip_account_lines =
     [''\<newline>'', ''[User1]\<newline>'', ''#include sip_account_custom.conf\<newline>'', conf_line ''type'' ''friend'']"

lemma sip_fixed_text:
  "SIP_GENERAL_CONTENT = concat sip_general_lines"
  "SIP_TCP_BINDADDR = conf_line ''tcpbindaddr'' ''0.0.0.0''"
  "(''\<newline>['' @ SIP_ACCOUNT_NAME @ '']\<newline>'') @ SIP_ACCOUNT_CONTENT = concat sip_account_lines"
  by (simp_all add: SIP_GENERAL_CONTENT_def sip_general_lines_def SIP_TCP_BINDADDR_def
      SIP_ACCOUNT_CONTENT_def SIP_ACCOUNT_NAME_def sip_account_lines_def conf_line_def)

lemma sip_fixed_read:
  "run_steps (sip_step sc) (c, p) sip_general_lines = Inr (c, p)"
  "run_steps (sip_step sc) (c, p) sip_account_lines = Inr (c, p)"
  by (simp_all add: sip_general_lines_def sip_account_lines_def sip_ignored_lines sip_step_text
      plain_key_simps sip_set_keys)

text \<open>What a text field becomes when its line is read into an array that keeps \<open>n\<close> bytes.\<close>

definition reread :: "nat \<Rightarrow> string \<Rightarrow> string" where
  "reread n v = c_strncpy n (crop sip_delims (v @ [LF]))"

definition reread_opt :: "nat \<Rightarrow> string \<Rightarrow> string" where
  "reread_opt n v = (if v = [] then [] else reread n v)"

definition allow_norm :: "int list \<Rightarrow> int list" where
  "allow_norm cs = take NUM_AVAILABLE_CODECS (filter (\<lambda>c. 0 < c) cs @ replicate NUM_AVAILABLE_CODECS 0)"

definition sip_account_norm :: "bool \<Rightarrow> libamg_sip_account \<Rightarrow> libamg_sip_account" where
  "sip_account_norm sc a =
     \<lparr>sip_nat = flag (sip_nat a), qualify = flag (qualify a), callerid = reread_opt 63 (callerid a),
      fromuser = (if fromuser a = [] then []
                  else c_strncpy 63 (strip_array sc (crop sip_delims (fromuser a @ [LF])))),
      insecure = reread_opt 31 (insecure a), username = reread_opt 63 (username a),
      secret = reread_opt 63 (secret a), host = reread_opt 63 (host a),
      transport = reread_opt 7 (transport a), port = to_ushort (to_short (port a)),
      dtmfmode = reread 31 (dtmfmode a), allow = allow_norm (allow a)\<rparr>"

text \<open>The expiry and the refresh minimum of the session timers overwrite the default expiry.\<close>

definition sip_expiry_norm :: "libamg_sip_config \<Rightarrow> int" where
  "sip_expiry_norm c =
     (if session_minse c \<noteq> 0 then to_short (session_minse c)
      else if session_expires c \<noteq> 0 then to_short (session_expires c)
      else to_short (defaultexpiry c))"

definition sip_registers :: "libamg_sip_config \<Rightarrow> bool" where
  "sip_registers c \<longleftrightarrow> register_enable c \<noteq> 0 \<and> register_username c \<noteq> [] \<and>
     register_secret c \<noteq> [] \<and> register_host c \<noteq> []"

definition sip_norm :: "bool \<Rightarrow> libamg_sip_config \<Rightarrow> libamg_sip_config" where
  "sip_norm sc c =
     \<lparr>bindport = to_ushort (to_short (bindport c)), tcpenable = flag (tcpenable c),
      t1min = to_short (t1min c), timert1 = to_short (timert1 c), timerb = to_short (timerb c),
      rtptimeout = to_short (rtptimeout c), rtpholdtimeout = to_short (rtpholdtimeout c),
      rtpkeepalive = to_short (rtpkeepalive c), session_timers = reread 16 (session_timers c),
      session_expires = 0, session_minse = 0, session_refresher = reread 8 (session_refresher c),
      defaultexpiry = sip_expiry_norm c, register_enable = (if sip_registers c then 1 else 0),
      autoframing = 0,
      sip_jb_conf = jb_zero\<lparr>jb_enable := 1, jb_maxsize := to_short (jb_maxsize (sip_jb_conf c)),
        jb_impl := flag (jb_impl (sip_jb_conf c))\<rparr>,
      register_username = reread 63 (register_username c),
      register_secret = reread 63 (register_secret c),
      register_host = reread 63 (register_host c),
      account = sip_account_norm sc (account c)\<rparr>"

text \<open>The texts that the printed lines can carry: C strings without line feeds that fit their arrays.\<close>

definition field_ok :: "nat \<Rightarrow> string \<Rightarrow> bool" where
  "field_ok n v \<longleftrightarrow> length v \<le> n \<and> NUL \<notin> set v \<and> LF \<notin> set v"

definition sip_account_ok :: "libamg_sip_account \<Rightarrow> bool" where
  "sip_account_ok a \<longleftrightarrow> field_ok 63 (callerid a) \<and> field_ok 63 (fromuser a) \<and> field_ok 31 (insecure a) \<and>
     field_ok 63 (username a) \<and> field_ok 63 (secret a) \<and> field_ok 63 (host a) \<and>
     field_ok 7 (transport a) \<and> field_ok 31 (dtmfmode a) \<and>
     length (allow a) = NUM_AVAILABLE_CODECS \<and> (\<forall>c \<in> set (allow a). c \<le> 0 \<or> c \<in> set codec_codes)"

definition sip_ok :: "libamg_sip_config \<Rightarrow> bool" where
  "sip_ok c \<longleftrightarrow> field_ok 15 (session_timers c) \<and> field_ok 7 (session_refresher c) \<and>
     field_ok 63 (register_username c) \<and> field_ok 63 (register_secret c) \<and>
     field_ok 63 (register_host c) \<and> sip_account_ok (account c)"

lemma to_short_0 [simp]: "to_short 0 = 0"
  by (simp add: to_short_def)

lemma sip_set_if_timer:
  "t1min d = 0 \<Longrightarrow> (if x \<noteq> 0 then sip_set_field sc d ''t1min'' (fmt_hd x) else d) =
     d\<lparr>t1min := to_short x\<rparr>"
  "timert1 d = 0 \<Longrightarrow> (if x \<noteq> 0 then sip_set_field sc d ''timert1'' (fmt_hd x) else d) =
     d\<lparr>timert1 := to_short x\<rparr>"
  "timerb d = 0 \<Longrightarrow> (if x \<noteq> 0 then sip_set_field sc d ''timerb'' (fmt_hd x) else d) =
     d\<lparr>timerb := to_short x\<rparr>"
  "rtptimeout d = 0 \<Longrightarrow> (if x \<noteq> 0 then sip_set_field sc d ''rtptimeout'' (fmt_hd x) else d) =
     d\<lparr>rtptimeout := to_short x\<rparr>"
  "rtpholdtimeout d = 0 \<Longrightarrow> (if x \<noteq> 0 then sip_set_field sc d ''rtpholdtimeout'' (fmt_hd x) else d) =
     d\<lparr>rtpholdtimeout := to_short x\<rparr>"
  "rtpkeepalive d = 0 \<Longrightarrow> (if x \<noteq> 0 then sip_set_field sc d ''rtpkeepalive'' (fmt_hd x) else d) =
     d\<lparr>rtpkeepalive := to_short x\<rparr>"
  by (simp_all add: sip_set_keys)

lemmas sip_read_simps =
  run_steps_append sip_steps_if_set sip_steps_if_text sip_step_short sip_step_word sip_step_text
  sip_fixed_read plain_key_simps comcerto_words comcerto_choices streq_simps sip_set_keys

lemma sip_general_read:
  "run_steps (sip_step sc) (d, p) (sip_general_lines @ tl (sip_general_prints c)) =
     Inr (d\<lparr>bindport := to_ushort (to_short (bindport c)), defaultexpiry := to_short (defaultexpiry c),
            tcpenable := flag (tcpenable c),
            sip_jb_conf := (sip_jb_conf d)\<lparr>jb_enable := 1, jb_maxsize := to_short (jb_maxsize (sip_jb_conf c)),
              jb_impl := flag (jb_impl (sip_jb_conf c))\<rparr>\<rparr>, p)"
  by (simp add: sip_general_prints_def sip_fixed_text sip_read_simps split del: if_split)

lemma sip_timer_read:
  assumes "t1min d = 0" "timert1 d = 0" "timerb d = 0" "rtptimeout d = 0" "rtpholdtimeout d = 0"
    "rtpkeepalive d = 0"
  shows "run_steps (sip_step sc) (d, p) (sip_timer_prints c) =
     Inr (d\<lparr>t1min := to_short (t1min c), timert1 := to_short (timert1 c), timerb := to_short (timerb c),
            rtptimeout := to_short (rtptimeout c), rtpholdtimeout := to_short (rtpholdtimeout c),
            rtpkeepalive := to_short (rtpkeepalive c)\<rparr>, p)"
  using assms
  by (simp add: sip_timer_prints_def sip_read_simps sip_set_if_timer split del: if_split)

lemma sip_session_read:
  assumes "field_ok 15 (session_timers c)" "field_ok 7 (session_refresher c)"
    "defaultexpiry d = to_short (defaultexpiry c)"
  shows "run_steps (sip_step sc) (d, p) (sip_session_prints c) =
     Inr (d\<lparr>session_timers := reread 16 (session_timers c),
            session_refresher := reread 8 (session_refresher c),
            defaultexpiry := sip_expiry_norm c\<rparr>, p)"
  using assms
  by (simp add: sip_session_prints_def sip_read_simps field_ok_def reread_def sip_expiry_norm_def)

lemma sip_register_line_conf:
  "sip_register_line c = conf_line ''register'' (''>'' @ transport (account c) @ ''://'' @
     register_username c @ '':'' @ register_secret c @ ''@'' @ register_host c @ '':'' @
     fmt_hd (port (account c)) @ ''/User1'')"
  by (simp add: sip_register_line_def conf_line_def SIP_ACCOUNT_NAME_def)

lemma fmt_no_NUL [conf_simps]: "NUL \<notin> set (fmt_d x)" "NUL \<notin> set (fmt_hd x)"
  using fmt_d_chars [of NUL] by (auto simp: fmt_hd_def c_isdigit_def)

lemma sip_register_read:
  assumes "field_ok 63 (register_username c)" "field_ok 63 (register_secret c)"
    "field_ok 63 (register_host c)" "field_ok 7 (transport (account c))" "register_enable d = 0"
  shows "run_steps (sip_step sc) (d, p) (sip_register_prints c) =
     Inr (d\<lparr>register_username := reread 63 (register_username c),
            register_secret := reread 63 (register_secret c),
            register_host := reread 63 (register_host c),
            register_enable := (if sip_registers c then 1 else 0)\<rparr>, p)"
proof -
  let ?three = "[conf_line '';reg_username'' (register_username c),
      conf_line '';reg_secret'' (register_secret c), conf_line '';reg_host'' (register_host c)]"
  let ?d = "d\<lparr>register_username := reread 63 (register_username c),
            register_secret := reread 63 (register_secret c), register_host := reread 63 (register_host c)\<rparr>"
  have three: "run_steps (sip_step sc) (d, p) ?three = Inr (?d, p)"
    using assms by (simp add: sip_read_simps field_ok_def reread_def)
  have line: "sip_step sc (?d, p) (sip_register_line c) = Inr (?d\<lparr>register_enable := 1\<rparr>, p)"
    unfolding sip_register_line_conf using assms
    by (subst sip_step_text) (simp_all add: plain_key_simps field_ok_def conf_simps sip_set_session_key)
  have "?d = ?d\<lparr>register_enable := 0\<rparr>" using assms(5) by simp
  moreover have "sip_register_prints c = ?three @ (if sip_registers c then [sip_register_line c] else [])"
    by (simp add: sip_register_prints_def sip_registers_def)
  then have "run_steps (sip_step sc) (d, p) (sip_register_prints c) =
      run_steps (sip_step sc) (?d, p) (if sip_registers c then [sip_register_line c] else [])"
    by (simp only: run_steps_append three sum.case)
  ultimately show ?thesis using line by (cases "sip_registers c") (simp_all add: run_steps_single)
qed

lemma sip_set_if_text:
  "host (account d) = [] \<Longrightarrow>
     (if v \<noteq> [] then sip_set_field sc d ''host'' (crop sip_delims (v @ [LF])) else d) =
       d\<lparr>account := (account d)\<lparr>host := reread_opt 63 v\<rparr>\<rparr>"
  "username (account d) = [] \<Longrightarrow>
     (if v \<noteq> [] then sip_set_field sc d ''username'' (crop sip_delims (v @ [LF])) else d) =
       d\<lparr>account := (account d)\<lparr>username := reread_opt 63 v\<rparr>\<rparr>"
  "secret (account d) = [] \<Longrightarrow>
     (if v \<noteq> [] then sip_set_field sc d ''secret'' (crop sip_delims (v @ [LF])) else d) =
       d\<lparr>account := (account d)\<lparr>secret := reread_opt 63 v\<rparr>\<rparr>"
  "callerid (account d) = [] \<Longrightarrow>
     (if v \<noteq> [] then sip_set_field sc d ''callerid'' (crop sip_delims (v @ [LF])) else d) =
       d\<lparr>account := (account d)\<lparr>callerid := reread_opt 63 v\<rparr>\<rparr>"
  "insecure (account d) = [] \<Longrightarrow>
     (if v \<noteq> [] then sip_set_field sc d ''insecure'' (crop sip_delims (v @ [LF])) else d) =
       d\<lparr>account := (account d)\<lparr>insecure := reread_opt 31 v\<rparr>\<rparr>"
  "transport (account d) = [] \<Longrightarrow>
     (if v \<noteq> [] then sip_set_field sc d ''transport'' (crop sip_delims (v @ [LF])) else d) =
       d\<lparr>account := (account d)\<lparr>transport := reread_opt 7 v\<rparr>\<rparr>"
  "fromuser (account d) = [] \<Longrightarrow>
     (if v \<noteq> [] then sip_set_field sc d ''fromuser'' (crop sip_delims (v @ [LF])) else d) =
       d\<lparr>account := (account d)\<lparr>fromuser :=
         if v = [] then [] else c_strncpy 63 (strip_array sc (crop sip_delims (v @ [LF])))\<rparr>\<rparr>"
  by (simp_all add: sip_set_keys reread_opt_def reread_def)

lemma sip_account_read:
  assumes "sip_account_ok a" and "account d = sip_account_empty"
  shows "run_steps (sip_step sc) (d, p) (sip_account_lines @ drop 2 (sip_account_prints a)) =
     Inr (d\<lparr>account := (sip_account_norm sc a)\<lparr>allow := replicate NUM_AVAILABLE_CODECS 0\<rparr>\<rparr>, p)"
  using assms
  by (simp add: sip_account_prints_def sip_account_ok_def field_ok_def sip_read_simps sip_set_if_text
      sip_account_empty_def sip_account_norm_def reread_def split del: if_split)

subsection \<open>The allow lines\<close>

definition allow_line :: "int \<Rightarrow> int \<Rightarrow> string" where
  "allow_line c i = conf_line ''allow'' (the (libamg_sip_get_codec_name c) @ '':'' @ fmt_d i)"

lemma codec_name_shape:
  assumes "c \<in> set codec_codes"
  obtains n where "libamg_sip_get_codec_name c = Some n" "plain_value sip_delims n"
    "LF \<notin> set n" "NUL \<notin> set n" "length n \<le> 7"
  using assms that
  by (auto simp: codec_codes_def libamg_sip_get_codec_name_def plain_value_def)

lemma allow_line_is_line:
  assumes "c \<in> set codec_codes" and "int32 i"
  shows "is_line SIP_BUF_SIZE (allow_line c i)"
proof (rule codec_name_shape [OF assms(1)])
  fix n assume n: "libamg_sip_get_codec_name c = Some n" "LF \<notin> set n" "length n \<le> 7"
  show ?thesis unfolding allow_line_def n(1)
    using n fmt_d_length [OF assms(2)]
    by (auto intro!: conf_line_is_line simp: conf_simps)
qed

lemma sip_allow_step:
  assumes "c \<in> set codec_codes" and "p < length (allow (account d))"
    and "length (allow (account d)) = NUM_AVAILABLE_CODECS"
  shows "sip_step sc (d, p) (allow_line c i) =
    Inr (d\<lparr>account := (account d)\<lparr>allow := (allow (account d))[p := c]\<rparr>\<rparr>, Suc p)"
proof (rule codec_name_shape [OF assms(1)])
  fix n assume n: "libamg_sip_get_codec_name c = Some n" "plain_value sip_delims n"
  have "plain_value sip_delims (n @ '':'' @ fmt_d i)"
    using n(2) fmt_d_chars [of _ i] by (fastforce simp: plain_value_def c_isdigit_def)
  then have "sip_step sc (d, p) (allow_line c i) = sip_set sc (d, p) ''allow'' (n @ '':'' @ fmt_d i)"
    unfolding allow_line_def n(1) by (simp add: sip.step_line plain_key_simps)
  then show ?thesis
    using assms(2,3) codec_code_printed [OF n(1), of "fmt_d i"]
    by (simp add: sip_set_def sip_allow_def Let_def)
qed

lemma sip_allow_read:
  "length is = length cs \<Longrightarrow> set cs \<subseteq> set codec_codes \<Longrightarrow> p + length cs \<le> NUM_AVAILABLE_CODECS \<Longrightarrow>
   length (allow (account d)) = NUM_AVAILABLE_CODECS \<Longrightarrow>
   run_steps (sip_step sc) (d, p) (map2 allow_line cs is) =
     Inr (d\<lparr>account := (account d)\<lparr>allow :=
        take p (allow (account d)) @ cs @ drop (p + length cs) (allow (account d))\<rparr>\<rparr>, p + length cs)"
proof (induction cs arbitrary: "is" p d)
  case Nil
  then show ?case by simp
next
  case (Cons c cs)
  obtain i js where "is": "is = i # js" using Cons.prems(1) by (cases "is") auto
  let ?al = "allow (account d)"
  have p: "p < length ?al" using Cons.prems by simp
  have "take (Suc p) (?al[p := c]) = take p ?al @ [c]" using p by (simp add: take_Suc_conv_app_nth)
  moreover have "drop (Suc (p + length cs)) (?al[p := c]) = drop (Suc (p + length cs)) ?al" by simp
  ultimately show ?case
    using Cons p unfolding "is" by (simp add: sip_allow_step)
qed

subsection \<open>The whole text\<close>

definition sip_text_lines :: "libamg_sip_config \<Rightarrow> string list" where
  "sip_text_lines c =
     (sip_general_lines @ tl (sip_general_prints c)) @ sip_timer_prints c @ sip_session_prints c @
     sip_register_prints c @ (sip_account_lines @ drop 2 (sip_account_prints (account c)))"

lemma sip_text_concat:
  "concat (sip_general_prints c @ sip_timer_prints c @ sip_session_prints c @
     sip_register_prints c @ sip_account_prints (account c)) = concat (sip_text_lines c)"
proof -
  have "sip_general_prints c = SIP_GENERAL_CONTENT # tl (sip_general_prints c)"
    by (simp add: sip_general_prints_def)
  then have g: "concat (sip_general_prints c) = concat (sip_general_lines @ tl (sip_general_prints c))"
    by (metis concat.simps(2) concat_append sip_fixed_text(1))
  have "sip_account_prints (account c) =
      (''\<newline>['' @ SIP_ACCOUNT_NAME @ '']\<newline>'') # SIP_ACCOUNT_CONTENT # drop 2 (sip_account_prints (account c))"
    by (simp add: sip_account_prints_def)
  then have "concat (sip_account_prints (account c)) =
      concat (sip_account_lines @ drop 2 (sip_account_prints (account c)))"
    by (metis append.assoc concat.simps(2) concat_append sip_fixed_text(3))
  with g show ?thesis by (simp add: sip_text_lines_def)
qed

lemma sip_text_read:
  assumes "sip_ok c"
  shows "run_steps (sip_step sc) (sip_empty, 0) (sip_text_lines c) =
    Inr ((sip_norm sc c)\<lparr>account := (sip_account_norm sc (account c))
           \<lparr>allow := replicate NUM_AVAILABLE_CODECS 0\<rparr>\<rparr>, 0)"
proof -
  let ?d1 = "sip_empty\<lparr>bindport := to_ushort (to_short (bindport c)),
     defaultexpiry := to_short (defaultexpiry c), tcpenable := flag (tcpenable c),
     sip_jb_conf := (sip_jb_conf sip_empty)\<lparr>jb_enable := 1,
       jb_maxsize := to_short (jb_maxsize (sip_jb_conf c)), jb_impl := flag (jb_impl (sip_jb_conf c))\<rparr>\<rparr>"
  let ?d2 = "?d1\<lparr>t1min := to_short (t1min c), timert1 := to_short (timert1 c),
     timerb := to_short (timerb c), rtptimeout := to_short (rtptimeout c),
     rtpholdtimeout := to_short (rtpholdtimeout c), rtpkeepalive := to_short (rtpkeepalive c)\<rparr>"
  let ?d3 = "?d2\<lparr>session_timers := reread 16 (session_timers c),
     session_refresher := reread 8 (session_refresher c), defaultexpiry := sip_expiry_norm c\<rparr>"
  let ?d4 = "?d3\<lparr>register_username := reread 63 (register_username c),
     register_secret := reread 63 (register_secret c), register_host := reread 63 (register_host c),
     register_enable := (if sip_registers c then 1 else 0)\<rparr>"
  let ?d5 = "?d4\<lparr>account := (sip_account_norm sc (account c))
     \<lparr>allow := replicate NUM_AVAILABLE_CODECS 0\<rparr>\<rparr>"
  have 1: "run_steps (sip_step sc) (sip_empty, 0) (sip_general_lines @ tl (sip_general_prints c)) = Inr (?d1, 0)"
    by (rule sip_general_read)
  have 2: "run_steps (sip_step sc) (?d1, 0) (sip_timer_prints c) = Inr (?d2, 0)"
    by (rule sip_timer_read) (simp_all add: sip_empty_def)
  have 3: "run_steps (sip_step sc) (?d2, 0) (sip_session_prints c) = Inr (?d3, 0)"
    using assms by (intro sip_session_read) (simp_all add: sip_ok_def)
  have 4: "run_steps (sip_step sc) (?d3, 0) (sip_register_prints c) = Inr (?d4, 0)"
    using assms by (intro sip_register_read) (simp_all add: sip_ok_def sip_account_ok_def sip_empty_def)
  have 5: "run_steps (sip_step sc) (?d4, 0) (sip_account_lines @ drop 2 (sip_account_prints (account c))) =
      Inr (?d5, 0)"
    using assms by (intro sip_account_read) (simp_all add: sip_ok_def sip_empty_def)
  have "run_steps (sip_step sc) (sip_empty, 0) (sip_text_lines c) = Inr (?d5, 0)"
    unfolding sip_text_lines_def by (simp only: run_steps_append [of _ _ "_ @ _"] run_steps_append 1 [unfolded run_steps_append] 2 3 4 5 [unfolded run_steps_append] sum.case)
  also have "?d5 = (sip_norm sc c)\<lparr>account := (sip_account_norm sc (account c))
           \<lparr>allow := replicate NUM_AVAILABLE_CODECS 0\<rparr>\<rparr>"
    by (simp add: sip_norm_def sip_empty_def)
  finally show ?thesis .
qed

text \<open>Every line of the text fits the buffer of the parser; the longest is the registration.\<close>

lemma short_line: "plain_key k \<Longrightarrow> length k \<le> 20 \<Longrightarrow> is_line SIP_BUF_SIZE (conf_line k (fmt_hd x))"
  using fmt_hd_length [of x] by (auto intro!: conf_line_is_line simp: conf_simps)

lemma yes_no_line: "plain_key k \<Longrightarrow> length k \<le> 20 \<Longrightarrow> is_line SIP_BUF_SIZE (conf_line k (yes_no x))"
  using yes_no_length [of x] by (auto intro!: conf_line_is_line simp: conf_simps)

lemma field_line:
  "plain_key k \<Longrightarrow> length k \<le> 20 \<Longrightarrow> field_ok n v \<Longrightarrow> n \<le> 63 \<Longrightarrow> is_line SIP_BUF_SIZE (conf_line k v)"
  by (auto intro!: conf_line_is_line simp: field_ok_def)

lemma word_line:
  "plain_key k \<Longrightarrow> length k \<le> 20 \<Longrightarrow> LF \<notin> set v \<Longrightarrow> length v \<le> 63 \<Longrightarrow> is_line SIP_BUF_SIZE (conf_line k v)"
  by (auto intro!: conf_line_is_line)

lemma sip_register_line_length:
  assumes "sip_ok c"
  shows "length (sip_register_line c) \<le> 225 \<and> is_line SIP_BUF_SIZE (sip_register_line c)"
proof
  show l: "length (sip_register_line c) \<le> 225"
    using assms fmt_hd_length [of "port (account c)"]
    by (simp add: sip_ok_def sip_account_ok_def field_ok_def sip_register_line_def SIP_ACCOUNT_NAME_def)
  show "is_line SIP_BUF_SIZE (sip_register_line c)"
    using assms l unfolding sip_register_line_conf
    by (intro conf_line_is_line)
      (auto simp: plain_key_simps sip_ok_def sip_account_ok_def field_ok_def conf_simps conf_line_def)
qed

lemmas sip_line_intros = short_line yes_no_line

lemma sip_section_lines:
  assumes "sip_ok c"
  shows "l \<in> set sip_general_lines \<Longrightarrow> is_line SIP_BUF_SIZE l"
    and "l \<in> set sip_account_lines \<Longrightarrow> is_line SIP_BUF_SIZE l"
    and "l \<in> set (tl (sip_general_prints c)) \<Longrightarrow> is_line SIP_BUF_SIZE l"
    and "l \<in> set (sip_timer_prints c) \<Longrightarrow> is_line SIP_BUF_SIZE l"
    and "l \<in> set (sip_session_prints c) \<Longrightarrow> is_line SIP_BUF_SIZE l"
    and "l \<in> set (sip_register_prints c) \<Longrightarrow> is_line SIP_BUF_SIZE l"
    and "l \<in> set (drop 2 (sip_account_prints (account c))) \<Longrightarrow> is_line SIP_BUF_SIZE l"
proof -
  have f: "field_ok 15 (session_timers c)" "field_ok 7 (session_refresher c)"
     "field_ok 63 (register_username c)" "field_ok 63 (register_secret c)"
     "field_ok 63 (register_host c)" "sip_account_ok (account c)" using assms by (simp_all add: sip_ok_def)
  show "is_line SIP_BUF_SIZE l" if "l \<in> set sip_general_lines"
    using that by (auto simp: sip_general_lines_def conf_line_def is_line_def)
  show "is_line SIP_BUF_SIZE l" if "l \<in> set sip_account_lines"
    using that by (auto simp: sip_account_lines_def conf_line_def is_line_def)
  show "is_line SIP_BUF_SIZE l" if "l \<in> set (tl (sip_general_prints c))"
    using that by (auto simp: sip_general_prints_def sip_fixed_text plain_key_simps
        intro!: sip_line_intros word_line split: if_splits)
  show "is_line SIP_BUF_SIZE l" if "l \<in> set (sip_timer_prints c)"
    using that by (auto simp: sip_timer_prints_def print_if_set_def plain_key_simps
        intro!: short_line split: if_splits)
  show "is_line SIP_BUF_SIZE l" if "l \<in> set (sip_session_prints c)"
    using that f(1,2) by (auto simp: sip_session_prints_def print_if_set_def plain_key_simps
        intro!: sip_line_intros intro: field_line split: if_splits)
  show "is_line SIP_BUF_SIZE l" if "l \<in> set (sip_register_prints c)"
    using that f(3-5) sip_register_line_length [OF assms]
    by (auto simp: sip_register_prints_def plain_key_simps intro: field_line split: if_splits)
  show "is_line SIP_BUF_SIZE l" if "l \<in> set (drop 2 (sip_account_prints (account c)))"
    using that f(6) unfolding sip_account_ok_def
    by (auto simp: sip_account_prints_def print_if_text_def plain_key_simps
        intro!: sip_line_intros intro: field_line split: if_splits)
qed

lemma sip_text_is_lines: "sip_ok c \<Longrightarrow> l \<in> set (sip_text_lines c) \<Longrightarrow> is_line SIP_BUF_SIZE l"
  unfolding sip_text_lines_def using sip_section_lines by fastforce

text \<open>The loop over the codecs prints one line per allowed codec, in order.\<close>

definition allowed :: "int list \<Rightarrow> int list" where
  "allowed cs = filter (\<lambda>c. 0 < c) cs"

lemma sip_print_allow_effect:
  "\<forall>c \<in> set cs. c \<le> 0 \<or> c \<in> set codec_codes \<Longrightarrow> files w FILE_SIP_CONF = Some t \<Longrightarrow>
   \<exists>is n l. length is = length (allowed cs) \<and> (\<forall>i \<in> set is. int32 i) \<and>
     (can_read FILE_COMCERTO_CONF w \<longrightarrow> l = live w) \<and>
     (\<not> can_read FILE_COMCERTO_CONF w \<and> (\<forall>k. alloc_ok w k) \<longrightarrow> l = live w + int (length (allowed cs))) \<and>
     sip_print_allow cs w = Inr (w\<lparr>files := (files w)(FILE_SIP_CONF \<mapsto>
         t @ concat (map2 allow_line (allowed cs) is)), allocs := n, live := l\<rparr>)"
proof (induction cs arbitrary: w t)
  case Nil
  show ?case by (intro exI [of _ "[]"] exI [of _ "allocs w"] exI [of _ "live w"])
      (simp add: allowed_def Nil.prems(2) fun_upd_idem)
next
  case (Cons c cs)
  show ?case
  proof (cases "0 < c")
    case False
    with Cons show ?thesis by (simp add: allowed_def)
  next
    case True
    obtain x n l where x: "libamg_comcerto_get_codec_packetization_interval c w =
        Inr (x, w\<lparr>allocs := n, live := l\<rparr>)" "int32 x" "can_read FILE_COMCERTO_CONF w \<longrightarrow> l = live w"
        "\<not> can_read FILE_COMCERTO_CONF w \<and> (\<forall>k. alloc_ok w k) \<longrightarrow> l = live w + 1"
      using comcerto_interval_result [of c w] by (elim exE conjE) (rule that)
    obtain nm where nm: "libamg_sip_get_codec_name c = Some nm"
      using True Cons.prems(1) codec_name_defined [of c] by auto
    let ?t = "t @ allow_line c x"
    let ?w = "w\<lparr>allocs := n, live := l, files := (files w)(FILE_SIP_CONF \<mapsto> ?t)\<rparr>"
    have step: "sip_print_allow (c # cs) w = sip_print_allow cs ?w"
      using True x(1) nm Cons.prems(2) by (simp add: f_print_def allow_line_def)
    have "\<exists>is n' l'. length is = length (allowed cs) \<and> (\<forall>i \<in> set is. int32 i) \<and>
     (can_read FILE_COMCERTO_CONF ?w \<longrightarrow> l' = live ?w) \<and>
     (\<not> can_read FILE_COMCERTO_CONF ?w \<and> (\<forall>k. alloc_ok ?w k) \<longrightarrow> l' = live ?w + int (length (allowed cs))) \<and>
     sip_print_allow cs ?w = Inr (?w\<lparr>files := (files ?w)(FILE_SIP_CONF \<mapsto>
         ?t @ concat (map2 allow_line (allowed cs) is)), allocs := n', live := l'\<rparr>)"
      using Cons.prems(1) by (intro Cons.IH) auto
    then obtain "is" n' l' where r: "length is = length (allowed cs)" "\<forall>i \<in> set is. int32 i"
        "can_read FILE_COMCERTO_CONF ?w \<longrightarrow> l' = live ?w"
        "\<not> can_read FILE_COMCERTO_CONF ?w \<and> (\<forall>k. alloc_ok ?w k) \<longrightarrow> l' = live ?w + int (length (allowed cs))"
        "sip_print_allow cs ?w = Inr (?w\<lparr>files := (files ?w)(FILE_SIP_CONF \<mapsto>
           ?t @ concat (map2 allow_line (allowed cs) is)), allocs := n', live := l'\<rparr>)"
      by blast
    have differ: "FILE_COMCERTO_CONF \<noteq> FILE_SIP_CONF" by (simp add: FILE_COMCERTO_CONF_def FILE_SIP_CONF_def
        FILE_COMCERTO_CONF_PATH_def FILE_COMCERTO_CONF_NAME_def FILE_SIP_CONF_PATH_def FILE_SIP_CONF_NAME_def)
    have "can_read FILE_COMCERTO_CONF w \<longrightarrow> l' = live w"
      using r(3) x(3) by (auto simp: can_read_def)
    moreover have "\<not> can_read FILE_COMCERTO_CONF w \<and> (\<forall>k. alloc_ok w k) \<longrightarrow> l' = live w + int (length (allowed (c # cs)))"
      using r(4) x(4) differ True by (simp add: can_read_def allowed_def)
    ultimately show ?thesis
      using True r(1,2,5) x(2) step
      by (intro exI [of _ "x # is"] exI [of _ n'] exI [of _ l']) (simp add: allowed_def del: fun_upd_apply sip_print_allow.simps)
  qed
qed

lemma sip_fresh_read:
  assumes "sip_ok c" and "length is = length (allowed (allow (account c)))" and "\<forall>i \<in> set is. int32 i"
  shows "conf_read SIP_BUF_SIZE sip_delims (sip_set sc) (sip_empty, 0)
      (concat (sip_text_lines c) @ concat (map2 allow_line (allowed (allow (account c))) is)) =
    Inr (sip_norm sc c, length (allowed (allow (account c))))"
proof -
  let ?cs = "allowed (allow (account c))"
  let ?ls = "sip_text_lines c @ map2 allow_line ?cs is"
  have cs: "set ?cs \<subseteq> set codec_codes" "length ?cs \<le> NUM_AVAILABLE_CODECS"
    using assms(1) length_filter_le [of _ "allow (account c)"]
    by (auto simp: allowed_def sip_ok_def sip_account_ok_def)
  have "is_line SIP_BUF_SIZE l" if "l \<in> set ?ls" for l
    using that sip_text_is_lines [OF assms(1)] cs(1) assms(3)
    by (auto intro!: allow_line_is_line dest: set_zip_leftD set_zip_rightD)
  then have "conf_read SIP_BUF_SIZE sip_delims (sip_set sc) (sip_empty, 0) (concat ?ls) =
      run_steps (sip_step sc) (sip_empty, 0) ?ls"
    by (rule sip.read_lines)
  also have "\<dots> = Inr ((sip_norm sc c)\<lparr>account := (sip_account_norm sc (account c))
      \<lparr>allow := ?cs @ replicate (NUM_AVAILABLE_CODECS - length ?cs) 0\<rparr>\<rparr>, length ?cs)"
    unfolding run_steps_append sip_text_read [OF assms(1)]
    using sip_allow_read [OF assms(2) cs(1), of 0] cs(2) by simp
  also have "?cs @ replicate (NUM_AVAILABLE_CODECS - length ?cs) 0 = allow_norm (allow (account c))"
    using cs(2) by (simp add: allow_norm_def allowed_def)
  finally show ?thesis by (simp add: sip_norm_def sip_account_norm_def)
qed

lemma sip_save_effect:
  assumes "sip_ok (sip_strip sc c)" and "\<not> cannot_write w FILE_SIP_CONF"
  shows "\<exists>is n l. length is = length (allowed (allow (account c))) \<and> (\<forall>i \<in> set is. int32 i) \<and>
     (can_read FILE_COMCERTO_CONF w \<longrightarrow> l = live w) \<and>
     (\<not> can_read FILE_COMCERTO_CONF w \<and> (\<forall>k. alloc_ok w k) \<longrightarrow> l = live w + int (length (allowed (allow (account c))))) \<and>
     libamg_sip_save_config sc c w = Inr (0, sip_strip sc c,
       w\<lparr>files := (files w)(FILE_SIP_CONF \<mapsto> concat (sip_text_lines (sip_strip sc c)) @
            concat (map2 allow_line (allowed (allow (account c))) is)), allocs := n, live := l\<rparr>)"
proof -
  let ?c = "sip_strip sc c"
  let ?w1 = "w\<lparr>files := (files w)(FILE_SIP_CONF \<mapsto> []), open_files := open_files w + 1\<rparr>"
  let ?w2 = "w\<lparr>open_files := open_files w + 1, files := (files w)(FILE_SIP_CONF \<mapsto> concat (sip_text_lines ?c))\<rparr>"
  have al: "allow (account ?c) = allow (account c)" by (simp add: sip_strip_def)
  have len: "length (session_timers c) < 16" "length (session_refresher c) < 8"
    using assms(1) by (simp_all add: sip_ok_def field_ok_def sip_strip_def)
  have w2: "f_prints FILE_SIP_CONF (sip_general_prints ?c @ sip_timer_prints ?c @ sip_session_prints ?c @
       sip_register_prints ?c @ sip_account_prints (account ?c)) ?w1 = ?w2"
    by (subst f_prints_open [of _ _ "[]"]) (simp_all only: sip_text_concat, simp_all)
  have "\<forall>x \<in> set (allow (account c)). x \<le> 0 \<or> x \<in> set codec_codes"
    using assms(1) by (simp add: sip_ok_def sip_account_ok_def al)
  from sip_print_allow_effect [OF this, of ?w2 "concat (sip_text_lines ?c)", simplified] obtain "is" n l where r:
      "length is = length (allowed (allow (account c)))" "\<forall>i \<in> set is. int32 i"
      "can_read FILE_COMCERTO_CONF ?w2 \<longrightarrow> l = live w"
      "\<not> can_read FILE_COMCERTO_CONF ?w2 \<and> (\<forall>k. alloc_ok w k) \<longrightarrow> l = live w + int (length (allowed (allow (account c))))"
      "sip_print_allow (allow (account c)) ?w2 = Inr (?w2\<lparr>files := (files ?w2)(FILE_SIP_CONF \<mapsto>
         concat (sip_text_lines ?c) @ concat (map2 allow_line (allowed (allow (account c))) is)),
         allocs := n, live := l\<rparr>)"
    by (elim exE conjE) (rule that; simp)
  have "can_read FILE_COMCERTO_CONF w \<longleftrightarrow> can_read FILE_COMCERTO_CONF ?w2"
    by (simp add: can_read_def FILE_COMCERTO_CONF_def FILE_SIP_CONF_def
        FILE_COMCERTO_CONF_PATH_def FILE_COMCERTO_CONF_NAME_def FILE_SIP_CONF_PATH_def FILE_SIP_CONF_NAME_def)
  then have "can_read FILE_COMCERTO_CONF w \<longrightarrow> l = live w"
      "\<not> can_read FILE_COMCERTO_CONF w \<and> (\<forall>k. alloc_ok w k) \<longrightarrow> l = live w + int (length (allowed (allow (account c))))"
    using r(3,4) by simp_all
  moreover have "libamg_sip_save_config sc c w = Inr (0, ?c, w\<lparr>files := (files w)(FILE_SIP_CONF \<mapsto>
       concat (sip_text_lines ?c) @ concat (map2 allow_line (allowed (allow (account c))) is)),
       allocs := n, live := l\<rparr>)"
    using len assms(2) unfolding libamg_sip_save_config_def fopen_w_ok [OF assms(2)]
    by (simp add: Let_def w2 al r(5) f_close_def del: f_prints_open)
  ultimately show ?thesis using r(1,2) by blast
qed

subsection \<open>Configurations that survive\<close>

definition word_ok :: "bool \<Rightarrow> nat \<Rightarrow> string \<Rightarrow> bool" where
  "word_ok sc n v \<longleftrightarrow> plain_value sip_delims v \<and> length v \<le> n \<and> (\<forall>c \<in> set v. 32 \<le> char_val sc c)"

definition opt_word_ok :: "bool \<Rightarrow> nat \<Rightarrow> string \<Rightarrow> bool" where
  "opt_word_ok sc n v \<longleftrightarrow> v = [] \<or> word_ok sc n v"

definition bool_int :: "int \<Rightarrow> bool" where
  "bool_int b \<longleftrightarrow> b = 0 \<or> b = 1"

definition sip_account_clean :: "bool \<Rightarrow> libamg_sip_account \<Rightarrow> bool" where
  "sip_account_clean sc a \<longleftrightarrow>
     bool_int (sip_nat a) \<and> bool_int (qualify a) \<and> opt_word_ok sc 63 (callerid a) \<and>
     opt_word_ok sc 63 (fromuser a) \<and> opt_word_ok sc 31 (insecure a) \<and> opt_word_ok sc 63 (username a) \<and>
     opt_word_ok sc 63 (secret a) \<and> opt_word_ok sc 63 (host a) \<and> opt_word_ok sc 7 (transport a) \<and>
     ushort_range (port a) \<and> word_ok sc 31 (dtmfmode a) \<and> length (allow a) = NUM_AVAILABLE_CODECS \<and>
     (\<forall>c \<in> set (allow a). c \<le> 0 \<or> c \<in> set codec_codes) \<and> allow_norm (allow a) = allow a"

definition sip_clean :: "bool \<Rightarrow> libamg_sip_config \<Rightarrow> bool" where
  "sip_clean sc c \<longleftrightarrow>
     ushort_range (bindport c) \<and> bool_int (tcpenable c) \<and> short_range (t1min c) \<and>
     short_range (timert1 c) \<and> short_range (timerb c) \<and> short_range (rtptimeout c) \<and>
     short_range (rtpholdtimeout c) \<and> short_range (rtpkeepalive c) \<and>
     word_ok sc 15 (session_timers c) \<and> session_expires c = 0 \<and> session_minse c = 0 \<and>
     word_ok sc 7 (session_refresher c) \<and> short_range (defaultexpiry c) \<and>
     register_enable c = 1 \<and> autoframing c = 0 \<and> word_ok sc 63 (register_username c) \<and>
     word_ok sc 63 (register_secret c) \<and> word_ok sc 63 (register_host c) \<and>
     (let jb = sip_jb_conf c in jb_enable jb = 1 \<and> short_range (jb_maxsize jb) \<and> bool_int (jb_impl jb) \<and>
        jb_mindelay jb = 0 \<and> jb_typdelay jb = 0 \<and> jb_maxdelay jb = 0 \<and> jb_delet_thrld jb = 0) \<and>
     sip_account_clean sc (account c)"

lemma word_ok_facts:
  assumes "word_ok sc n v"
  shows "v \<noteq> []" "field_ok n v" "strip_array sc v = v" "crop sip_delims (v @ [LF]) = v" "n \<le> m \<Longrightarrow> reread m v = v"
proof -
  have v: "v \<noteq> []" "\<And>c. c \<in> set v \<Longrightarrow> c \<notin> set sip_delims \<and> c \<noteq> NUL" "length v \<le> n"
      "\<And>c. c \<in> set v \<Longrightarrow> 32 \<le> char_val sc c"
    using assms by (auto simp: word_ok_def plain_value_def)
  show "v \<noteq> []" by (rule v(1))
  show "field_ok n v" using v by (auto simp: field_ok_def)
  have nul: "NUL \<notin> set v" using v(2) by blast
  show "strip_array sc v = v" using v(4) by (simp add: strip_array_eq [OF nul] strip_ctl_printable)
  show c: "crop sip_delims (v @ [LF]) = v" using v(1,2) by (subst crop_token) auto
  show "reread m v = v" if "n \<le> m" using that v(3) by (simp add: reread_def c c_strncpy_def)
qed

lemma opt_word_ok_facts:
  assumes "opt_word_ok sc n v"
  shows "field_ok n v" "strip_array sc v = v" "reread_opt n v = v"
  using assms word_ok_facts [of sc n v]
  by (auto simp: opt_word_ok_def field_ok_def strip_array_eq strip_ctl_def reread_opt_def)

lemma opt_word_fromuser:
  "opt_word_ok sc 63 v \<Longrightarrow>
     (if v = [] then [] else c_strncpy 63 (strip_array sc (crop sip_delims (v @ [LF])))) = v"
  using word_ok_facts [of sc 63 v] by (auto simp: opt_word_ok_def c_strncpy_def word_ok_def)

lemma flag_bool_int: "bool_int b \<Longrightarrow> flag b = b"
  by (auto simp: bool_int_def flag_def)

lemma sip_clean_strip: "sip_clean sc c \<Longrightarrow> sip_strip sc c = c"
  by (simp add: sip_clean_def sip_account_clean_def sip_strip_def
      word_ok_facts(3) [of sc 63] opt_word_ok_facts(2) [of sc 63])

lemma sip_clean_ok: "sip_clean sc c \<Longrightarrow> sip_ok c"
  by (simp add: sip_clean_def sip_account_clean_def sip_ok_def sip_account_ok_def
      word_ok_facts(2) [of sc] opt_word_ok_facts(1) [of sc])

lemma sip_account_clean_norm: "sip_account_clean sc a \<Longrightarrow> sip_account_norm sc a = a"
  by (simp add: sip_account_clean_def sip_account_norm_def opt_word_ok_facts(3) [of sc] opt_word_fromuser
      word_ok_facts(5) [of sc 31 _ 31] flag_bool_int)

lemma sip_clean_norm: "sip_clean sc c \<Longrightarrow> sip_norm sc c = c"
  by (cases "sip_jb_conf c") (simp add: sip_clean_def sip_norm_def sip_account_clean_norm flag_bool_int Let_def
      word_ok_facts(1) [of sc 63] word_ok_facts(5) [of sc 15 _ 16] word_ok_facts(5) [of sc 7 _ 8]
      word_ok_facts(5) [of sc 63 _ 63] sip_expiry_norm_def sip_registers_def jb_zero_def)

lemma flag_bool_range: "bool_int (flag x)"
  by (simp add: bool_int_def flag_def)

text \<open>What a configuration must be like to be its own normal form.\<close>

lemma sip_kept_only_if:
  assumes "sip_norm sc (sip_strip sc c) = c"
  shows "session_expires c = 0 \<and> session_minse c = 0 \<and> autoframing c = 0 \<and>
    (let jb = sip_jb_conf c in jb_enable jb = 1 \<and> bool_int (jb_impl jb) \<and> jb_mindelay jb = 0 \<and>
       jb_typdelay jb = 0 \<and> jb_maxdelay jb = 0 \<and> jb_delet_thrld jb = 0) \<and>
    bool_int (tcpenable c) \<and> bool_int (register_enable c) \<and> bool_int (sip_nat (account c)) \<and>
    bool_int (qualify (account c)) \<and> allow_norm (allow (account c)) = allow (account c)"
proof -
  let ?d = "sip_norm sc (sip_strip sc c)"
  have "session_expires ?d = 0 \<and> session_minse ?d = 0 \<and> autoframing ?d = 0 \<and>
    (let jb = sip_jb_conf ?d in jb_enable jb = 1 \<and> bool_int (jb_impl jb) \<and> jb_mindelay jb = 0 \<and>
       jb_typdelay jb = 0 \<and> jb_maxdelay jb = 0 \<and> jb_delet_thrld jb = 0) \<and>
    bool_int (tcpenable ?d) \<and> bool_int (register_enable ?d) \<and> bool_int (sip_nat (account ?d)) \<and>
    bool_int (qualify (account ?d)) \<and> allow (account ?d) = allow_norm (allow (account c))"
    by (simp add: sip_norm_def sip_account_norm_def sip_strip_def jb_zero_def flag_bool_range)
      (simp add: bool_int_def)
  then show ?thesis unfolding assms by metis
qed

subsection \<open>Properties\<close>

text \<open>C2: Saving an account configuration whose texts fit their lines and parsing the file again gives its normal
  form (\<open>sip_norm\<close>): the stripped texts cut at the first blank, numbers as 16-bit values, the allowed codecs
  in order and without gaps, no session expiry, session minimum or autoframing. The save function hands back the
  stripped structure and closes its stream; the parser closes its own and leaves the one block that it returns.
  Saving frees every block it allocated when comcerto.conf can be read; when it cannot, it loses one block for
  each allowed codec.\<close>

theorem sip_save_parse:
  assumes "sip_ok (sip_strip sc c)" and "\<not> cannot_write w FILE_SIP_CONF"
    and "\<not> cannot_read w FILE_SIP_CONF" and "\<And>n. alloc_ok w n"
  shows "\<exists>w1 w2. libamg_sip_save_config sc c w = Inr (0, sip_strip sc c, w1) \<and>
     open_files w1 = open_files w \<and>
     live w1 = live w + (if can_read FILE_COMCERTO_CONF w then 0 else int (length (allowed (allow (account c))))) \<and>
     libamg_sip_parse_config sc w1 = Inr (Some (sip_norm sc (sip_strip sc c)), w2) \<and>
     open_files w2 = open_files w \<and> live w2 = live w1 + 1"
proof -
  obtain "is" n l where r: "length is = length (allowed (allow (account c)))" "\<forall>i \<in> set is. int32 i"
     "can_read FILE_COMCERTO_CONF w \<longrightarrow> l = live w"
     "\<not> can_read FILE_COMCERTO_CONF w \<and> (\<forall>k. alloc_ok w k) \<longrightarrow> l = live w + int (length (allowed (allow (account c))))"
     "libamg_sip_save_config sc c w = Inr (0, sip_strip sc c,
       w\<lparr>files := (files w)(FILE_SIP_CONF \<mapsto> concat (sip_text_lines (sip_strip sc c)) @
            concat (map2 allow_line (allowed (allow (account c))) is)), allocs := n, live := l\<rparr>)"
    using sip_save_effect [OF assms(1,2)] by blast
  have "allow (account (sip_strip sc c)) = allow (account c)" by (simp add: sip_strip_def)
  with sip_fresh_read [OF assms(1), of "is" sc] r(1,2) assms(3,4) r(3,4)
  show ?thesis unfolding r(5)
    by (simp add: libamg_sip_parse_config_def world_simps f_close_def)
qed

definition sip_demo :: libamg_sip_config where
  "sip_demo = sip_empty\<lparr>bindport := 50600, tcpenable := 1, t1min := 200, session_timers := ''accept'',
     session_refresher := ''uas'', defaultexpiry := 3600, register_enable := 1,
     sip_jb_conf := jb_zero\<lparr>jb_enable := 1, jb_maxsize := 200, jb_impl := 1\<rparr>,
     register_username := ''2001'', register_secret := ''s3cret'', register_host := ''10.1.1.1'',
     account := sip_account_empty\<lparr>host := ''10.1.1.1'', username := ''2001'', port := 5060,
       dtmfmode := ''rfc2833'', transport := ''udp'', allow := [8, 4, 256, 0, 0, 0, 0, 0, 0]\<rparr>\<rparr>"

lemma sip_demo_clean: "sip_clean True sip_demo"
  by (simp add: sip_clean_def sip_account_clean_def sip_demo_def sip_empty_def sip_account_empty_def
      word_ok_def opt_word_ok_def plain_value_def bool_int_def ushort_range_def short_range_def
      jb_zero_def char_val_def allow_norm_def codec_codes_def numeral_eq_Suc)

theorem sip_save_parse_witness:
  "\<exists>w1 w2. libamg_sip_save_config True sip_demo (comcerto_world Map.empty) =
       Inr (0, sip_strip True sip_demo, w1) \<and>
     libamg_sip_parse_config True w1 = Inr (Some (sip_norm True (sip_strip True sip_demo)), w2)"
  using sip_save_parse [of True sip_demo "comcerto_world Map.empty"]
    sip_clean_ok [OF sip_demo_clean] sip_clean_strip [OF sip_demo_clean]
  by (auto simp: comcerto_world_def)

text \<open>C1: Which SIP configurations survive saving and parsing. A configuration is read back unchanged if it is
  clean: it registers; its texts are printable words that fit their arrays, or empty where the line may be left
  out; its numbers are in the range of their 16 bits and its flags 0 or 1; the jitter buffer is on with its four
  delays 0; the codecs are known and come without gaps; session expiry, session minimum and autoframing are 0.
  Of the configurations that the file can carry, one that has a session expiry, a session minimum, autoframing, a
  jitter buffer that is off or with delays, gaps in its codecs or a flag that is not 0 or 1 is never read back
  unchanged.\<close>

theorem sip_clean_roundtrip:
  assumes "sip_ok (sip_strip sc c)" and "\<not> cannot_write w FILE_SIP_CONF"
    and "\<not> cannot_read w FILE_SIP_CONF" and "\<And>n. alloc_ok w n"
  shows "\<exists>c1 w1 d w2. libamg_sip_save_config sc c w = Inr (0, c1, w1) \<and>
     libamg_sip_parse_config sc w1 = Inr (Some d, w2) \<and>
     (sip_clean sc c \<longrightarrow> c1 = c \<and> d = c) \<and>
     (d = c \<longrightarrow> session_expires c = 0 \<and> session_minse c = 0 \<and> autoframing c = 0 \<and>
        (let jb = sip_jb_conf c in jb_enable jb = 1 \<and> bool_int (jb_impl jb) \<and> jb_mindelay jb = 0 \<and>
          jb_typdelay jb = 0 \<and> jb_maxdelay jb = 0 \<and> jb_delet_thrld jb = 0) \<and>
        bool_int (tcpenable c) \<and> bool_int (register_enable c) \<and> bool_int (sip_nat (account c)) \<and>
        bool_int (qualify (account c)) \<and> allow_norm (allow (account c)) = allow (account c))"
proof -
  let ?d = "sip_norm sc (sip_strip sc c)"
  obtain "is" n l where r: "length is = length (allowed (allow (account c)))" "\<forall>i \<in> set is. int32 i"
     "libamg_sip_save_config sc c w = Inr (0, sip_strip sc c,
       w\<lparr>files := (files w)(FILE_SIP_CONF \<mapsto> concat (sip_text_lines (sip_strip sc c)) @
            concat (map2 allow_line (allowed (allow (account c))) is)), allocs := n, live := l\<rparr>)"
    using sip_save_effect [OF assms(1,2)] by blast
  have "allow (account (sip_strip sc c)) = allow (account c)" by (simp add: sip_strip_def)
  then have "\<exists>w2. libamg_sip_parse_config sc (w\<lparr>files := (files w)(FILE_SIP_CONF \<mapsto>
      concat (sip_text_lines (sip_strip sc c)) @ concat (map2 allow_line (allowed (allow (account c))) is)),
      allocs := n, live := l\<rparr>) = Inr (Some ?d, w2)"
    using sip_fresh_read [OF assms(1), of "is" sc] r(1,2) assms(3,4) by (simp add: libamg_sip_parse_config_def world_simps)
  moreover have "sip_clean sc c \<longrightarrow> sip_strip sc c = c \<and> ?d = c" using sip_clean_strip sip_clean_norm by simp
  ultimately show ?thesis using r(3) sip_kept_only_if [of sc c] by blast
qed

theorem sip_clean_roundtrip_witness:
  "\<exists>w1 w2. libamg_sip_save_config True sip_demo (comcerto_world Map.empty) = Inr (0, sip_demo, w1) \<and>
     libamg_sip_parse_config True w1 = Inr (Some sip_demo, w2)"
  using sip_clean_roundtrip [of True sip_demo "comcerto_world Map.empty"] sip_demo_clean
    sip_clean_ok [OF sip_demo_clean] sip_clean_strip [OF sip_demo_clean]
  by (auto simp: comcerto_world_def)

text \<open>The session expiry, the session minimum and autoframing never survive a save and a parse:
  all three come back as 0, and the default expiry comes back as the session minimum if that was
  set, else as the session expiry if that was set.\<close>

theorem sip_session_timers_lost:
  assumes "sip_ok (sip_strip sc c)" and "\<not> cannot_write w FILE_SIP_CONF"
    and "\<not> cannot_read w FILE_SIP_CONF" and "\<And>n. alloc_ok w n"
    and "libamg_sip_save_config sc c w = Inr (r, c', w1)"
    and "libamg_sip_parse_config sc w1 = Inr (Some d, w2)"
  shows "session_expires d = 0 \<and> session_minse d = 0 \<and> autoframing d = 0 \<and>
     (session_minse c \<noteq> 0 \<longrightarrow> defaultexpiry d = to_short (session_minse c)) \<and>
     (session_minse c = 0 \<and> session_expires c \<noteq> 0 \<longrightarrow> defaultexpiry d = to_short (session_expires c))"
proof -
  obtain "is" n l where i: "length is = length (allowed (allow (account c)))" "\<forall>i \<in> set is. int32 i"
     "libamg_sip_save_config sc c w = Inr (0, sip_strip sc c,
       w\<lparr>files := (files w)(FILE_SIP_CONF \<mapsto> concat (sip_text_lines (sip_strip sc c)) @
            concat (map2 allow_line (allowed (allow (account c))) is)), allocs := n, live := l\<rparr>)"
    using sip_save_effect [OF assms(1,2)] by blast
  have "allow (account (sip_strip sc c)) = allow (account c)" by (simp add: sip_strip_def)
  with sip_fresh_read [OF assms(1), of "is" sc] i(1,2) assms(3-6)
  have "d = sip_norm sc (sip_strip sc c)"
    unfolding i(3) by (auto simp: libamg_sip_parse_config_def world_simps)
  then show ?thesis by (simp add: sip_norm_def sip_expiry_norm_def sip_strip_def)
qed

theorem sip_session_timers_lost_witness:
  "\<exists>w1 w2 d. libamg_sip_save_config True (sip_demo\<lparr>session_expires := 1800\<rparr>) (comcerto_world Map.empty) =
       Inr (0, sip_strip True (sip_demo\<lparr>session_expires := 1800\<rparr>), w1) \<and>
     libamg_sip_parse_config True w1 = Inr (Some d, w2) \<and> session_expires d = 0 \<and> defaultexpiry d = 1800"
proof -
  let ?c = "sip_demo\<lparr>session_expires := 1800\<rparr>" and ?w = "comcerto_world Map.empty"
  have ok: "sip_ok (sip_strip True ?c)"
  proof -
    have "sip_strip True ?c = (sip_strip True sip_demo)\<lparr>session_expires := 1800\<rparr>"
      by (simp add: sip_strip_def)
    then show ?thesis
      using sip_clean_ok [OF sip_demo_clean] unfolding sip_clean_strip [OF sip_demo_clean]
      by (simp add: sip_ok_def)
  qed
  obtain "is" n l where i: "length is = length (allowed (allow (account ?c)))" "\<forall>i \<in> set is. int32 i"
     "libamg_sip_save_config True ?c ?w = Inr (0, sip_strip True ?c,
       ?w\<lparr>files := (files ?w)(FILE_SIP_CONF \<mapsto> concat (sip_text_lines (sip_strip True ?c)) @
            concat (map2 allow_line (allowed (allow (account ?c))) is)), allocs := n, live := l\<rparr>)"
    (is "_ = Inr (0, _, ?w1)")
    using sip_save_effect [OF ok, of ?w] by (auto simp: comcerto_world_def)
  have "allow (account (sip_strip True ?c)) = allow (account ?c)" by (simp add: sip_strip_def)
  with sip_fresh_read [OF ok, of "is" True] i(1,2) obtain d w2 where d:
      "libamg_sip_parse_config True ?w1 = Inr (Some d, w2)"
    by (simp add: libamg_sip_parse_config_def world_simps comcerto_world_def)
  have "session_expires d = 0 \<and> defaultexpiry d = to_short 1800"
    using sip_session_timers_lost [OF ok _ _ _ i(3) d]
    by (simp add: comcerto_world_def sip_demo_def sip_empty_def)
  with i(3) d show ?thesis by (auto simp: to_short_def)
qed

text \<open>The lines of a file whose key is \<open>allow\<close>.\<close>

definition is_allow :: "string \<Rightarrow> bool" where
  "is_allow l = (case split_line sip_delims l of Inr (Some (k, v)) \<Rightarrow> k = ''allow'' | _ \<Rightarrow> False)"

definition allow_count :: "string list \<Rightarrow> nat" where
  "allow_count ls = length (filter is_allow ls)"

lemma allow_if: "allow (account c) = a \<Longrightarrow> allow (account d) = a \<Longrightarrow> allow (account (if b then c else d)) = a"
  by simp

lemma sip_set_field_allow: "allow (account (sip_set_field sc c k v)) = allow (account c)"
  unfolding sip_set_field_def Let_def by (intro allow_if; simp)

lemma sip_step_allow:
  "is_allow l \<Longrightarrow> \<exists>v. sip_step sc (c, p) l = sip_allow (c, p) v"
  using split_line_total [of sip_delims l]
  by (auto simp: is_allow_def conf_step_def sip_set_def split: option.splits)

lemma sip_step_no_allow:
  "\<not> is_allow l \<Longrightarrow> \<exists>c'. sip_step sc (c, p) l = Inr (c', p) \<and> allow (account c') = allow (account c)"
  using split_line_total [of sip_delims l]
  by (auto simp: is_allow_def conf_step_def sip_set_def sip_set_field_allow split: option.splits)

lemma sip_steps_allow_count:
  "length (allow (account c)) = NUM_AVAILABLE_CODECS \<Longrightarrow> p \<le> NUM_AVAILABLE_CODECS \<Longrightarrow>
     (if NUM_AVAILABLE_CODECS < p + allow_count ls
      then run_steps (sip_step sc) (c, p) ls = Inl Out_Of_Bounds
      else \<exists>c'. run_steps (sip_step sc) (c, p) ls = Inr (c', p + allow_count ls) \<and>
             length (allow (account c')) = NUM_AVAILABLE_CODECS)"
proof (induction ls arbitrary: c p)
  case Nil
  then show ?case by (simp add: allow_count_def)
next
  case (Cons l ls)
  show ?case
  proof (cases "is_allow l")
    case True
    then obtain v where v: "sip_step sc (c, p) l = sip_allow (c, p) v" using sip_step_allow by blast
    have cnt: "allow_count (l # ls) = Suc (allow_count ls)" using True by (simp add: allow_count_def)
    show ?thesis
    proof (cases "p = NUM_AVAILABLE_CODECS")
      case True
      then show ?thesis using Cons.prems v cnt by (simp add: sip_allow_def Let_def)
    next
      case False
      let ?c = "c\<lparr>account := (account c)\<lparr>allow := (allow (account c))[p := libamg_sip_get_codec_code v]\<rparr>\<rparr>"
      have "sip_step sc (c, p) l = Inr (?c, Suc p)"
        using False Cons.prems v by (simp add: sip_allow_def Let_def)
      moreover have "length (allow (account ?c)) = NUM_AVAILABLE_CODECS" using Cons.prems by simp
      ultimately show ?thesis
        using Cons.IH [of ?c "Suc p"] Cons.prems(2) False cnt by (auto split: if_splits)
    qed
  next
    case False
    then obtain c' where "sip_step sc (c, p) l = Inr (c', p)" "allow (account c') = allow (account c)"
      using sip_step_no_allow by blast
    then show ?thesis using Cons.IH [of c' p] Cons.prems False
      by (auto simp: allow_count_def split: if_splits)
  qed
qed

lemma sip_read_allow_count:
  "if NUM_AVAILABLE_CODECS < allow_count (chunks SIP_BUF_SIZE s)
   then conf_read SIP_BUF_SIZE sip_delims (sip_set sc) (sip_empty, 0) s = Inl Out_Of_Bounds
   else \<exists>c p. conf_read SIP_BUF_SIZE sip_delims (sip_set sc) (sip_empty, 0) s = Inr (c, p) \<and>
          length (allow (account c)) = NUM_AVAILABLE_CODECS"
  using sip_steps_allow_count [of sip_empty 0 "chunks SIP_BUF_SIZE s" sc]
  unfolding conf_read_def by (auto simp: sip_empty_def sip_account_empty_def split: if_splits)

text \<open>C8: Parsing sip.conf is safe exactly as long as the file has at most nine allow lines: the
  tenth is stored one element behind the end of the array of codecs, and nothing else in the file,
  however long its lines, leads the parser out of bounds.\<close>

theorem sip_parse_overflow:
  assumes "files w FILE_SIP_CONF = Some s" and "\<not> cannot_read w FILE_SIP_CONF" and "alloc_ok w (allocs w)"
  shows "(libamg_sip_parse_config sc w = Inl Out_Of_Bounds \<longleftrightarrow> 10 \<le> allow_count (chunks SIP_BUF_SIZE s)) \<and>
    (allow_count (chunks SIP_BUF_SIZE s) < 10 \<longrightarrow>
      (\<exists>c. libamg_sip_parse_config sc w = Inr (Some c, w\<lparr>allocs := Suc (allocs w), live := live w + 1\<rparr>) \<and>
         length (allow (account c)) = NUM_AVAILABLE_CODECS))"
  using assms sip_read_allow_count [of s sc]
  by (auto simp: libamg_sip_parse_config_def world_simps f_close_def split: if_splits)

theorem sip_parse_overflow_witness:
  "libamg_sip_parse_config True (comcerto_world [FILE_SIP_CONF \<mapsto> concat (replicate 10 ''allow=gsm\<newline>'')]) =
     Inl Out_Of_Bounds"
proof -
  let ?s = "concat (replicate 10 ''allow=gsm\<newline>'')"
  have l: "''allow=gsm\<newline>'' = conf_line ''allow'' ''gsm''" by (simp add: conf_line_def)
  have "is_allow ''allow=gsm\<newline>''"
    unfolding l is_allow_def by (subst split_conf_line) (simp_all add: plain_key_simps plain_value_def)
  moreover have "chunks SIP_BUF_SIZE ?s = replicate 10 ''allow=gsm\<newline>''"
    by (rule chunks_concat) (auto simp: is_line_def)
  ultimately have "10 \<le> allow_count (chunks SIP_BUF_SIZE ?s)" by (simp add: allow_count_def)
  then show ?thesis
    using sip_parse_overflow [of "comcerto_world [FILE_SIP_CONF \<mapsto> ?s]" ?s True]
    by (simp add: comcerto_world_def)
qed

text \<open>The registration line, the longest line that the printer writes, has at most 225 bytes and
  so is read back in one piece through the parser's buffer of 256 bytes.\<close>

theorem sip_register_line_fits:
  assumes "sip_ok c"
  shows "length (sip_register_line c) \<le> 225 \<and> is_line SIP_BUF_SIZE (sip_register_line c)"
  using assms by (rule sip_register_line_length)

theorem sip_register_line_fits_witness:
  "length (sip_register_line sip_demo) \<le> 225 \<and> is_line SIP_BUF_SIZE (sip_register_line sip_demo)"
  using sip_register_line_fits [OF sip_clean_ok [OF sip_demo_clean]] .

end
