(* ===== verification/Comcerto_Save.thy ===== *)
theory Comcerto_Save
  imports Sip
begin

text \<open>
  The save function of src/comcerto.c: it writes comcerto.conf, then parses sip.conf, copies the
  jitter buffer settings into the SIP configuration and saves that. The structure that the SIP
  parser returned is neither tested for NULL nor freed.
\<close>

definition libamg_comcerto_save_config ::
    "bool \<Rightarrow> comcerto_config \<Rightarrow> world \<Rightarrow> (int \<times> world) outcome" where
  "libamg_comcerto_save_config sc conf w =
     (case fopen_w FILE_COMCERTO_CONF w of
        (False, w1) \<Rightarrow> Inr (- 1, w1)
      | (True, w1) \<Rightarrow>
          (case comcerto_prints conf of
             Inl e \<Rightarrow> Inl e
           | Inr ps \<Rightarrow>
               (case libamg_sip_parse_config sc (f_close (f_prints FILE_COMCERTO_CONF ps w1)) of
                  Inl e \<Rightarrow> Inl e
                | Inr (None, w2) \<Rightarrow> Inl Null_Deref
                | Inr (Some sip_conf, w2) \<Rightarrow>
                    (case libamg_sip_save_config sc (sip_conf\<lparr>sip_jb_conf := jb_conf conf\<rparr>) w2 of
                       Inl e \<Rightarrow> Inl e
                     | Inr (r, _, w3) \<Rightarrow> if r < 0 then Inr (- 1, w3) else Inr (0, w3)))))"

lemma conf_paths_differ: "FILE_COMCERTO_CONF \<noteq> FILE_SIP_CONF"
  by (simp add: FILE_COMCERTO_CONF_def FILE_SIP_CONF_def FILE_COMCERTO_CONF_PATH_def
      FILE_COMCERTO_CONF_NAME_def FILE_SIP_CONF_PATH_def FILE_SIP_CONF_NAME_def)

text \<open>C4: Saving the DSP configuration writes both files so that each parses to the normal form of
  what was saved, with the SIP settings kept and the jitter buffer settings taken from the DSP
  configuration; the streams are closed and exactly one heap block, the SIP structure, is lost.\<close>

theorem comcerto_save_both:
  assumes "comcerto_ok c" and "\<And>p. \<not> cannot_write w p" and "\<And>p. \<not> cannot_read w p"
    and "\<And>n. alloc_ok w n" and "files w FILE_SIP_CONF = Some s"
    and "conf_read SIP_BUF_SIZE sip_delims (sip_set sc) (sip_empty, 0) s = Inr (d, p)"
    and "sip_ok (sip_strip sc d)"
  shows "\<exists>w1 w2 w3. libamg_comcerto_save_config sc c w = Inr (0, w1) \<and>
     live w1 = live w + 1 \<and> open_files w1 = open_files w \<and>
     libamg_comcerto_parse_config w1 = Inr (Some (comcerto_norm c), w2) \<and>
     libamg_sip_parse_config sc w1 =
       Inr (Some (sip_norm sc (sip_strip sc (d\<lparr>sip_jb_conf := jb_conf c\<rparr>))), w3)"
proof -
  obtain ps where ps: "comcerto_prints c = Inr ps" using comcerto_prints_defined [OF assms(1)] by blast
  let ?d = "d\<lparr>sip_jb_conf := jb_conf c\<rparr>"
  let ?w1 = "w\<lparr>files := (files w)(FILE_COMCERTO_CONF \<mapsto> concat ps)\<rparr>"
  let ?w2 = "?w1\<lparr>allocs := Suc (allocs w), live := live w + 1\<rparr>"
  have strip: "sip_strip sc ?d = (sip_strip sc d)\<lparr>sip_jb_conf := jb_conf c\<rparr>"
    by (simp add: sip_strip_def)
  then have ok: "sip_ok (sip_strip sc ?d)" using assms(7) by (simp add: sip_ok_def)
  have parse: "libamg_sip_parse_config sc ?w1 = Inr (Some d, ?w2)"
    using assms(3-6) conf_paths_differ
    by (simp add: libamg_sip_parse_config_def world_simps f_close_def)
  obtain "is" n l where r: "length is = length (allowed (allow (account ?d)))" "\<forall>i \<in> set is. int32 i"
     "can_read FILE_COMCERTO_CONF ?w2 \<longrightarrow> l = live ?w2"
     "libamg_sip_save_config sc ?d ?w2 = Inr (0, sip_strip sc ?d,
       ?w2\<lparr>files := (files ?w2)(FILE_SIP_CONF \<mapsto> concat (sip_text_lines (sip_strip sc ?d)) @
            concat (map2 allow_line (allowed (allow (account ?d))) is)), allocs := n, live := l\<rparr>)"
    (is "_ = Inr (0, _, ?w3)")
    using sip_save_effect [OF ok, of ?w2] assms(2) by auto
  have l: "l = live w + 1" using r(3) assms(3) by (simp add: can_read_def)
  have save: "libamg_comcerto_save_config sc c w = Inr (0, ?w3)"
    using assms(2) parse r(4)
    by (simp add: libamg_comcerto_save_config_def world_simps ps del: fun_upd_apply)
  have com_file: "files ?w3 FILE_COMCERTO_CONF = Some (concat ps)" using conf_paths_differ by simp
  have com_read: "libamg_comcerto_parse_config ?w3 =
      Inr (Some (comcerto_norm c), ?w3\<lparr>allocs := Suc n, live := l + 1\<rparr>)"
    using comcerto_parse_printed [OF assms(1) ps com_file] assms(3,4) by simp
  have al: "allow (account (sip_strip sc ?d)) = allow (account ?d)" by (simp add: sip_strip_def)
  have sip_read: "\<exists>w'. libamg_sip_parse_config sc ?w3 = Inr (Some (sip_norm sc (sip_strip sc ?d)), w')"
    using sip_fresh_read [OF ok, of "is" sc] r(1,2) assms(3,4) unfolding al
    by (simp add: libamg_sip_parse_config_def world_simps)
  have "live ?w3 = live w + 1" "open_files ?w3 = open_files w" using l by simp_all
  with save com_read sip_read show ?thesis by blast
qed

theorem comcerto_save_both_witness:
  "\<exists>w1 w2. libamg_comcerto_save_config True comcerto_demo (comcerto_world [FILE_SIP_CONF \<mapsto> []]) = Inr (0, w1) \<and>
     live w1 = 1 \<and> libamg_comcerto_parse_config w1 = Inr (Some (comcerto_norm comcerto_demo), w2)"
proof -
  have "sip_ok (sip_strip True sip_empty)"
    by (simp add: sip_ok_def sip_strip_def sip_empty_def sip_account_empty_def sip_account_ok_def
        field_ok_def strip_array_eq strip_ctl_def)
  then show ?thesis
    using comcerto_save_both [OF comcerto_demo_ok, of "comcerto_world [FILE_SIP_CONF \<mapsto> []]" "[]" True sip_empty 0]
    by (fastforce simp: comcerto_world_def conf_read_def)
qed

text \<open>When sip.conf is missing, saving the DSP configuration dereferences a null pointer after
  comcerto.conf has already been overwritten.\<close>

theorem comcerto_save_without_sip:
  assumes "comcerto_ok c" and "\<not> cannot_write w FILE_COMCERTO_CONF" and "\<not> can_read FILE_SIP_CONF w"
  shows "libamg_comcerto_save_config sc c w = Inl Null_Deref"
proof -
  obtain ps where ps: "comcerto_prints c = Inr ps" using comcerto_prints_defined [OF assms(1)] by blast
  let ?w1 = "w\<lparr>files := (files w)(FILE_COMCERTO_CONF \<mapsto> concat ps)\<rparr>"
  have "\<not> can_read FILE_SIP_CONF ?w1" using assms(3) conf_paths_differ by (auto simp: can_read_def)
  then have "\<exists>w2. libamg_sip_parse_config sc ?w1 = Inr (None, w2)"
    by (cases rule: alloc_and_open_cases [of ?w1 FILE_SIP_CONF])
      (auto simp: libamg_sip_parse_config_def can_read_def)
  then show ?thesis
    using assms(2) ps by (auto simp: libamg_comcerto_save_config_def world_simps simp del: fun_upd_apply)
qed

theorem comcerto_save_without_sip_witness:
  "libamg_comcerto_save_config True comcerto_demo (comcerto_world Map.empty) = Inl Null_Deref"
  by (rule comcerto_save_without_sip [OF comcerto_demo_ok]) (simp_all add: comcerto_world_def can_read_def)

end
