(* ===== verification/Sip_Query.thy ===== *)
theory Sip_Query
  imports Comcerto_Save
begin

text \<open>
  The functions of src/sip.c that consult the running system: the shortest packet interval of the
  allowed codecs, and the registration state that asterisk prints. The regular expression of the
  latter is a sequence of repeated character classes of which neighbours are disjoint, so its
  longest match is found by taking each run in turn.
\<close>

subsection \<open>The shortest packet interval\<close>

definition get_codecs_intvl_array :: "world \<Rightarrow> (int list \<times> world) outcome" where
  "get_codecs_intvl_array w =
     (case libamg_comcerto_parse_config w of
        Inl e \<Rightarrow> Inl e
      | Inr (None, w1) \<Rightarrow> Inl Null_Deref
      | Inr (Some config, w1) \<Rightarrow>
          (let iv = codecs_intvl config in
           Inr ([0x100, g711_a iv, 0x80, g711_u iv, 0x40, g723_1 iv, 0x20, g726_16 iv, 0x10, g726_24 iv,
                 0x8, g726_32 iv, 0x4, g726_40 iv, 0x2, g729 iv, 0x1, gsm iv], c_free w1)))"

text \<open>
  The inner loop runs \<open>j\<close> over the even numbers below \<open>sizeof(codec_intvl_array)\<close>, which is 72:
  the size in bytes, not the number of elements.
\<close>

fun min_intvl_scan :: "int list \<Rightarrow> int \<Rightarrow> nat list \<Rightarrow> int \<Rightarrow> int outcome" where
  "min_intvl_scan arr a [] m = Inr m"
| "min_intvl_scan arr a (j # js) m =
     (if length arr \<le> j then Inl Out_Of_Bounds
      else if a = arr ! j then
        (if length arr \<le> j + 1 then Inl Out_Of_Bounds
         else min_intvl_scan arr a js
                (if m = 0 then arr ! (j + 1) else if m > arr ! (j + 1) then arr ! (j + 1) else m))
      else min_intvl_scan arr a js m)"

definition min_intvl_steps :: "nat list" where
  "min_intvl_steps = map (\<lambda>k. 2 * k) [0..<36]"

fun min_intvl_codecs :: "int list \<Rightarrow> int list \<Rightarrow> int \<Rightarrow> int outcome" where
  "min_intvl_codecs arr [] m = Inr m"
| "min_intvl_codecs arr (a # as) m =
     (if a = 0 then min_intvl_codecs arr as m
      else case min_intvl_scan arr a min_intvl_steps m of
          Inl e \<Rightarrow> Inl e
        | Inr m' \<Rightarrow> min_intvl_codecs arr as m')"

definition libamg_sip_get_min_codec_intvl :: "bool \<Rightarrow> world \<Rightarrow> (int \<times> world) outcome" where
  "libamg_sip_get_min_codec_intvl sc w =
     (case libamg_sip_parse_config sc w of
        Inl e \<Rightarrow> Inl e
      | Inr (sip_config, w1) \<Rightarrow>
          (case get_codecs_intvl_array w1 of
             Inl e \<Rightarrow> Inl e
           | Inr (arr, w2) \<Rightarrow>
               (case sip_config of
                  None \<Rightarrow> Inl Null_Deref
                | Some c \<Rightarrow>
                    (case min_intvl_codecs arr (allow (account c)) 0 of
                       Inl e \<Rightarrow> Inl e
                     | Inr m \<Rightarrow> Inr (m, c_free w2)))))"

lemma min_intvl_scan_out:
  "\<exists>j \<in> set js. length arr \<le> j \<Longrightarrow> min_intvl_scan arr a js m = Inl Out_Of_Bounds"
  by (induction js arbitrary: m) auto

lemma min_intvl_codecs_out:
  "length arr = 18 \<Longrightarrow> min_intvl_codecs arr as m = (if \<exists>a \<in> set as. a \<noteq> 0 then Inl Out_Of_Bounds else Inr m)"
proof (induction as)
  case Nil
  then show ?case by simp
next
  case (Cons a as)
  have "(18::nat) \<in> set min_intvl_steps" unfolding min_intvl_steps_def set_map
    by (rule image_eqI [of _ _ 9]) auto
  then have "min_intvl_scan arr a min_intvl_steps m = Inl Out_Of_Bounds"
    using Cons.prems by (intro min_intvl_scan_out) force
  with Cons show ?case by simp
qed

text \<open>C10: When both files can be read, asking for the shortest packet interval leaves the bounds of
  the local array as soon as one codec is allowed, whichever it is, and answers 0 when none is; so
  the function never returns the interval of any codec.\<close>

theorem sip_min_codec_intvl_outcome:
  assumes "libamg_sip_parse_config sc w = Inr (Some c, w1)"
    and "libamg_comcerto_parse_config w1 = Inr (Some d, w2)"
  shows "libamg_sip_get_min_codec_intvl sc w =
    (if \<exists>a \<in> set (allow (account c)). a \<noteq> 0 then Inl Out_Of_Bounds else Inr (0, c_free (c_free w2)))"
  using assms
  by (simp add: libamg_sip_get_min_codec_intvl_def get_codecs_intvl_array_def Let_def min_intvl_codecs_out)

definition sip_one_codec :: world where
  "sip_one_codec = comcerto_world [FILE_SIP_CONF \<mapsto> ''allow=gsm\<newline>'', FILE_COMCERTO_CONF \<mapsto> []]"

theorem sip_min_codec_intvl_outcome_witness:
  "libamg_sip_get_min_codec_intvl True sip_one_codec = Inl Out_Of_Bounds"
proof -
  let ?c = "sip_empty\<lparr>account := sip_account_empty\<lparr>allow := [1, 0, 0, 0, 0, 0, 0, 0, 0]\<rparr>\<rparr>"
  have l: "''allow=gsm\<newline>'' = conf_line ''allow'' ''gsm''" by (simp add: conf_line_def)
  have "chunks SIP_BUF_SIZE (concat [''allow=gsm\<newline>'']) = [''allow=gsm\<newline>'']"
    by (rule chunks_concat) (auto simp: is_line_def)
  then have "conf_read SIP_BUF_SIZE sip_delims (sip_set True) (sip_empty, 0) ''allow=gsm\<newline>'' =
      sip_set True (sip_empty, 0) ''allow'' ''gsm''"
    using sip.step_line [of "''allow''" "''gsm''" True "(sip_empty, 0)"]
    unfolding conf_read_def l [symmetric]
    by (simp add: l [symmetric] plain_key_simps plain_value_def split: sum.split)
  also have "\<dots> = Inr (?c, 1)"
    by (simp add: sip_set_def sip_allow_def sip_empty_def sip_account_empty_def
        libamg_sip_get_codec_code_def c_strncmp_eq_def numeral_eq_Suc)
  finally have "libamg_sip_parse_config True sip_one_codec =
      Inr (Some ?c, sip_one_codec\<lparr>allocs := 1, live := 1\<rparr>)" (is "_ = Inr (_, ?w1)")
    using conf_paths_differ
    by (simp add: libamg_sip_parse_config_def sip_one_codec_def comcerto_world_def world_simps f_close_def)
  moreover have "\<exists>w2. libamg_comcerto_parse_config ?w1 = Inr (Some comcerto_empty, w2)"
    using conf_paths_differ
    by (simp add: libamg_comcerto_parse_config_def sip_one_codec_def comcerto_world_def world_simps
        conf_read_def)
  ultimately show ?thesis
    using sip_min_codec_intvl_outcome [of True sip_one_codec ?c ?w1] by auto
qed

subsection \<open>The registration state\<close>

definition re_digit :: "char \<Rightarrow> bool" where
  "re_digit c \<longleftrightarrow> c_isdigit c"

definition re_upper :: "char \<Rightarrow> bool" where
  "re_upper c \<longleftrightarrow> 65 \<le> (of_char c :: nat) \<and> (of_char c :: nat) \<le> 90"

definition re_alpha :: "char \<Rightarrow> bool" where
  "re_alpha c \<longleftrightarrow> re_upper c \<or> 97 \<le> (of_char c :: nat) \<and> (of_char c :: nat) \<le> 122"

definition re_alnum :: "char \<Rightarrow> bool" where
  "re_alnum c \<longleftrightarrow> re_alpha c \<or> re_digit c"

definition re_addr :: "char \<Rightarrow> bool" where
  "re_addr c \<longleftrightarrow> re_digit c \<or> c = CHR ''.'' \<or> c = CHR '':''"

definition re_blank :: "char \<Rightarrow> bool" where
  "re_blank c \<longleftrightarrow> c = CHR 0x20 \<or> c = CHR 0x09"

text \<open>One repeated class: what is left after its run, which must not be empty.\<close>

definition re_plus :: "(char \<Rightarrow> bool) \<Rightarrow> string \<Rightarrow> string option" where
  "re_plus P s = (if takeWhile P s = [] then None else Some (dropWhile P s))"

definition re_one :: "(char \<Rightarrow> bool) \<Rightarrow> string \<Rightarrow> string option" where
  "re_one P s = (case s of [] \<Rightarrow> None | c # t \<Rightarrow> if P c then Some t else None)"

text \<open>The group \<open>([[:alpha:]]+[ ]?[[:alpha:]]*)\<close> at the start of the rest of the line.\<close>

definition re_group :: "string \<Rightarrow> string option" where
  "re_group s =
     (let a = takeWhile re_alpha s; r = dropWhile re_alpha s in
      if a = [] then None
      else case r of
          [] \<Rightarrow> Some a
        | c # t \<Rightarrow> if c = CHR 0x20 then Some (a @ c # takeWhile re_alpha t) else Some a)"

definition registry_match :: "string \<Rightarrow> string option" where
  "registry_match line =
     Option.bind (re_plus re_addr line) (\<lambda>r1. Option.bind (re_plus re_blank r1) (\<lambda>r2.
     Option.bind (re_one re_upper r2) (\<lambda>r3. Option.bind (re_plus re_blank r3) (\<lambda>r4.
     Option.bind (re_plus re_alnum r4) (\<lambda>r5. Option.bind (re_plus re_blank r5) (\<lambda>r6.
     Option.bind (re_plus re_digit r6) (\<lambda>r7. Option.bind (re_plus re_blank r7) re_group)))))))"

text \<open>\<open>strncpy(dst, s, n)\<close> on an array: the text, then NUL bytes up to \<open>n\<close>.\<close>

definition strncpy_into :: "char list \<Rightarrow> string \<Rightarrow> nat \<Rightarrow> char list outcome" where
  "strncpy_into dst s n =
     (if length dst < n then Inl Out_Of_Bounds
      else Inr (take n (s @ replicate n NUL) @ drop n dst))"

definition register_step :: "nat \<Rightarrow> char list \<Rightarrow> string \<Rightarrow> char list outcome" where
  "register_step maxlen response line =
     (case registry_match (cstr (line @ [NUL]) 0) of
        None \<Rightarrow> Inr response
      | Some state \<Rightarrow> strncpy_into response state maxlen)"

text \<open>
  \<open>pipe\<close> is what the command prints, \<open>None\<close> when \<open>popen\<close> fails; \<open>compiled\<close> is whether \<open>regcomp\<close>
  succeeded.
\<close>

definition libamg_sip_get_register ::
    "string option \<Rightarrow> bool \<Rightarrow> char list \<Rightarrow> nat \<Rightarrow> (int \<times> char list) outcome" where
  "libamg_sip_get_register pipe compiled response maxlen =
     (case pipe of
        None \<Rightarrow> Inr (- 1, response)
      | Some out \<Rightarrow>
          (if \<not> compiled then Inr (- 1, response)
           else case run_steps (register_step maxlen) response (chunks SIP_BUF_SIZE out) of
               Inl e \<Rightarrow> Inl e
             | Inr r \<Rightarrow> Inr (0, r)))"

lemma re_plus_run:
  "s \<noteq> [] \<Longrightarrow> \<forall>c \<in> set s. P c \<Longrightarrow> r = [] \<or> \<not> P (hd r) \<Longrightarrow> re_plus P (s @ r) = Some r"
  by (cases r) (auto simp: re_plus_def dropWhile_append_stop takeWhile_append_stop takeWhile_all)

lemma re_classes:
  "re_blank c \<Longrightarrow> \<not> re_addr c" "re_upper c \<Longrightarrow> \<not> re_blank c" "re_alnum c \<Longrightarrow> \<not> re_blank c"
  "re_blank c \<Longrightarrow> \<not> re_alnum c" "re_digit c \<Longrightarrow> \<not> re_blank c" "re_blank c \<Longrightarrow> \<not> re_digit c"
  "re_alpha c \<Longrightarrow> \<not> re_blank c"
  by (auto simp: re_blank_def re_addr_def re_upper_def re_alnum_def re_alpha_def re_digit_def
      c_isdigit_def)

text \<open>The shape of a line of \<open>sip show registry\<close>, one field per column.\<close>

definition registry_line :: "string \<Rightarrow> char \<Rightarrow> string \<Rightarrow> string \<Rightarrow> string \<Rightarrow> string \<Rightarrow> string" where
  "registry_line addr dnsmgr user refresh state rest =
     addr @ '' '' @ [dnsmgr] @ '' '' @ user @ '' '' @ refresh @ '' '' @ state @ '' '' @ rest"

definition registry_line_ok :: "string \<Rightarrow> char \<Rightarrow> string \<Rightarrow> string \<Rightarrow> string \<Rightarrow> bool" where
  "registry_line_ok addr dnsmgr user refresh state \<longleftrightarrow>
     addr \<noteq> [] \<and> (\<forall>c \<in> set addr. re_addr c) \<and> re_upper dnsmgr \<and> user \<noteq> [] \<and> (\<forall>c \<in> set user. re_alnum c) \<and>
     refresh \<noteq> [] \<and> (\<forall>c \<in> set refresh. re_digit c) \<and> state \<noteq> [] \<and> (\<forall>c \<in> set state. re_alpha c)"

lemma registry_line_match:
  assumes "registry_line_ok addr dnsmgr user refresh state"
  shows "registry_match (registry_line addr dnsmgr user refresh state rest) =
    Some (state @ CHR 0x20 # takeWhile re_alpha rest)"
proof -
  let ?r6 = "refresh @ '' '' @ state @ '' '' @ rest"
  let ?r4 = "user @ '' '' @ ?r6"
  let ?r2 = "dnsmgr # '' '' @ ?r4"
  have ok: "addr \<noteq> []" "\<forall>c \<in> set addr. re_addr c" "re_upper dnsmgr" "user \<noteq> []" "\<forall>c \<in> set user. re_alnum c"
      "refresh \<noteq> []" "\<forall>c \<in> set refresh. re_digit c" "state \<noteq> []" "\<forall>c \<in> set state. re_alpha c"
    using assms by (simp_all add: registry_line_ok_def)
  have b: "re_blank (CHR 0x20)" by (simp add: re_blank_def)
  note nb = re_classes(1) [OF b] re_classes(4) [OF b] re_classes(6) [OF b]
  have na: "\<not> re_alpha (CHR 0x20)" using re_classes(7) [of "CHR 0x20"] b by blast
  have "re_alnum (hd user)" "re_digit (hd refresh)" "re_alpha (hd state)"
    using ok hd_in_set by blast+
  then have h: "\<not> re_blank (hd ?r4)" "\<not> re_blank (hd ?r6)" "\<not> re_blank (hd (state @ '' '' @ rest))"
    using ok(4,6,8) re_classes(3,5,7) by (simp_all only: hd_append2 simp_thms)
  have 1: "re_plus re_addr (addr @ '' '' @ ?r2) = Some ('' '' @ ?r2)"
    using ok(1,2) nb(1) by (intro re_plus_run) simp_all
  have 2: "re_plus re_blank ('' '' @ ?r2) = Some ?r2"
    using re_classes(2) [OF ok(3)] b by (intro re_plus_run) simp_all
  have 3: "re_plus re_blank ('' '' @ ?r4) = Some ?r4" using h(1) b by (intro re_plus_run) simp_all
  have 4: "re_plus re_alnum ?r4 = Some ('' '' @ ?r6)" using ok(4,5) nb(2) by (intro re_plus_run) simp_all
  have 5: "re_plus re_blank ('' '' @ ?r6) = Some ?r6" using h(2) b by (intro re_plus_run) simp_all
  have 6: "re_plus re_digit ?r6 = Some ('' '' @ state @ '' '' @ rest)"
    using ok(6,7) nb(3) by (intro re_plus_run) simp_all
  have 7: "re_plus re_blank ('' '' @ state @ '' '' @ rest) = Some (state @ '' '' @ rest)"
    using h(3) b by (intro re_plus_run) simp_all
  have 8: "re_group (state @ '' '' @ rest) = Some (state @ CHR 0x20 # takeWhile re_alpha rest)"
    using ok(8,9) na by (simp add: re_group_def Let_def takeWhile_append_stop dropWhile_append_stop)
  have "registry_line addr dnsmgr user refresh state rest = addr @ '' '' @ ?r2"
    by (simp add: registry_line_def)
  then show ?thesis
    unfolding registry_match_def
    by (simp only: 1 2 3 4 5 6 7 8 Option.bind.simps re_one_def list.case ok(3) if_True)
qed

lemma re_not_NUL: "\<not> re_addr NUL" "\<not> re_upper NUL" "\<not> re_alnum NUL" "\<not> re_digit NUL" "\<not> re_alpha NUL"
  by (simp_all add: re_addr_def re_alnum_def re_alpha_def re_upper_def re_digit_def c_isdigit_def)

lemma registry_line_no_NUL:
  assumes "registry_line_ok addr dnsmgr user refresh state" and "NUL \<notin> set rest"
  shows "NUL \<notin> set (registry_line addr dnsmgr user refresh state rest)"
  using assms re_not_NUL by (auto simp: registry_line_ok_def registry_line_def)

text \<open>After a heading that is not a registration, a registration line puts its state into the
  response, followed by the blank that separates the columns because the pattern admits one blank
  after the first word; the response is filled with NUL bytes up to the given length, and when state
  and blank do not leave room for one, it is cut and ends without a terminator. Bytes behind that
  length stay as they were.\<close>

theorem sip_register_state:
  assumes "registry_line_ok addr dnsmgr user refresh state"
    and "NUL \<notin> set rest" and "is_line SIP_BUF_SIZE (registry_line addr dnsmgr user refresh state (CHR 0x20 # rest))"
    and "is_line SIP_BUF_SIZE heading" and "NUL \<notin> set heading" and "registry_match heading = None"
    and "maxlen \<le> length response"
  shows "libamg_sip_get_register
      (Some (heading @ registry_line addr dnsmgr user refresh state (CHR 0x20 # rest))) True response maxlen =
    Inr (0, take maxlen (state @ CHR 0x20 # replicate maxlen NUL) @ drop maxlen response)"
proof -
  let ?l = "registry_line addr dnsmgr user refresh state (CHR 0x20 # rest)"
  have ch: "chunks SIP_BUF_SIZE (heading @ ?l) = [heading, ?l]"
    using chunks_concat [of "[heading, ?l]" SIP_BUF_SIZE] assms(3,4) by auto
  have h: "cstr (heading @ [NUL]) 0 = heading" using assms(5) by (rule cstr_app_NUL)
  have l: "cstr (?l @ [NUL]) 0 = ?l"
    using assms(1,2) by (intro cstr_app_NUL registry_line_no_NUL) auto
  have na: "\<not> re_alpha (CHR 0x20)" by (simp add: re_alpha_def re_upper_def)
  have m: "registry_match ?l = Some (state @ [CHR 0x20])"
    using registry_line_match [OF assms(1), of "CHR 0x20 # rest"] na by simp
  have t: "take maxlen ((state @ [CHR 0x20]) @ replicate maxlen NUL) =
      take maxlen (state @ CHR 0x20 # replicate maxlen NUL)" by simp
  show ?thesis
    unfolding libamg_sip_get_register_def option.case ch
    using assms(6,7) by (simp add: register_step_def h l m strncpy_into_def t)
qed

theorem sip_register_state_witness:
  "libamg_sip_get_register
     (Some (''Host dnsmgr Username\<newline>'' @ registry_line ''10.0.0.1:5060'' (CHR ''N'') ''User1'' ''105'' ''Registered''
        '' Thu\<newline>'')) True (replicate 16 (CHR ''x'')) 12 =
     Inr (0, ''Registered '' @ [NUL] @ replicate 4 (CHR ''x''))"
  using sip_register_state [of "''10.0.0.1:5060''" "CHR ''N''" "''User1''" "''105''" "''Registered''" "''Thu\<newline>''"
      "''Host dnsmgr Username\<newline>''" 12 "replicate 16 (CHR ''x'')"]
  by (simp add: registry_line_ok_def registry_line_def re_addr_def re_upper_def re_alnum_def re_alpha_def
      re_digit_def c_isdigit_def is_line_def registry_match_def re_plus_def numeral_eq_Suc)

end
