(* ===== verification/Dahdi_Span.thy ===== *)
theory Dahdi_Span
  imports Conf_File Code_Tables
begin

text \<open>
  The parts of src/dahdi.c and src/dahdi.h that need no files: the structures of a span, the table of
  ISDN switch types, the alarm string of a span status, the requests to the driver, and the texts
  that name the channels of a span, as ranges and as a list of the bits of a 32-bit word.
\<close>

record libamg_dahdi_isdn =
  overlapdial :: int
  switchtype :: string

record libamg_dahdi_mfcr2 =
  get_ani_first :: int
  max_ani :: int
  max_dnis :: int
  allow_collect_calls :: int
  double_answer :: int

record libamg_dahdi_span =
  enable :: int
  channels :: int
  channels_offset :: int
  channels_bitmap :: "32 word"
  clock :: int
  crc :: int
  signalling :: int
  echocancel :: int
  isdn :: libamg_dahdi_isdn
  mfcr2 :: libamg_dahdi_mfcr2

record libamg_dahdi_config =
  spans :: "libamg_dahdi_span list"

abbreviation NUMSPANS :: nat where "NUMSPANS \<equiv> 1"

definition DAHDI_SIG_MFCR2 :: int where "DAHDI_SIG_MFCR2 = 0"
definition DAHDI_SIG_ISDN_NET :: int where "DAHDI_SIG_ISDN_NET = 1"
definition DAHDI_SIG_ISDN_CPE :: int where "DAHDI_SIG_ISDN_CPE = 2"

definition dahdi_span_zero :: libamg_dahdi_span where
  "dahdi_span_zero = \<lparr>enable = 0, channels = 0, channels_offset = 0, channels_bitmap = 0, clock = 0,
     crc = 0, signalling = 0, echocancel = 0, isdn = \<lparr>overlapdial = 0, switchtype = []\<rparr>,
     mfcr2 = \<lparr>get_ani_first = 0, max_ani = 0, max_dnis = 0, allow_collect_calls = 0, double_answer = 0\<rparr>\<rparr>"

subsection \<open>Switch types\<close>

definition libamg_dahdi_get_switchtype_name :: "int \<Rightarrow> string option" where
  "libamg_dahdi_get_switchtype_name code =
     (if code = 0x1 then Some ''euroisdn'' else if code = 0x2 then Some ''national''
      else if code = 0x4 then Some ''dms100'' else if code = 0x8 then Some ''4ess''
      else if code = 0x10 then Some ''5ess'' else if code = 0x20 then Some ''ni1''
      else if code = 0x40 then Some ''qsig'' else None)"

definition libamg_dahdi_get_switchtype_code :: "string \<Rightarrow> int" where
  "libamg_dahdi_get_switchtype_code nm =
     (if nm = ''euroisdn'' then 0x1 else if nm = ''national'' then 0x2
      else if nm = ''dms100'' then 0x4 else if nm = ''4ess'' then 0x8
      else if nm = ''5ess'' then 0x10 else if nm = ''ni1'' then 0x20
      else if nm = ''qsig'' then 0x40 else - 1)"

interpretation switchtypes: exact_code_table
  libamg_dahdi_get_switchtype_name libamg_dahdi_get_switchtype_code "- 1"
  by unfold_locales
    (auto simp: libamg_dahdi_get_switchtype_name_def libamg_dahdi_get_switchtype_code_def split: if_splits)

text \<open>A switch type name is read as a code other than the error -1 exactly when the code prints as
  that name, so the seven switch types and their names correspond one to one.\<close>

theorem dahdi_switchtypes_exact:
  assumes "code \<noteq> - 1"
  shows "libamg_dahdi_get_switchtype_code nm = code \<longleftrightarrow> libamg_dahdi_get_switchtype_name code = Some nm"
  using assms by (rule switchtypes.code_iff_name)

theorem dahdi_switchtypes_exact_witness:
  "libamg_dahdi_get_switchtype_code ''5ess'' = 0x10 \<longleftrightarrow> libamg_dahdi_get_switchtype_name 0x10 = Some ''5ess''"
  by (rule dahdi_switchtypes_exact) simp

subsection \<open>Alarms\<close>

text \<open>The masks of the status word come from the driver's header, so they are a parameter.\<close>

record alarm_masks =
  mask_los :: int
  mask_ais :: int
  mask_bfae :: int
  mask_mfae :: int
  mask_rai :: int

definition get_span_status_alarms :: "alarm_masks \<Rightarrow> int \<Rightarrow> string" where
  "get_span_status_alarms m status =
     (if and status (mask_los m) \<noteq> 0 then ''LoS''
      else if and status (mask_ais m) \<noteq> 0 then ''AIS''
      else if and status (mask_bfae m) \<noteq> 0 then ''BFAE''
      else if and status (mask_mfae m) \<noteq> 0 then ''MFAE''
      else if and status (mask_rai m) \<noteq> 0 then ''RAI''
      else ''OK'')"

text \<open>The conditions a span can be in, in order of severity.\<close>

datatype alarm = No_Alarm | Rai | Mfae | Bfae | Ais | Los

fun severity :: "alarm \<Rightarrow> nat" where
  "severity No_Alarm = 0" | "severity Rai = 1" | "severity Mfae = 2"
| "severity Bfae = 3" | "severity Ais = 4" | "severity Los = 5"

lemma severity_inj: "severity a = severity b \<Longrightarrow> a = b"
  by (cases a; cases b) simp_all

instantiation alarm :: linorder
begin

definition less_eq_alarm :: "alarm \<Rightarrow> alarm \<Rightarrow> bool" where
  "less_eq_alarm a b \<longleftrightarrow> severity a \<le> severity b"

definition less_alarm :: "alarm \<Rightarrow> alarm \<Rightarrow> bool" where
  "less_alarm a b \<longleftrightarrow> severity a < severity b"

instance
  by standard (auto simp: less_eq_alarm_def less_alarm_def intro: severity_inj)

end

fun alarm_name :: "alarm \<Rightarrow> string" where
  "alarm_name No_Alarm = ''OK''" | "alarm_name Rai = ''RAI''" | "alarm_name Mfae = ''MFAE''"
| "alarm_name Bfae = ''BFAE''" | "alarm_name Ais = ''AIS''" | "alarm_name Los = ''LoS''"

fun raised :: "alarm_masks \<Rightarrow> int \<Rightarrow> alarm \<Rightarrow> bool" where
  "raised m st No_Alarm \<longleftrightarrow> True"
| "raised m st Rai \<longleftrightarrow> and st (mask_rai m) \<noteq> 0"
| "raised m st Mfae \<longleftrightarrow> and st (mask_mfae m) \<noteq> 0"
| "raised m st Bfae \<longleftrightarrow> and st (mask_bfae m) \<noteq> 0"
| "raised m st Ais \<longleftrightarrow> and st (mask_ais m) \<noteq> 0"
| "raised m st Los \<longleftrightarrow> and st (mask_los m) \<noteq> 0"

definition worst :: "alarm_masks \<Rightarrow> int \<Rightarrow> alarm" where
  "worst m st = (if raised m st Los then Los else if raised m st Ais then Ais else if raised m st Bfae
     then Bfae else if raised m st Mfae then Mfae else if raised m st Rai then Rai else No_Alarm)"

lemma alarm_UNIV: "(UNIV :: alarm set) = {No_Alarm, Rai, Mfae, Bfae, Ais, Los}"
  using alarm.exhaust by blast

lemma worst_Max: "worst m st = Max {a. raised m st a}"
proof (rule Max_eqI [symmetric])
  have "finite (UNIV :: alarm set)" by (simp add: alarm_UNIV)
  then show "finite {a. raised m st a}" by (rule rev_finite_subset) simp
  show "a \<le> worst m st" if "a \<in> {a. raised m st a}" for a
    using that by (cases a) (auto simp: worst_def less_eq_alarm_def)
  show "worst m st \<in> {a. raised m st a}" by (auto simp: worst_def)
qed

text \<open>The alarm string of a span names the most severe condition whose bit is set in the status
  word, in the order loss of signal, alarm indication, frame errors, multiframe errors, remote
  alarm, and OK when no bit is set.\<close>

theorem dahdi_alarm_most_severe:
  "get_span_status_alarms m status = alarm_name (Max {a. raised m status a})"
  unfolding worst_Max [symmetric] by (simp add: get_span_status_alarms_def worst_def)

subsection \<open>Requests to the driver\<close>

datatype dahdi_cmd = CTD_GET_SPAN_STATS | CTD_RESET_SPAN_STATS | CTD_SPAN_AIS_GET | CTD_SPAN_AIS_SET

text \<open>
  The driver is a parameter: the result of opening its control file, and what the indirect request
  of a command on a channel answers and stores in the data it is given.
\<close>

record dahdi_driver =
  ctl_open :: int
  ctl_ioctl :: "int \<Rightarrow> dahdi_cmd \<Rightarrow> int \<Rightarrow> int \<times> int"

definition libamg_dahdi_indirect_ioctl :: "dahdi_driver \<Rightarrow> int \<Rightarrow> dahdi_cmd \<Rightarrow> int \<Rightarrow> int \<times> int" where
  "libamg_dahdi_indirect_ioctl drv span cmd data =
     (if ctl_open drv < 0 then (ctl_open drv, data) else ctl_ioctl drv (span * 31 + 1) cmd data)"

definition libamg_dahdi_ais_get :: "dahdi_driver \<Rightarrow> int \<Rightarrow> int" where
  "libamg_dahdi_ais_get drv span =
     (case libamg_dahdi_indirect_ioctl drv span CTD_SPAN_AIS_GET 0 of
        (ret, i) \<Rightarrow> if ret \<noteq> 0 then ret else if i \<noteq> 0 then 1 else 0)"

definition libamg_dahdi_ais_set :: "dahdi_driver \<Rightarrow> int \<Rightarrow> int \<Rightarrow> int" where
  "libamg_dahdi_ais_set drv span on =
     fst (libamg_dahdi_indirect_ioctl drv span CTD_SPAN_AIS_SET (if on \<noteq> 0 then 1 else 0))"

text \<open>The status words start as zero; the result of the request is not looked at.\<close>

definition libamg_dahdi_get_status :: "alarm_masks \<Rightarrow> dahdi_driver \<Rightarrow> world \<Rightarrow> (int \<times> string) list option \<times> world" where
  "libamg_dahdi_get_status m drv w =
     (case c_malloc w of
        (False, w1) \<Rightarrow> (None, w1)
      | (True, w1) \<Rightarrow>
          (Some (map (\<lambda>i. let st = snd (libamg_dahdi_indirect_ioctl drv (int i) CTD_GET_SPAN_STATS 0)
                          in (st, get_span_status_alarms m st)) [0..<NUMSPANS]), w1))"

definition libamg_dahdi_reset_status :: "dahdi_driver \<Rightarrow> int list" where
  "libamg_dahdi_reset_status drv =
     map (\<lambda>i. fst (libamg_dahdi_indirect_ioctl drv (int i) CTD_RESET_SPAN_STATS 0)) [0..<NUMSPANS]"

text \<open>When the control file of the driver cannot be opened, the status function still reports the
  span as OK, while reading the AIS state reports the error of the open.\<close>

theorem dahdi_status_hides_errors:
  assumes "ctl_open drv < 0" and "alloc_ok w (allocs w)"
  shows "fst (libamg_dahdi_get_status m drv w) = Some [(0, ''OK'')] \<and>
    libamg_dahdi_ais_get drv span = ctl_open drv"
  using assms
  by (simp add: libamg_dahdi_get_status_def libamg_dahdi_indirect_ioctl_def get_span_status_alarms_def
      libamg_dahdi_ais_get_def world_simps)

definition no_driver :: dahdi_driver where
  "no_driver = \<lparr>ctl_open = - 1, ctl_ioctl = (\<lambda>_ _ d. (0, d))\<rparr>"

definition empty_world :: world where
  "empty_world = \<lparr>files = Map.empty, cannot_read = (\<lambda>_. False), cannot_write = (\<lambda>_. False),
     shell = (\<lambda>c fs. (0, fs)), alloc_ok = (\<lambda>_. True), allocs = 0, live = 0, open_files = 0, cmds = []\<rparr>"

theorem dahdi_status_hides_errors_witness:
  "fst (libamg_dahdi_get_status \<lparr>mask_los = 1, mask_ais = 2, mask_bfae = 4, mask_mfae = 8, mask_rai = 16\<rparr>
     no_driver empty_world) = Some [(0, ''OK'')]"
  using dahdi_status_hides_errors [of no_driver empty_world] by (simp add: no_driver_def empty_world_def)

subsection \<open>Channels as ranges\<close>

definition gen_channels_line :: "int \<Rightarrow> int \<Rightarrow> string" where
  "gen_channels_line span n =
     (let offset = span * 31 + 1 in
      if n = 1 then fmt_d offset
      else if n < 16 then fmt_d offset @ ''-'' @ fmt_d (offset + n - 1)
      else if n = 16 then fmt_d offset @ ''-'' @ fmt_d (offset + 14) @ '','' @ fmt_d (offset + 16)
      else fmt_d offset @ ''-'' @ fmt_d (offset + 14) @ '','' @ fmt_d (offset + 16) @ ''-'' @
        fmt_d (offset + n))"

text \<open>\<open>%d\<close> of \<open>sscanf\<close>, and the conversions of a format whose literal characters are given in order.\<close>

definition scan_int :: "string \<Rightarrow> (int \<times> string) option" where
  "scan_int s =
     (let t = dropWhile c_isspace s;
          u = (case t of [] \<Rightarrow> [] | c # r \<Rightarrow> if c = CHR 0x2D \<or> c = CHR 0x2B then r else t)
      in if takeWhile c_isdigit u = [] then None else Some (c_atoi t, dropWhile c_isdigit u))"

fun scan_seq :: "char list \<Rightarrow> string \<Rightarrow> int list" where
  "scan_seq seps s =
     (case scan_int s of
        None \<Rightarrow> []
      | Some (x, r) \<Rightarrow>
          x # (case seps of
                 [] \<Rightarrow> []
               | c # cs \<Rightarrow> (case r of [] \<Rightarrow> [] | d # r' \<Rightarrow> if d = c then scan_seq cs r' else [])))"

declare scan_seq.simps [simp del]

definition set_span0 :: "libamg_dahdi_config \<Rightarrow> libamg_dahdi_span \<Rightarrow> libamg_dahdi_config" where
  "set_span0 conf sp = conf\<lparr>spans := (spans conf)[0 := sp]\<rparr>"

text \<open>
  Both parsers of a channel line get the first span of the configuration as \<open>span\<close>, change it in
  place and then copy it over the span that the first channel belongs to.
\<close>

definition parse_chan_dahdi_channel_line ::
    "libamg_dahdi_config \<Rightarrow> string \<Rightarrow> (int \<times> libamg_dahdi_config) outcome" where
  "parse_chan_dahdi_channel_line conf line =
     (let xs = scan_seq ''-,-'' line; span = spans conf ! 0 in
      if length xs = 0 \<or> xs ! 0 \<le> 0 then Inr (- 1, conf)
      else
        let first = xs ! 0;
            n = (if length xs = 1 then 1
                 else if length xs = 2 then xs ! 1 - first + 1
                 else if length xs = 3 then xs ! 1 - first + 2
                 else xs ! 3 - xs ! 2 + xs ! 1 - first + 2);
            span' = span\<lparr>channels := n\<rparr>;
            span_offset = nat ((first - 1) div 31)
        in if length (spans conf) \<le> span_offset then Inl Out_Of_Bounds
           else Inr (0, conf\<lparr>spans := (spans conf)[0 := span', span_offset := span']\<rparr>))"

lemma scan_int_fmt:
  assumes "int32 x" and "r = [] \<or> \<not> c_isdigit (hd r)"
  shows "scan_int (fmt_d x @ r) = Some (x, r)"
proof -
  have tw: "takeWhile c_isdigit (show_nat n @ r) = show_nat n" for n
    using assms(2) show_nat_digits [of _ n] by (cases r) (auto simp: takeWhile_append)
  have dw: "dropWhile c_isdigit (show_nat n @ r) = r" for n
    using assms(2) show_nat_digits [of _ n] by (cases r) (auto simp: dropWhile_append)
  have at: "c_atoi (fmt_d x @ r) = x" using assms by (rule atoi_fmt_d_rest)
  show ?thesis
  proof (cases "x < 0")
    case True
    then have f: "fmt_d x @ r = CHR 0x2D # show_nat (nat (- x)) @ r" by (simp add: fmt_d_def)
    show ?thesis using at unfolding f by (simp add: scan_int_def c_isspace_def tw dw)
  next
    case False
    obtain c t where ct: "show_nat (nat x) = c # t" using show_nat_nonempty by (meson neq_Nil_conv)
    then have "c_isdigit c" using show_nat_digits [of c "nat x"] by simp
    then have c: "\<not> c_isspace c" "c \<noteq> CHR 0x2D" "c \<noteq> CHR 0x2B" using digit_not_special by auto
    have f: "fmt_d x @ r = show_nat (nat x) @ r" using False by (simp add: fmt_d_def)
    then have d: "dropWhile c_isspace (fmt_d x @ r) = fmt_d x @ r" using c ct by simp
    have "(case fmt_d x @ r of [] \<Rightarrow> [] | c # q \<Rightarrow> if c = CHR 0x2D \<or> c = CHR 0x2B then q else fmt_d x @ r) =
        fmt_d x @ r" unfolding f using c ct by simp
    then show ?thesis unfolding scan_int_def Let_def d using at tw dw by (simp add: f)
  qed
qed

lemma scan_seq_last: "int32 x \<Longrightarrow> scan_seq seps (fmt_d x) = [x]"
  using scan_int_fmt [of x "[]"] by (subst scan_seq.simps) (simp split: list.split)

lemma scan_seq_sep:
  "int32 x \<Longrightarrow> \<not> c_isdigit c \<Longrightarrow> scan_seq (c # cs) (fmt_d x @ c # r) = x # scan_seq cs r"
  using scan_int_fmt [of x "c # r"] by (subst scan_seq.simps) simp

text \<open>C18: The ranges printed for a span with up to 30 or more channels are parsed back to the same
  number of channels and to the same span, around the signalling channel 16 that the ranges leave
  out; a span behind the last one of the configuration is an access out of bounds.\<close>

theorem dahdi_channel_ranges_roundtrip:
  assumes "1 \<le> n" and "0 \<le> s" and "s * 31 + n < INT_MAX - 31" and "spans conf \<noteq> []"
  shows "parse_chan_dahdi_channel_line conf (gen_channels_line s n) =
    (let span = (spans conf ! 0)\<lparr>channels := n\<rparr> in
     if length (spans conf) \<le> nat s then Inl Out_Of_Bounds
     else Inr (0, conf\<lparr>spans := (spans conf)[0 := span, nat s := span]\<rparr>))"
proof -
  have "\<not> c_isdigit (CHR 0x2D)" "\<not> c_isdigit (CHR '','')" by (simp_all add: c_isdigit_def)
  moreover have "int32 (s * 31 + 1)" "int32 (s * 31 + 1 + n - 1)" "int32 (s * 31 + 1 + 14)"
      "int32 (s * 31 + 1 + 16)" "int32 (s * 31 + 1 + n)"
    using assms(1-3) by (simp_all add: int32_def INT_MAX_def INT_MIN_def)
  ultimately have "scan_seq ''-,-'' (gen_channels_line s n) =
      (let o1 = s * 31 + 1 in
       if n = 1 then [o1] else if n < 16 then [o1, o1 + n - 1]
       else if n = 16 then [o1, o1 + 14, o1 + 16] else [o1, o1 + 14, o1 + 16, o1 + n])"
    by (simp add: gen_channels_line_def Let_def scan_seq_last scan_seq_sep)
  moreover have "(s * 31 + 1 - 1) div 31 = s" by simp
  ultimately show ?thesis
    using assms(1,2) by (simp add: parse_chan_dahdi_channel_line_def Let_def)
qed

theorem dahdi_channel_ranges_roundtrip_witness:
  "parse_chan_dahdi_channel_line \<lparr>spans = [dahdi_span_zero]\<rparr> (gen_channels_line 0 30) =
     Inr (0, \<lparr>spans = [dahdi_span_zero\<lparr>channels := 30\<rparr>]\<rparr>)"
  using dahdi_channel_ranges_roundtrip [of 30 0 "\<lparr>spans = [dahdi_span_zero]\<rparr>"]
  by (simp add: INT_MAX_def)

subsection \<open>Channels as bits\<close>

definition getBit :: "32 word \<Rightarrow> nat \<Rightarrow> int" where
  "getBit number position = (if and number (push_bit position 1) \<noteq> 0 then 1 else 0)"

fun gen_bitmap_loop :: "32 word \<Rightarrow> int \<Rightarrow> nat list \<Rightarrow> int \<Rightarrow> string \<Rightarrow> string" where
  "gen_bitmap_loop bm offset [] first line = line"
| "gen_bitmap_loop bm offset (i # is) first line =
     (if getBit bm i \<noteq> 0 then
        gen_bitmap_loop bm offset is 1
          ((if first = 0 then line else line @ '','') @ fmt_d (int i + offset))
      else gen_bitmap_loop bm offset is first line)"

definition gen_channels_bitmap_line :: "int \<Rightarrow> 32 word \<Rightarrow> string" where
  "gen_channels_bitmap_line span bm = gen_bitmap_loop bm (span * 31) [0..<32] 0 []"

definition set_channel_bit :: "libamg_dahdi_span \<Rightarrow> string \<Rightarrow> libamg_dahdi_span outcome" where
  "set_channel_bit span p =
     (let b = c_atoi p in
      if b = 0 then Inr span
      else if b < 0 \<or> 32 \<le> b then Inl Bad_Shift
      else Inr (span\<lparr>channels_bitmap := or (channels_bitmap span) (push_bit (nat b) 1)\<rparr>))"

text \<open>The tokens are those of the line; without any, \<open>atoi\<close> gets the null pointer.\<close>

definition parse_chan_dahdi_channel_bitmap_line ::
    "libamg_dahdi_config \<Rightarrow> string list \<Rightarrow> (int \<times> libamg_dahdi_config) outcome" where
  "parse_chan_dahdi_channel_bitmap_line conf toks =
     (case toks of
        [] \<Rightarrow> Inl Null_Deref
      | p # _ \<Rightarrow>
          (case run_steps set_channel_bit (spans conf ! 0) toks of
             Inl e \<Rightarrow> Inl e
           | Inr span \<Rightarrow>
               (let span_offset = nat (c_atoi p div 31) in
                if length (spans conf) \<le> span_offset then Inl Out_Of_Bounds
                else Inr (0, conf\<lparr>spans := (spans conf)[0 := span, span_offset := span]\<rparr>))))"

definition bitmap_list :: "32 word \<Rightarrow> nat list" where
  "bitmap_list bm = filter (bit bm) [0..<32]"

lemma getBit_bit: "getBit bm i \<noteq> 0 \<longleftrightarrow> bit bm i"
  by (simp add: getBit_def bit_iff_and_push_bit_not_eq_0)

lemma gen_bitmap_loop_rest:
  "gen_bitmap_loop bm off is 1 line =
     line @ concat (map (\<lambda>i. '','' @ fmt_d (int i + off)) (filter (bit bm) is))"
  by (induction "is" arbitrary: line) (simp_all add: getBit_bit)

lemma comma_join_concat: "comma_join (x # xs) = x @ concat (map (\<lambda>y. '','' @ y) xs)"
  by (induction xs arbitrary: x) simp_all

lemma gen_bitmap_loop_first:
  "gen_bitmap_loop bm off is 0 [] = comma_join (map (\<lambda>i. fmt_d (int i + off)) (filter (bit bm) is))"
proof (induction "is")
  case Nil
  then show ?case by simp
next
  case (Cons i "is")
  show ?case
  proof (cases "bit bm i")
    case True
    then show ?thesis by (simp add: getBit_bit gen_bitmap_loop_rest comma_join_concat comp_def)
  next
    case False
    then show ?thesis using Cons by (simp add: getBit_bit)
  qed
qed

lemma gen_bitmap_tokens:
  "strtok_all '','' (gen_channels_bitmap_line span bm) =
     map (\<lambda>i. fmt_d (int i + span * 31)) (bitmap_list bm)"
proof -
  have "CHR '','' \<notin> set (fmt_d x)" for x
    using fmt_d_chars [of "CHR '',''" x] by (auto simp: c_isdigit_def)
  then show ?thesis
    unfolding gen_channels_bitmap_line_def gen_bitmap_loop_first bitmap_list_def
    by (intro strtok_all_join) auto
qed

definition add_bits :: "32 word \<Rightarrow> nat list \<Rightarrow> 32 word" where
  "add_bits bm is = foldl (\<lambda>w i. if i = 0 then w else or w (push_bit i 1)) bm is"

lemma set_channel_bits:
  "\<forall>i \<in> set is. i < 32 \<Longrightarrow>
     run_steps set_channel_bit sp (map (\<lambda>i. fmt_d (int i)) is) =
       Inr (sp\<lparr>channels_bitmap := add_bits (channels_bitmap sp) is\<rparr>)"
proof (induction "is" arbitrary: sp)
  case Nil
  then show ?case by (simp add: add_bits_def)
next
  case (Cons i "is")
  have "int32 (int i)" using Cons.prems by (simp add: int32_def INT_MIN_def INT_MAX_def)
  then have "c_atoi (fmt_d (int i)) = int i" by simp
  then have "set_channel_bit sp (fmt_d (int i)) =
      Inr (if i = 0 then sp else sp\<lparr>channels_bitmap := or (channels_bitmap sp) (push_bit i 1)\<rparr>)"
    using Cons.prems by (simp add: set_channel_bit_def)
  then show ?case using Cons by (simp add: add_bits_def)
qed

lemma bit_add_bits:
  "bit (add_bits bm is) n \<longleftrightarrow> bit bm n \<or> (n \<in> set is \<and> n \<noteq> 0 \<and> n < 32)"
proof (induction "is" arbitrary: bm)
  case Nil
  then show ?case by (simp add: add_bits_def)
next
  case (Cons i "is")
  have "add_bits bm (i # is) = add_bits (if i = 0 then bm else or bm (push_bit i 1)) is"
    by (simp add: add_bits_def)
  then show ?case using Cons by (auto simp: bit_simps)
qed

lemma set_bitmap_list: "set (bitmap_list bm) = {i. bit bm i}"
  using bit_imp_le_length [of bm] by (auto simp: bitmap_list_def)

lemma add_bitmap_list: "add_bits old (bitmap_list bm) = or old (and bm (not 1))"
proof (rule bit_word_eqI)
  fix n assume "n < LENGTH(32)"
  then show "bit (add_bits old (bitmap_list bm)) n = bit (or old (and bm (not 1))) n"
    by (simp add: bit_add_bits set_bitmap_list bit_simps)
qed

definition top_channel :: "32 word" where
  "top_channel = push_bit 31 1"

lemma bit_top_channel: "bit top_channel n \<longleftrightarrow> n = 31"
  unfolding top_channel_def bit_push_bit_iff bit_1_iff by auto

text \<open>The lowest channel decides which span the parser writes to.\<close>

lemma bitmap_list_hd31: "bm \<noteq> 0 \<Longrightarrow> hd (bitmap_list bm) < 32 \<and> (hd (bitmap_list bm) = 31 \<longleftrightarrow> bm = top_channel)"
proof
  assume "bm \<noteq> 0"
  then obtain k where k: "bit bm k" by (metis bit_0_eq bit_eq_iff bot_apply bot_bool_def)
  then have ne: "bitmap_list bm \<noteq> []" using set_bitmap_list [of bm] by auto
  then have h: "bit bm (hd (bitmap_list bm))" using set_bitmap_list [of bm] hd_in_set by blast
  then show "hd (bitmap_list bm) < 32" using bit_imp_le_length by fastforce
  have s: "sorted (bitmap_list bm)" by (simp add: bitmap_list_def sorted_wrt_filter)
  show "hd (bitmap_list bm) = 31 \<longleftrightarrow> bm = top_channel"
  proof
    assume a: "hd (bitmap_list bm) = 31"
    have "bit bm n \<longleftrightarrow> n = 31" if "n < 32" for n
    proof
      assume "bit bm n"
      then have "n \<in> set (bitmap_list bm)" by (simp add: set_bitmap_list)
      then have "hd (bitmap_list bm) \<le> n" using s ne by (cases "bitmap_list bm") auto
      with a that show "n = 31" by simp
    next
      assume "n = 31"
      then show "bit bm n" using h a by simp
    qed
    then show "bm = top_channel" by (intro bit_word_eqI) (simp add: bit_top_channel)
  next
    assume "bm = top_channel"
    then have "bit bm n \<longleftrightarrow> n = 31" for n by (simp add: bit_top_channel)
    then show "hd (bitmap_list bm) = 31" using h by simp
  qed
qed

lemma parse_bitmap_printed:
  assumes "bm \<noteq> 0" and "length (spans conf) = NUMSPANS"
  shows "parse_chan_dahdi_channel_bitmap_line conf (strtok_all '','' (gen_channels_bitmap_line 0 bm)) =
    (if bm = top_channel then Inl Out_Of_Bounds
     else Inr (0, set_span0 conf ((spans conf ! 0)\<lparr>channels_bitmap :=
       or (channels_bitmap (spans conf ! 0)) (and bm (not 1))\<rparr>)))"
proof -
  have ne: "bitmap_list bm \<noteq> []"
  proof -
    obtain k where "bit bm k" using assms(1) by (metis bit_0_eq bit_eq_iff bot_apply bot_bool_def)
    then show ?thesis using set_bitmap_list [of bm] by auto
  qed
  then obtain p ps where pp: "bitmap_list bm = p # ps" by (cases "bitmap_list bm") auto
  have p: "p < 32" "p = 31 \<longleftrightarrow> bm = top_channel" using bitmap_list_hd31 [OF assms(1)] pp by auto
  have toks: "strtok_all '','' (gen_channels_bitmap_line 0 bm) = map (\<lambda>i. fmt_d (int i)) (bitmap_list bm)"
    by (simp add: gen_bitmap_tokens)
  have lt: "\<forall>i \<in> set (bitmap_list bm). i < 32" by (auto simp: bitmap_list_def)
  have "int32 (int p)" using p(1) by (simp add: int32_def INT_MIN_def INT_MAX_def)
  then have at: "nat (c_atoi (fmt_d (int p)) div 31) = (if p = 31 then 1 else 0)"
    using p(1) by simp
  have r: "run_steps set_channel_bit (spans conf ! 0) (fmt_d (int p) # map (\<lambda>i. fmt_d (int i)) ps) =
      Inr ((spans conf ! 0)\<lparr>channels_bitmap := or (channels_bitmap (spans conf ! 0)) (and bm (not 1))\<rparr>)"
    using set_channel_bits [OF lt, of "spans conf ! 0"] unfolding add_bitmap_list by (simp only: pp list.map)
  show ?thesis
    unfolding parse_chan_dahdi_channel_bitmap_line_def toks unfolding pp list.map list.case r sum.case Let_def at
    using assms(2) p(2) by (cases "p = 31") (simp_all add: set_span0_def)
qed

end
