(* ===== verification/Dahdi.thy ===== *)
theory Dahdi
  imports Dahdi_Span Sip
begin

text \<open>
  The configuration files of src/dahdi.c: /etc/dahdi/system.conf, /etc/asterisk/chan_dahdi.conf and
  the file of the AIS daemon, with their printers and parsers and the commands that apply, store and
  reset them. The compile-time switch DAHDI_CHANNEL_STANDARD_MODE, which the build files leave
  unset, is the parameter \<open>std\<close>.
\<close>

abbreviation DAHDI_BUF_SIZE :: nat where "DAHDI_BUF_SIZE \<equiv> 256"
abbreviation dahdi_delims :: string where
  "dahdi_delims \<equiv> [CHR 0x20, CHR 0x09, CHR 0x0A, CHR '';'', CHR 0x23]"

definition FILE_DAHDI_SYSTEM_CONF :: path where "FILE_DAHDI_SYSTEM_CONF = ''/etc/dahdi/system.conf''"
definition FILE_CHAN_DAHDI_CONF :: path where "FILE_CHAN_DAHDI_CONF = ''/etc/asterisk/chan_dahdi.conf''"
definition FILE_AISDAEMON_CONF :: path where "FILE_AISDAEMON_CONF = ''/etc/dahdi/aisdaemon.conf''"

definition DAHDI_SYSTEM_CONTENT :: string where
  "DAHDI_SYSTEM_CONTENT = ''loadzone=br\<newline>defaultzone=br\<newline>''"

definition CHAN_DAHDI_CONTENT :: string where
  "CHAN_DAHDI_CONTENT =
     ''[channels]\<newline>language=br\<newline>usecallerid=yes\<newline>echocancelwhenbridged=no\<newline>buffers=8,half\<newline>context=from-span1\<newline>group=1\<newline>mfcr2_variant=br\<newline>mfcr2_category=national_subscriber\<newline>mfcr2_mfback_timeout=5000\<newline>mfcr2_metering_pulse_timeout=1000\<newline>#include chan_dahdi_custom.conf\<newline>''"

subsection \<open>system.conf\<close>

definition dahdi_system_span_prints :: "nat \<Rightarrow> libamg_dahdi_span \<Rightarrow> string list" where
  "dahdi_system_span_prints i span =
     (if enable span = 0 then []
      else
        let buffer = gen_channels_line (int i) 30;
            head = (\<lambda>sig. ''span='' @ fmt_d (int i + 1) @ '','' @ fmt_d (clock span) @ '',0,'' @ sig @
                     '',hdb3'' @ (if crc span \<noteq> 0 then '',crc4'' else []) @ [LF])
        in if signalling span = DAHDI_SIG_MFCR2
           then [head ''cas'', conf_line ''cas'' (buffer @ '':1101'')]
           else [head ''ccs'', conf_line ''bchan'' buffer, conf_line ''dchan'' (fmt_d (31 * int i + 16))])"

definition dahdi_system_prints :: "libamg_dahdi_config \<Rightarrow> string list" where
  "dahdi_system_prints conf =
     DAHDI_SYSTEM_CONTENT #
     concat (map (\<lambda>i. dahdi_system_span_prints i (spans conf ! i)) [0..<NUMSPANS])"

definition libamg_dahdi_apply_system_conf :: "libamg_dahdi_config \<Rightarrow> world \<Rightarrow> int \<times> world" where
  "libamg_dahdi_apply_system_conf conf w =
     (case fopen_w FILE_DAHDI_SYSTEM_CONF w of
        (False, w1) \<Rightarrow> (- 1, w1)
      | (True, w1) \<Rightarrow> (0, f_close (f_prints FILE_DAHDI_SYSTEM_CONF (dahdi_system_prints conf) w1)))"

text \<open>
  One line of the parser. The tokens are those of the successive calls of \<open>strtok\<close>; a missing span
  number or clock is a null pointer handed to \<open>atoi\<close>.
\<close>

definition dahdi_system_step :: "libamg_dahdi_config \<Rightarrow> string \<Rightarrow> libamg_dahdi_config outcome" where
  "dahdi_system_step conf line =
     (if \<not> c_strncmp_eq (cstr (line @ [NUL]) 0) ''span='' 5 then Inr conf
      else case split_line dahdi_delims line of
          Inl e \<Rightarrow> Inl e
        | Inr None \<Rightarrow> Inl Null_Deref
        | Inr (Some (_, value)) \<Rightarrow>
            (let toks = strtok_all '','' value in
             if length toks < 1 then Inl Null_Deref
             else
               let token_int = c_atoi (toks ! 0) in
               if token_int < 1 \<or> token_int > int NUMSPANS then Inr conf
               else if length toks < 2 then Inl Null_Deref
               else
                 let s = nat (token_int - 1); clk = c_atoi (toks ! 1) in
                 if clk < 0 \<or> clk > int NUMSPANS then Inr conf
                 else Inr (conf\<lparr>spans := (spans conf)[s := (spans conf ! s)
                   \<lparr>clock := clk,
                    crc := (if 6 \<le> length toks \<and> toks ! 5 = ''crc4'' then 1 else 0), enable := 1\<rparr>]\<rparr>)))"

definition libamg_dahdi_parse_system_conf ::
    "libamg_dahdi_config \<Rightarrow> world \<Rightarrow> (int \<times> libamg_dahdi_config \<times> world) outcome" where
  "libamg_dahdi_parse_system_conf conf w =
     (case fopen_r FILE_DAHDI_SYSTEM_CONF w of
        (None, w1) \<Rightarrow> Inr (- 1, conf, w1)
      | (Some content, w1) \<Rightarrow>
          (case run_steps dahdi_system_step conf (chunks DAHDI_BUF_SIZE content) of
             Inl e \<Rightarrow> Inl e
           | Inr conf' \<Rightarrow> Inr (0, conf', f_close w1)))"

subsection \<open>chan_dahdi.conf\<close>

definition dahdi_chan_span_prints :: "bool \<Rightarrow> nat \<Rightarrow> libamg_dahdi_span \<Rightarrow> string list" where
  "dahdi_chan_span_prints std i span =
     (if enable span = 0 then []
      else
        [conf_line ''signalling''
           (if signalling span = DAHDI_SIG_ISDN_CPE then ''pri_cpe''
            else if signalling span = DAHDI_SIG_ISDN_NET then ''pri_net'' else ''mfcr2''),
         conf_line ''overlapdial'' (yes_no (overlapdial (isdn span)))] @
        print_if_text ''switchtype'' (switchtype (isdn span)) @
        [conf_line ''mfcr2_get_ani_first'' (yes_no (get_ani_first (mfcr2 span))),
         conf_line ''mfcr2_max_ani'' (fmt_d (max_ani (mfcr2 span))),
         conf_line ''mfcr2_max_dnis'' (fmt_d (max_dnis (mfcr2 span))),
         conf_line ''mfcr2_allow_collect_calls'' (yes_no (allow_collect_calls (mfcr2 span))),
         conf_line ''mfcr2_double_answer'' (yes_no (double_answer (mfcr2 span))),
         conf_line ''context'' (''from-span'' @ fmt_d (int i + 1)),
         conf_line ''group'' (fmt_d (int i + 1)),
         conf_line ''echocancel'' (yes_no (echocancel span))] @
        (if std then
           conf_line '';channels_offset'' (fmt_d (channels_offset span)) #
           (let buffer = gen_channels_line (int i) (channels span) in
            if length buffer > 0 then [conf_line ''channel'' (''>'' @ buffer)] else [])
         else if channels_bitmap span > 0 then
           (let buffer = gen_channels_bitmap_line (int i) (channels_bitmap span) in
            if length buffer > 0 then [conf_line ''channel'' (''>'' @ buffer)] else [])
         else []))"

definition dahdi_chan_prints :: "bool \<Rightarrow> libamg_dahdi_config \<Rightarrow> string list" where
  "dahdi_chan_prints std conf =
     CHAN_DAHDI_CONTENT #
     concat (map (\<lambda>i. dahdi_chan_span_prints std i (spans conf ! i)) [0..<NUMSPANS])"

definition libamg_dahdi_save_chan_dahdi_conf :: "bool \<Rightarrow> libamg_dahdi_config \<Rightarrow> world \<Rightarrow> int \<times> world" where
  "libamg_dahdi_save_chan_dahdi_conf std conf w =
     (case fopen_w FILE_CHAN_DAHDI_CONF w of
        (False, w1) \<Rightarrow> (- 1, w1)
      | (True, w1) \<Rightarrow> (0, f_close (f_prints FILE_CHAN_DAHDI_CONF (dahdi_chan_prints std conf) w1)))"

definition libamg_dahdi_save_config :: "bool \<Rightarrow> libamg_dahdi_config \<Rightarrow> world \<Rightarrow> int \<times> world" where
  "libamg_dahdi_save_config std conf w =
     (case libamg_dahdi_apply_system_conf conf w of
        (ret, w1) \<Rightarrow>
          if ret \<noteq> 0 then (ret, w1)
          else case libamg_dahdi_save_chan_dahdi_conf std conf w1 of
              (ret, w2) \<Rightarrow> if ret \<noteq> 0 then (ret, w2) else (0, w2))"

text \<open>
  The parser's line: key, cropped value and what the crop left behind its saved pointer. The latter
  matters for a channel line without a greater-than sign: its next \<open>strtok\<close> gets a null pointer and
  so goes on where the crop stopped.
\<close>

definition split_line_rest :: "string \<Rightarrow> string \<Rightarrow> (string \<times> string \<times> string) option outcome" where
  "split_line_rest delims line =
     (let buffer = line @ [NUL] in
      case c_strchr buffer 0 (CHR ''='') of
        Inl e \<Rightarrow> Inl e
      | Inr None \<Rightarrow> Inr None
      | Inr (Some _) \<Rightarrow>
          (case libamg_str_next_token buffer 0 (CHR ''='') of
             Inl e \<Rightarrow> Inl e
           | Inr (buf, None) \<Rightarrow> Inl Null_Deref
           | Inr (buf, Some v) \<Rightarrow>
               (case c_strtok buf v delims of
                  (_, buf', saved) \<Rightarrow> Inr (Some (cstr buf' 0, cstr buf' v, cstr buf' saved)))))"

definition next_token_str :: "char \<Rightarrow> string \<Rightarrow> string option" where
  "next_token_str sep v =
     (case libamg_str_next_token (v @ [NUL]) 0 sep of
        Inr (buf, Some q) \<Rightarrow> Some (cstr buf q)
      | _ \<Rightarrow> None)"

definition dahdi_set_field :: "bool \<Rightarrow> libamg_dahdi_span \<Rightarrow> string \<Rightarrow> string \<Rightarrow> libamg_dahdi_span" where
  "dahdi_set_field std span key value =
     (let i = isdn span; m = mfcr2 span in
      if key = ''signalling'' then
        span\<lparr>signalling := if value = ''pri_net'' then DAHDI_SIG_ISDN_NET
               else if value = ''pri_cpe'' then DAHDI_SIG_ISDN_CPE else DAHDI_SIG_MFCR2\<rparr>
      else if key = ''overlapdial'' then
        span\<lparr>isdn := i\<lparr>overlapdial := if value = ''no'' then 0 else 1\<rparr>\<rparr>
      else if key = ''switchtype'' then span\<lparr>isdn := i\<lparr>switchtype := c_strncpy 15 value\<rparr>\<rparr>
      else if key = ''mfcr2_get_ani_first'' then span\<lparr>mfcr2 := m\<lparr>get_ani_first := streq value ''yes''\<rparr>\<rparr>
      else if key = ''mfcr2_max_ani'' then span\<lparr>mfcr2 := m\<lparr>max_ani := c_atoi value\<rparr>\<rparr>
      else if key = ''mfcr2_max_dnis'' then span\<lparr>mfcr2 := m\<lparr>max_dnis := c_atoi value\<rparr>\<rparr>
      else if key = ''mfcr2_allow_collect_calls'' then
        span\<lparr>mfcr2 := m\<lparr>allow_collect_calls := if value = ''no'' then 0 else 1\<rparr>\<rparr>
      else if key = ''mfcr2_double_answer'' then span\<lparr>mfcr2 := m\<lparr>double_answer := streq value ''yes''\<rparr>\<rparr>
      else if key = '';channels_offset'' \<and> std then span\<lparr>channels_offset := c_atoi value\<rparr>
      else if key = ''echocancel'' then span\<lparr>echocancel := streq value ''yes''\<rparr>
      else span)"

definition dahdi_set ::
    "bool \<Rightarrow> libamg_dahdi_config \<Rightarrow> string \<Rightarrow> string \<Rightarrow> string \<Rightarrow> libamg_dahdi_config outcome" where
  "dahdi_set std conf key value rest =
     (let conf1 = set_span0 conf ((spans conf ! 0)\<lparr>enable := 1\<rparr>) in
      if key = ''channel'' then
        (case next_token_str (CHR ''>'') value of
           Some line \<Rightarrow>
             map_sum id snd (if std then parse_chan_dahdi_channel_line conf1 line
               else parse_chan_dahdi_channel_bitmap_line conf1 (strtok_all '','' line))
         | None \<Rightarrow>
             if std then Inl Null_Deref
             else map_sum id snd (parse_chan_dahdi_channel_bitmap_line conf1 (strtok_all '','' rest)))
      else Inr (set_span0 conf1 (dahdi_set_field std (spans conf1 ! 0) key value)))"

definition dahdi_step :: "bool \<Rightarrow> libamg_dahdi_config \<Rightarrow> string \<Rightarrow> libamg_dahdi_config outcome" where
  "dahdi_step std conf line =
     (case split_line_rest dahdi_delims line of
        Inl e \<Rightarrow> Inl e
      | Inr None \<Rightarrow> Inr conf
      | Inr (Some (key, value, rest)) \<Rightarrow> dahdi_set std conf key value rest)"

definition libamg_dahdi_parse_chan_dahdi_conf ::
    "bool \<Rightarrow> libamg_dahdi_config \<Rightarrow> world \<Rightarrow> (int \<times> libamg_dahdi_config \<times> world) outcome" where
  "libamg_dahdi_parse_chan_dahdi_conf std conf w =
     (case fopen_r FILE_CHAN_DAHDI_CONF w of
        (None, w1) \<Rightarrow> Inr (- 1, conf, w1)
      | (Some content, w1) \<Rightarrow>
          (case run_steps (dahdi_step std) conf (chunks DAHDI_BUF_SIZE content) of
             Inl e \<Rightarrow> Inl e
           | Inr conf' \<Rightarrow> Inr (0, conf', f_close w1)))"

definition libamg_dahdi_parse_config :: "bool \<Rightarrow> world \<Rightarrow> (libamg_dahdi_config option \<times> world) outcome" where
  "libamg_dahdi_parse_config std w =
     (case c_malloc w of
        (False, w1) \<Rightarrow> Inr (None, w1)
      | (True, w1) \<Rightarrow>
          (case libamg_dahdi_parse_chan_dahdi_conf std \<lparr>spans = replicate NUMSPANS dahdi_span_zero\<rparr> w1 of
             Inl e \<Rightarrow> Inl e
           | Inr (r1, conf1, w2) \<Rightarrow>
               if r1 \<noteq> 0 then Inr (None, c_free w2)
               else case libamg_dahdi_parse_system_conf conf1 w2 of
                   Inl e \<Rightarrow> Inl e
                 | Inr (r2, conf2, w3) \<Rightarrow>
                     if r2 \<noteq> 0 then Inr (None, c_free w3) else Inr (Some conf2, w3)))"

subsection \<open>Commands and the AIS daemon\<close>

definition libamg_dahdi_reset_config :: "world \<Rightarrow> int \<times> world" where
  "libamg_dahdi_reset_config w =
     (let (r, w1) = c_system (c_snprintf DAHDI_BUF_SIZE ''cp /etc.ro/dahdi/system.conf /etc/dahdi/'') w in
      if r < 0 then (- 1, w1)
      else c_system (c_snprintf DAHDI_BUF_SIZE ''cp /etc.ro/asterisk/chan_dahdi.conf /etc/asterisk/'') w1)"

definition libamg_dahdi_apply_config :: "world \<Rightarrow> world" where
  "libamg_dahdi_apply_config w =
     run_cmds [''/sbin/asterisk -rx '' @ quoted ''module unload libcomcerto-config.so'',
               ''/sbin/asterisk -rx '' @ quoted ''core stop now'', ''/sbin/dahdi_cfg'', ''/sbin/asterisk''] w"

definition libamg_dahdi_flash_save_config :: "world \<Rightarrow> world" where
  "libamg_dahdi_flash_save_config w =
     run_cmds [''if [ ! -d /mnt/config/asterisk ]; then mkdir /mnt/config/asterisk; fi'',
               ''if [ ! -d /mnt/config/dahdi ]; then mkdir /mnt/config/dahdi; fi'',
               ''cp '' @ FILE_DAHDI_SYSTEM_CONF @ '' /mnt/config/dahdi'',
               ''cp '' @ FILE_AISDAEMON_CONF @ '' /mnt/config/dahdi'',
               ''cp '' @ FILE_CHAN_DAHDI_CONF @ '' /mnt/config/asterisk''] w"

definition lower :: "char \<Rightarrow> char" where
  "lower c = (let n = of_char c :: nat in if 65 \<le> n \<and> n \<le> 90 then char_of (n + 32) else c)"

definition c_strncasecmp_eq :: "string \<Rightarrow> string \<Rightarrow> nat \<Rightarrow> bool" where
  "c_strncasecmp_eq s t n \<longleftrightarrow> map lower (take n s) = map lower (take n t)"

text \<open>
  The first line that begins with the key decides; \<open>ret_val\<close> has no value until a line has been
  read. \<open>compiled\<close> is whether \<open>regcomp\<close> succeeded.
\<close>

fun ais_scan :: "string list \<Rightarrow> int option \<Rightarrow> int option" where
  "ais_scan [] ret_val = ret_val"
| "ais_scan (l # ls) ret_val =
     (let s = cstr (l @ [NUL]) 0; v = drop (length ''host_keepalive='') s in
      if \<not> c_strncmp_eq s ''host_keepalive='' (length ''host_keepalive='') then ais_scan ls (Some 0)
      else if c_strncasecmp_eq v ''yes'' 3 then Some 1
      else Some 0)"

definition libamg_ais_daemon_check :: "bool \<Rightarrow> world \<Rightarrow> (int \<times> world) outcome" where
  "libamg_ais_daemon_check compiled w =
     (case fopen_r FILE_AISDAEMON_CONF w of
        (None, w1) \<Rightarrow> Inr (- 1, w1)
      | (Some content, w1) \<Rightarrow>
          if \<not> compiled then Inr (- 1, f_close w1)
          else case ais_scan (chunks (DAHDI_BUF_SIZE - 1) content) None of
              None \<Rightarrow> Inl Uninitialised
            | Some r \<Rightarrow> Inr (r, f_close w1))"

definition libamg_ais_daemon_set :: "int \<Rightarrow> world \<Rightarrow> int \<times> world" where
  "libamg_ais_daemon_set on w =
     (case fopen_w FILE_AISDAEMON_CONF w of
        (False, w1) \<Rightarrow> (- 1, w1)
      | (True, w1) \<Rightarrow>
          (0, f_close (f_print FILE_AISDAEMON_CONF (conf_line ''host_keepalive'' (yes_no on)) w1)))"

definition libamg_ais_daemon_apply_config :: "world \<Rightarrow> int \<times> world" where
  "libamg_ais_daemon_apply_config w = (0, snd (c_system ''/bin/killall -1 aisd'' w))"

subsection \<open>Reading chan_dahdi.conf back\<close>

definition dahdi_upd :: "bool \<Rightarrow> libamg_dahdi_config \<Rightarrow> string \<Rightarrow> string \<Rightarrow> libamg_dahdi_config outcome" where
  "dahdi_upd std c k v = dahdi_set std c k v []"

interpretation dahdi: conf_reader DAHDI_BUF_SIZE dahdi_delims "dahdi_upd std" for std
  by unfold_locales (auto simp: c_isdigit_def)

lemma split_line_rest_line:
  "split_line d l = map_sum id (map_option (\<lambda>(k, v, r). (k, v))) (split_line_rest d l)"
  by (auto simp: split_line_def split_line_rest_def Let_def split: sum.splits option.splits prod.splits)

lemma next_token_str_split:
  "CHR ''>'' \<notin> set x \<Longrightarrow> NUL \<notin> set (x @ y) \<Longrightarrow> next_token_str (CHR ''>'') (x @ CHR ''>'' # y) = Some y"
proof -
  assume a: "CHR ''>'' \<notin> set x" "NUL \<notin> set (x @ y)"
  have "libamg_str_next_token ((x @ CHR ''>'' # y) @ [NUL]) 0 (CHR ''>'') =
      Inr (x @ NUL # y @ [NUL], Some (Suc (length x)))"
    using next_token_some [of 0 "(x @ CHR ''>'' # y) @ [NUL]" x "CHR ''>''" "y @ [NUL]"] a
    by (simp add: list_update_append)
  moreover have "cstr (x @ NUL # y @ [NUL]) (Suc (length x)) = y"
    using a cstr_drop_app [of y "Suc (length x)" "x @ [NUL]" "[]"] by simp
  ultimately show ?thesis by (simp add: next_token_str_def)
qed

text \<open>A line that is not a bare channel line does not depend on what the crop left behind.\<close>

lemma dahdi_step_conf:
  assumes "split_line dahdi_delims l = Inr (Some (k, v))"
    and "k = ''channel'' \<Longrightarrow> next_token_str (CHR ''>'') v \<noteq> None"
  shows "dahdi_step std c l = dahdi_upd std c k v"
proof -
  obtain r where "split_line_rest dahdi_delims l = Inr (Some (k, v, r))"
    using assms(1) split_line_rest_line [of dahdi_delims l]
    by (cases "split_line_rest dahdi_delims l") (auto split: option.splits)
  then show ?thesis
    using assms(2) by (auto simp: dahdi_step_def dahdi_upd_def dahdi_set_def Let_def split: option.splits)
qed

lemma dahdi_step_plain: "CHR ''='' \<notin> set l \<Longrightarrow> dahdi_step std c l = Inr c"
  using split_line_plain [of l dahdi_delims] split_line_rest_line [of dahdi_delims l]
  by (cases "split_line_rest dahdi_delims l") (auto simp: dahdi_step_def split: option.splits)

abbreviation one_span :: "libamg_dahdi_span \<Rightarrow> libamg_dahdi_config" where
  "one_span sp \<equiv> \<lparr>spans = [sp]\<rparr>"

lemma dahdi_upd_field:
  "k \<noteq> ''channel'' \<Longrightarrow>
     dahdi_upd std (one_span sp) k v = Inr (one_span (dahdi_set_field std (sp\<lparr>enable := 1\<rparr>) k v))"
  by (simp add: dahdi_upd_def dahdi_set_def set_span0_def Let_def)

lemma dahdi_step_text:
  "plain_key k \<Longrightarrow> k \<noteq> ''channel'' \<Longrightarrow> NUL \<notin> set v \<Longrightarrow>
     dahdi_step std (one_span sp) (conf_line k v) =
       Inr (one_span (dahdi_set_field std (sp\<lparr>enable := 1\<rparr>) k (crop dahdi_delims (v @ [LF]))))"
  by (subst dahdi_step_conf [OF split_conf_line_any]) (simp_all add: dahdi_upd_field)

lemma dahdi_step_word:
  "plain_key k \<Longrightarrow> k \<noteq> ''channel'' \<Longrightarrow> plain_value dahdi_delims v \<Longrightarrow>
     dahdi_step std (one_span sp) (conf_line k v) =
       Inr (one_span (dahdi_set_field std (sp\<lparr>enable := 1\<rparr>) k v))"
  by (subst dahdi_step_conf [OF split_conf_line]) (simp_all add: dahdi_upd_field)

lemma plain_number: "plain_value dahdi_delims (fmt_d x)"
  using fmt_d_chars [of _ x] by (fastforce simp: plain_value_def c_isdigit_def)

lemma dahdi_words:
  "plain_value dahdi_delims (yes_no x)" "plain_value dahdi_delims ''yes''"
  "plain_value dahdi_delims (if b then ''pri_cpe'' else if b' then ''pri_net'' else ''mfcr2'')"
  "plain_value dahdi_delims (''from-span'' @ fmt_d x)"
  using plain_number [of x] by (auto simp: plain_value_def yes_no_def)

lemma dahdi_set_key:
  "dahdi_set_field std sp ''signalling'' v = sp\<lparr>signalling := if v = ''pri_net'' then DAHDI_SIG_ISDN_NET
     else if v = ''pri_cpe'' then DAHDI_SIG_ISDN_CPE else DAHDI_SIG_MFCR2\<rparr>"
  "dahdi_set_field std sp ''overlapdial'' v =
     sp\<lparr>isdn := (isdn sp)\<lparr>overlapdial := if v = ''no'' then 0 else 1\<rparr>\<rparr>"
  "dahdi_set_field std sp ''switchtype'' v = sp\<lparr>isdn := (isdn sp)\<lparr>switchtype := c_strncpy 15 v\<rparr>\<rparr>"
  "dahdi_set_field std sp ''mfcr2_get_ani_first'' v =
     sp\<lparr>mfcr2 := (mfcr2 sp)\<lparr>get_ani_first := streq v ''yes''\<rparr>\<rparr>"
  "dahdi_set_field std sp ''mfcr2_max_ani'' v = sp\<lparr>mfcr2 := (mfcr2 sp)\<lparr>max_ani := c_atoi v\<rparr>\<rparr>"
  "dahdi_set_field std sp ''mfcr2_max_dnis'' v = sp\<lparr>mfcr2 := (mfcr2 sp)\<lparr>max_dnis := c_atoi v\<rparr>\<rparr>"
  "dahdi_set_field std sp ''mfcr2_allow_collect_calls'' v =
     sp\<lparr>mfcr2 := (mfcr2 sp)\<lparr>allow_collect_calls := if v = ''no'' then 0 else 1\<rparr>\<rparr>"
  "dahdi_set_field std sp ''mfcr2_double_answer'' v =
     sp\<lparr>mfcr2 := (mfcr2 sp)\<lparr>double_answer := streq v ''yes''\<rparr>\<rparr>"
  "dahdi_set_field std sp ''echocancel'' v = sp\<lparr>echocancel := streq v ''yes''\<rparr>"
  by (simp_all add: dahdi_set_field_def Let_def)

lemma dahdi_set_other_key:
  "dahdi_set_field std sp ''language'' v = sp" "dahdi_set_field std sp ''usecallerid'' v = sp"
  "dahdi_set_field std sp ''echocancelwhenbridged'' v = sp" "dahdi_set_field std sp ''buffers'' v = sp"
  "dahdi_set_field std sp ''context'' v = sp" "dahdi_set_field std sp ''group'' v = sp"
  "dahdi_set_field std sp ''mfcr2_variant'' v = sp" "dahdi_set_field std sp ''mfcr2_category'' v = sp"
  "dahdi_set_field std sp ''mfcr2_mfback_timeout'' v = sp"
  "dahdi_set_field std sp ''mfcr2_metering_pulse_timeout'' v = sp"
  by (simp_all add: dahdi_set_field_def Let_def)

lemmas dahdi_context_word = dahdi_words(4) [simplified]

definition chan_dahdi_lines :: "string list" where
  "chan_dahdi_lines =
     [''[channels]\<newline>'', conf_line ''language'' ''br'', conf_line ''usecallerid'' ''yes'',
      conf_line ''echocancelwhenbridged'' ''no'', conf_line ''buffers'' ''8,half'',
      conf_line ''context'' ''from-span1'', conf_line ''group'' ''1'', conf_line ''mfcr2_variant'' ''br'',
      conf_line ''mfcr2_category'' ''national_subscriber'', conf_line ''mfcr2_mfback_timeout'' ''5000'',
      conf_line ''mfcr2_metering_pulse_timeout'' ''1000'', ''#include chan_dahdi_custom.conf\<newline>'']"

lemma chan_dahdi_text: "CHAN_DAHDI_CONTENT = concat chan_dahdi_lines"
  by (simp add: CHAN_DAHDI_CONTENT_def chan_dahdi_lines_def conf_line_def)

lemma chan_dahdi_fixed_read:
  "run_steps (dahdi_step std) (one_span sp) chan_dahdi_lines = Inr (one_span (sp\<lparr>enable := 1\<rparr>))"
  by (simp add: chan_dahdi_lines_def dahdi_step_plain dahdi_step_text plain_key_simps dahdi_set_other_key)

lemma dahdi_choice_facts:
  "((if b then ''pri_cpe'' else if b' then ''pri_net'' else ''mfcr2'') = ''pri_net'') = (\<not> b \<and> b')"
  "((if b then ''pri_cpe'' else if b' then ''pri_net'' else ''mfcr2'') = ''pri_cpe'') = b"
  "(if yes_no x = ''no'' then 0 else 1 :: int) = flag x" "streq (yes_no x) ''yes'' = flag x"
  by (simp_all add: yes_no_def flag_def streq_def)

text \<open>What a span becomes when both files are written and read again.\<close>

definition dahdi_chan_norm :: "libamg_dahdi_span \<Rightarrow> libamg_dahdi_span" where
  "dahdi_chan_norm sp =
     \<lparr>enable = 1, channels = 0, channels_offset = 0, channels_bitmap = and (channels_bitmap sp) (not 1),
      clock = 0, crc = 0,
      signalling = (if signalling sp = DAHDI_SIG_ISDN_CPE \<or> signalling sp = DAHDI_SIG_ISDN_NET
                    then signalling sp else DAHDI_SIG_MFCR2),
      echocancel = flag (echocancel sp),
      isdn = \<lparr>overlapdial = flag (overlapdial (isdn sp)),
        switchtype = (if switchtype (isdn sp) = [] then []
                      else c_strncpy 15 (crop dahdi_delims (switchtype (isdn sp) @ [LF])))\<rparr>,
      mfcr2 = \<lparr>get_ani_first = flag (get_ani_first (mfcr2 sp)), max_ani = max_ani (mfcr2 sp),
        max_dnis = max_dnis (mfcr2 sp), allow_collect_calls = flag (allow_collect_calls (mfcr2 sp)),
        double_answer = flag (double_answer (mfcr2 sp))\<rparr>\<rparr>"

definition dahdi_norm :: "libamg_dahdi_span \<Rightarrow> libamg_dahdi_span" where
  "dahdi_norm sp =
     (if 0 \<le> clock sp \<and> clock sp \<le> int NUMSPANS
      then (dahdi_chan_norm sp)\<lparr>clock := clock sp, crc := flag (crc sp)\<rparr> else dahdi_chan_norm sp)"

definition dahdi_span_ok :: "libamg_dahdi_span \<Rightarrow> bool" where
  "dahdi_span_ok sp \<longleftrightarrow> field_ok 15 (switchtype (isdn sp)) \<and> int32 (max_ani (mfcr2 sp)) \<and>
     int32 (max_dnis (mfcr2 sp)) \<and> int32 (clock sp)"

lemma dahdi_fields_read:
  assumes "dahdi_span_ok sp" and "enable sp \<noteq> 0"
  shows "run_steps (dahdi_step False) (one_span (dahdi_span_zero\<lparr>enable := 1\<rparr>))
      (dahdi_chan_span_prints False 0 (sp\<lparr>channels_bitmap := 0\<rparr>)) =
    Inr (one_span ((dahdi_chan_norm sp)\<lparr>channels_bitmap := 0\<rparr>))"
proof -
  have sw: "run_steps (dahdi_step False) (one_span d) (print_if_text ''switchtype'' v) =
      Inr (one_span (d\<lparr>isdn := (isdn d)\<lparr>switchtype := if v = [] then []
        else c_strncpy 15 (crop dahdi_delims (v @ [LF]))\<rparr>\<rparr>))"
    if "enable d = 1" "switchtype (isdn d) = []" "NUL \<notin> set v" for d v
    using that by (simp add: print_if_text_def dahdi_step_text plain_key_simps dahdi_set_key)
  have nul: "NUL \<notin> set (switchtype (isdn sp))" using assms(1) by (simp add: dahdi_span_ok_def field_ok_def)
  show ?thesis
    using assms
    by (simp add: dahdi_chan_span_prints_def run_steps_append sw nul dahdi_step_word plain_key_simps
        dahdi_words dahdi_context_word plain_number dahdi_set_key dahdi_set_other_key dahdi_choice_facts
        dahdi_span_zero_def dahdi_chan_norm_def dahdi_span_ok_def
        DAHDI_SIG_ISDN_CPE_def DAHDI_SIG_ISDN_NET_def DAHDI_SIG_MFCR2_def split del: if_split)
      (auto simp: DAHDI_SIG_ISDN_CPE_def DAHDI_SIG_ISDN_NET_def)
qed

lemma set_comma_join: "set (comma_join xs) \<subseteq> insert (CHR '','') (\<Union>x \<in> set xs. set x)"
  by (induction xs rule: comma_join.induct) auto

lemma bitmap_line_chars:
  "c \<in> set (gen_channels_bitmap_line 0 bm) \<Longrightarrow> c_isdigit c \<or> c = CHR 0x2D \<or> c = CHR '',''"
  using set_comma_join [of "map (\<lambda>i. fmt_d (int i + 0)) (filter (bit bm) [0..<32])"] fmt_d_chars
  unfolding gen_channels_bitmap_line_def gen_bitmap_loop_first by fastforce

lemma bitmap_line_length: "length (gen_channels_bitmap_line 0 bm) \<le> 99"
proof -
  have two: "length (fmt_d (int i)) \<le> 2" if "i < 32" for i
  proof -
    have "length (show_nat i) \<le> 2" using that by (intro show_nat_length) auto
    then show ?thesis by (simp add: fmt_d_def)
  qed
  have join: "length (comma_join xs) \<le> 3 * length xs" if "\<forall>x \<in> set xs. length x \<le> 2" for xs :: "string list"
    using that by (induction xs rule: comma_join.induct) auto
  have "length (comma_join (map (\<lambda>i. fmt_d (int i + 0)) (filter (bit bm) [0..<32]))) \<le>
      3 * length (filter (bit bm) [0..<32])"
    using two by (intro order.trans [OF join]) auto
  also have "\<dots> \<le> 99" using length_filter_le [of "bit bm" "[0..<32]"] by simp
  finally show ?thesis by (simp add: gen_channels_bitmap_line_def gen_bitmap_loop_first)
qed

lemma bitmap_line_nonempty: "bm \<noteq> 0 \<Longrightarrow> gen_channels_bitmap_line 0 bm \<noteq> []"
proof
  assume "bm \<noteq> 0" and e: "gen_channels_bitmap_line 0 bm = []"
  then obtain k where "bit bm k" by (metis bit_0_eq bit_eq_iff bot_apply bot_bool_def)
  then have "bitmap_list bm \<noteq> []" using set_bitmap_list [of bm] by auto
  then show False using gen_bitmap_tokens [of 0 bm] e by simp
qed

lemma dahdi_channel_step:
  assumes "bm \<noteq> 0"
  shows "dahdi_step False (one_span d) (conf_line ''channel'' (''>'' @ gen_channels_bitmap_line 0 bm)) =
    (if bm = top_channel then Inl Out_Of_Bounds
     else Inr (one_span (d\<lparr>enable := 1, channels_bitmap := or (channels_bitmap d) (and bm (not 1))\<rparr>)))"
proof -
  let ?g = "gen_channels_bitmap_line 0 bm"
  have pv: "plain_value dahdi_delims (''>'' @ ?g)"
    using bitmap_line_chars [of _ bm] by (fastforce simp: plain_value_def c_isdigit_def)
  then have "NUL \<notin> set ?g" by (auto simp: plain_value_def)
  then have nt: "next_token_str (CHR ''>'') (''>'' @ ?g) = Some ?g"
    using next_token_str_split [of "[]" ?g] by simp
  have "dahdi_step False (one_span d) (conf_line ''channel'' (''>'' @ ?g)) =
      dahdi_upd False (one_span d) ''channel'' (''>'' @ ?g)"
    using pv nt by (intro dahdi_step_conf split_conf_line) (simp_all add: plain_key_simps)
  also have "\<dots> = map_sum id snd (parse_chan_dahdi_channel_bitmap_line (one_span (d\<lparr>enable := 1\<rparr>)) (strtok_all '','' ?g))"
    using nt by (simp add: dahdi_upd_def dahdi_set_def set_span0_def Let_def)
  finally show ?thesis using parse_bitmap_printed [OF assms, of "one_span (d\<lparr>enable := 1\<rparr>)"]
    by (simp add: set_span0_def)
qed

lemma dahdi_chan_span_split:
  "enable sp \<noteq> 0 \<Longrightarrow> dahdi_chan_span_prints False 0 sp =
     dahdi_chan_span_prints False 0 (sp\<lparr>channels_bitmap := 0\<rparr>) @
     (if channels_bitmap sp = 0 then []
      else [conf_line ''channel'' (''>'' @ gen_channels_bitmap_line 0 (channels_bitmap sp))])"
  using bitmap_line_nonempty [of "channels_bitmap sp"]
  by (simp add: dahdi_chan_span_prints_def word_gt_0)

definition chan_dahdi_text_lines :: "libamg_dahdi_span \<Rightarrow> string list" where
  "chan_dahdi_text_lines sp = chan_dahdi_lines @ dahdi_chan_span_prints False 0 sp"

lemma chan_dahdi_prints_concat:
  "concat (dahdi_chan_prints False (one_span sp)) = concat (chan_dahdi_text_lines sp)"
  by (simp add: dahdi_chan_prints_def chan_dahdi_text_lines_def chan_dahdi_text)

lemma chan_dahdi_read:
  assumes "dahdi_span_ok sp" and "enable sp \<noteq> 0"
  shows "run_steps (dahdi_step False) (one_span dahdi_span_zero) (chan_dahdi_text_lines sp) =
    (if channels_bitmap sp = top_channel then Inl Out_Of_Bounds else Inr (one_span (dahdi_chan_norm sp)))"
proof -
  have e: "(dahdi_chan_norm sp)\<lparr>channels_bitmap := 0, enable := 1, channels_bitmap := or 0 (and b (not 1))\<rparr> =
      (dahdi_chan_norm sp)\<lparr>channels_bitmap := and b (not 1)\<rparr>" for b
    by (simp add: dahdi_chan_norm_def)
  have n: "(dahdi_chan_norm sp)\<lparr>channels_bitmap := and (channels_bitmap sp) (not 1)\<rparr> = dahdi_chan_norm sp"
    by (simp add: dahdi_chan_norm_def)
  have t: "top_channel \<noteq> 0" using bit_top_channel [of 31] by auto
  show ?thesis
    unfolding chan_dahdi_text_lines_def dahdi_chan_span_split [OF assms(2)]
    unfolding run_steps_append chan_dahdi_fixed_read sum.case dahdi_fields_read [OF assms]
    using dahdi_channel_step [of "channels_bitmap sp" "(dahdi_chan_norm sp)\<lparr>channels_bitmap := 0\<rparr>"] n t
    by (cases "channels_bitmap sp = 0") (auto simp: run_steps_single dahdi_chan_norm_def)
qed

lemma chan_dahdi_lines_ok:
  assumes "dahdi_span_ok sp" and "l \<in> set (chan_dahdi_text_lines sp)"
  shows "is_line DAHDI_BUF_SIZE l"
proof -
  have d: "is_line DAHDI_BUF_SIZE (conf_line k (fmt_d x))" if "plain_key k" "length k \<le> 20" "int32 x" for k x
    using that fmt_d_length [of x] by (auto intro!: conf_line_is_line simp: conf_simps)
  have yn: "is_line DAHDI_BUF_SIZE (conf_line k (yes_no x))" if "plain_key k" "length k \<le> 30" for k x
    using that yes_no_length [of x] by (auto intro!: conf_line_is_line simp: conf_simps)
  have lit: "is_line DAHDI_BUF_SIZE (conf_line k v)" if "plain_key k" "length k \<le> 20" "LF \<notin> set v" "length v \<le> 30"
    for k v using that by (auto intro!: conf_line_is_line)
  have one: "int32 1" by (simp add: int32_def INT_MIN_def INT_MAX_def)
  have g: "is_line DAHDI_BUF_SIZE (conf_line ''channel'' (CHR ''>'' # gen_channels_bitmap_line 0 b))" for b
    using bitmap_line_chars [of LF b] bitmap_line_length [of b]
    by (intro conf_line_is_line) (auto simp: plain_key_simps c_isdigit_def)
  consider "l \<in> set chan_dahdi_lines" | "l \<in> set (dahdi_chan_span_prints False 0 sp)"
    using assms(2) by (auto simp: chan_dahdi_text_lines_def)
  then show ?thesis
  proof cases
    case 1
    then show ?thesis by (auto simp: chan_dahdi_lines_def conf_line_def is_line_def)
  next
    case 2
    have "length (''from-span'' @ fmt_d 1) \<le> 30" "LF \<notin> set (''from-span'' @ fmt_d 1)"
      using fmt_d_length [OF one] by (auto simp: conf_simps)
    with 2 assms(1) one show ?thesis
      by (auto simp: dahdi_chan_span_prints_def print_if_text_def dahdi_span_ok_def field_ok_def
          plain_key_simps Let_def intro!: d yn lit g split: if_splits)
  qed
qed

subsection \<open>Reading system.conf back\<close>

definition span_tokens :: "libamg_dahdi_span \<Rightarrow> string \<Rightarrow> string list" where
  "span_tokens sp sig =
     [fmt_d 1, fmt_d (clock sp), ''0'', sig, ''hdb3''] @ (if crc sp \<noteq> 0 then [''crc4''] else [])"

definition dahdi_system_lines :: "libamg_dahdi_span \<Rightarrow> string list" where
  "dahdi_system_lines sp =
     [conf_line ''loadzone'' ''br'', conf_line ''defaultzone'' ''br''] @
     (if signalling sp = DAHDI_SIG_MFCR2
      then [conf_line ''span'' (comma_join (span_tokens sp ''cas'')),
            conf_line ''cas'' (gen_channels_line 0 30 @ '':1101'')]
      else [conf_line ''span'' (comma_join (span_tokens sp ''ccs'')),
            conf_line ''bchan'' (gen_channels_line 0 30), conf_line ''dchan'' (fmt_d 16)])"

lemma dahdi_system_concat:
  "enable sp \<noteq> 0 \<Longrightarrow> concat (dahdi_system_prints (one_span sp)) = concat (dahdi_system_lines sp)"
  by (simp add: dahdi_system_prints_def dahdi_system_span_prints_def dahdi_system_lines_def
      DAHDI_SYSTEM_CONTENT_def span_tokens_def Let_def conf_line_def)

lemma not_span_step: "c \<noteq> CHR ''s'' \<Longrightarrow> dahdi_system_step d (conf_line (c # k) v) = Inr d"
  by (simp add: dahdi_system_step_def c_strncmp_eq_def conf_line_def cstr_def numeral_eq_Suc)

lemma span_tokens_ok:
  assumes "sig = ''cas'' \<or> sig = ''ccs''"
  shows "\<forall>x \<in> set (span_tokens sp sig). x \<noteq> [] \<and> CHR '','' \<notin> set x"
    and "plain_value dahdi_delims (comma_join (span_tokens sp sig))"
proof -
  have f: "CHR '','' \<notin> set (fmt_d x)" for x
    using fmt_d_chars [of "CHR '',''" x] by (auto simp: c_isdigit_def)
  show "\<forall>x \<in> set (span_tokens sp sig). x \<noteq> [] \<and> CHR '','' \<notin> set x"
    using assms f by (auto simp: span_tokens_def)
  have n: "\<forall>c \<in> set (fmt_d x). c \<notin> set dahdi_delims \<and> c \<noteq> NUL" for x
    using plain_number [of x] unfolding plain_value_def by (rule conjunct2)
  have s: "\<forall>c \<in> set sig. c \<notin> set dahdi_delims \<and> c \<noteq> NUL" using assms by (elim disjE) simp_all
  have "\<forall>x \<in> set (span_tokens sp sig). \<forall>c \<in> set x. c \<notin> set dahdi_delims \<and> c \<noteq> NUL"
    using n [of 1] n [of "clock sp"] s unfolding span_tokens_def by simp
  then have "\<forall>c \<in> set (comma_join (span_tokens sp sig)). c \<notin> set dahdi_delims \<and> c \<noteq> NUL"
    using set_comma_join [of "span_tokens sp sig"] by fastforce
  then show "plain_value dahdi_delims (comma_join (span_tokens sp sig))"
    by (simp add: plain_value_def span_tokens_def)
qed

lemma span_step:
  assumes "sig = ''cas'' \<or> sig = ''ccs''" and "int32 (clock sp)"
  shows "dahdi_system_step (one_span d) (conf_line ''span'' (comma_join (span_tokens sp sig))) =
    Inr (if 0 \<le> clock sp \<and> clock sp \<le> int NUMSPANS
         then one_span (d\<lparr>clock := clock sp, crc := flag (crc sp), enable := 1\<rparr>) else one_span d)"
proof -
  let ?v = "comma_join (span_tokens sp sig)"
  have one: "c_atoi (fmt_d 1) = 1" by (rule atoi_fmt_d) (simp add: int32_def INT_MIN_def INT_MAX_def)
  have "c_strncmp_eq (cstr (conf_line ''span'' ?v @ [NUL]) 0) ''span='' 5"
    by (simp add: c_strncmp_eq_def conf_line_def cstr_def)
  moreover have "split_line dahdi_delims (conf_line ''span'' ?v) = Inr (Some (''span'', ?v))"
    using span_tokens_ok(2) [OF assms(1)] by (intro split_conf_line) (simp_all add: plain_key_simps)
  moreover have "strtok_all '','' ?v = span_tokens sp sig"
    using span_tokens_ok(1) [OF assms(1)] by (rule strtok_all_join)
  moreover have "c_atoi (span_tokens sp sig ! 0) = 1" "c_atoi (span_tokens sp sig ! 1) = clock sp"
    using one assms(2) by (simp_all add: span_tokens_def)
  moreover have "2 \<le> length (span_tokens sp sig)" by (simp add: span_tokens_def)
  moreover have "(if 6 \<le> length (span_tokens sp sig) \<and> span_tokens sp sig ! 5 = ''crc4'' then 1 else 0) = flag (crc sp)"
    by (simp add: span_tokens_def flag_def numeral_eq_Suc)
  ultimately show ?thesis by (auto simp: dahdi_system_step_def Let_def)
qed

lemma dahdi_system_read:
  assumes "int32 (clock sp)"
  shows "run_steps dahdi_system_step (one_span d) (dahdi_system_lines sp) =
    Inr (if 0 \<le> clock sp \<and> clock sp \<le> int NUMSPANS
         then one_span (d\<lparr>clock := clock sp, crc := flag (crc sp), enable := 1\<rparr>) else one_span d)"
  by (simp add: dahdi_system_lines_def not_span_step span_step assms)

lemma dahdi_system_lines_ok:
  assumes "int32 (clock sp)" and "l \<in> set (dahdi_system_lines sp)"
  shows "is_line DAHDI_BUF_SIZE l"
proof -
  have num: "int32 x" if "0 \<le> x" "x \<le> 100" for x using that by (simp add: int32_def INT_MIN_def INT_MAX_def)
  have f: "length (fmt_d x) \<le> 11" if "int32 x" for x using that by (rule fmt_d_length)
  have tok: "is_line DAHDI_BUF_SIZE (conf_line ''span'' (comma_join (span_tokens sp sig)))"
    if "sig = ''cas'' \<or> sig = ''ccs''" for sig
  proof -
    have "LF \<notin> set (comma_join (span_tokens sp sig))" using span_tokens_ok(2) [OF that, of sp] by (auto simp: plain_value_def)
    moreover have "length (comma_join (span_tokens sp sig)) \<le> 50"
      using that f [OF assms(1)] f [OF num [of 1]] by (auto simp: span_tokens_def)
    ultimately show ?thesis by (intro conf_line_is_line) (simp_all add: plain_key_simps)
  qed
  have g: "length (gen_channels_line 0 30) \<le> 47" "LF \<notin> set (gen_channels_line 0 30)"
    using f [OF num [of 1]] f [OF num [of 15]] f [OF num [of 17]] f [OF num [of 31]]
    by (auto simp: gen_channels_line_def conf_simps)
  have lit: "is_line DAHDI_BUF_SIZE (conf_line k v)" if "plain_key k" "length k \<le> 20" "LF \<notin> set v" "length v \<le> 60"
    for k v using that by (auto intro!: conf_line_is_line)
  have fixed: "is_line DAHDI_BUF_SIZE (conf_line ''loadzone'' ''br'')"
      "is_line DAHDI_BUF_SIZE (conf_line ''defaultzone'' ''br'')"
      "is_line DAHDI_BUF_SIZE (conf_line ''cas'' (gen_channels_line 0 30 @ '':1101''))"
      "is_line DAHDI_BUF_SIZE (conf_line ''bchan'' (gen_channels_line 0 30))"
      "is_line DAHDI_BUF_SIZE (conf_line ''dchan'' (fmt_d 16))"
    using g f [OF num [of 16]] by (auto intro!: lit simp: plain_key_simps conf_simps)
  have "\<forall>l \<in> set (dahdi_system_lines sp). is_line DAHDI_BUF_SIZE l"
    using fixed tok [of "''cas''"] tok [of "''ccs''"] unfolding dahdi_system_lines_def by simp
  then show ?thesis using assms(2) by blast
qed

subsection \<open>Properties\<close>

lemma dahdi_paths_differ: "FILE_CHAN_DAHDI_CONF \<noteq> FILE_DAHDI_SYSTEM_CONF"
  by (simp add: FILE_CHAN_DAHDI_CONF_def FILE_DAHDI_SYSTEM_CONF_def)

lemma dahdi_write_effects:
  "\<not> cannot_write w FILE_DAHDI_SYSTEM_CONF \<Longrightarrow> libamg_dahdi_apply_system_conf conf w =
     (0, w\<lparr>files := (files w)(FILE_DAHDI_SYSTEM_CONF \<mapsto> concat (dahdi_system_prints conf))\<rparr>)"
  "\<not> cannot_write w FILE_CHAN_DAHDI_CONF \<Longrightarrow> libamg_dahdi_save_chan_dahdi_conf std conf w =
     (0, w\<lparr>files := (files w)(FILE_CHAN_DAHDI_CONF \<mapsto> concat (dahdi_chan_prints std conf))\<rparr>)"
  by (simp_all add: libamg_dahdi_apply_system_conf_def libamg_dahdi_save_chan_dahdi_conf_def world_simps)

lemma dahdi_save_effect:
  assumes "\<And>p. \<not> cannot_write w p"
  shows "libamg_dahdi_save_config std conf w =
    (0, w\<lparr>files := (files w)(FILE_DAHDI_SYSTEM_CONF \<mapsto> concat (dahdi_system_prints conf),
          FILE_CHAN_DAHDI_CONF \<mapsto> concat (dahdi_chan_prints std conf))\<rparr>)"
  using assms by (simp add: libamg_dahdi_save_config_def dahdi_write_effects del: fun_upd_apply)

definition dahdi_saved :: "libamg_dahdi_span \<Rightarrow> world \<Rightarrow> bool" where
  "dahdi_saved sp w \<longleftrightarrow> files w FILE_DAHDI_SYSTEM_CONF = Some (concat (dahdi_system_lines sp)) \<and>
     files w FILE_CHAN_DAHDI_CONF = Some (concat (chan_dahdi_text_lines sp))"

lemma dahdi_parse_saved:
  assumes "dahdi_span_ok sp" and "enable sp \<noteq> 0" and "\<And>p. \<not> cannot_read w p"
    and "alloc_ok w (allocs w)" and "dahdi_saved sp w"
  shows "libamg_dahdi_parse_config False w =
    (if channels_bitmap sp = top_channel then Inl Out_Of_Bounds
     else Inr (Some (one_span (dahdi_norm sp)), w\<lparr>allocs := Suc (allocs w), live := live w + 1\<rparr>))"
proof -
  have clk: "int32 (clock sp)" using assms(1) by (simp add: dahdi_span_ok_def)
  have c: "chunks DAHDI_BUF_SIZE (concat (chan_dahdi_text_lines sp)) = chan_dahdi_text_lines sp"
    using chan_dahdi_lines_ok [OF assms(1)] by (rule chunks_concat)
  have s: "chunks DAHDI_BUF_SIZE (concat (dahdi_system_lines sp)) = dahdi_system_lines sp"
    using dahdi_system_lines_ok [OF clk] by (rule chunks_concat)
  have n: "(if 0 \<le> clock sp \<and> clock sp \<le> int NUMSPANS
      then one_span ((dahdi_chan_norm sp)\<lparr>clock := clock sp, crc := flag (crc sp), enable := 1\<rparr>)
      else one_span (dahdi_chan_norm sp)) = one_span (dahdi_norm sp)"
    by (simp add: dahdi_norm_def dahdi_chan_norm_def)
  show ?thesis
    using assms(3-5) chan_dahdi_read [OF assms(1,2)] dahdi_system_read [OF clk, of "dahdi_chan_norm sp"] n
    by (simp add: libamg_dahdi_parse_config_def libamg_dahdi_parse_chan_dahdi_conf_def
        libamg_dahdi_parse_system_conf_def dahdi_saved_def world_simps c s f_close_def)
qed

text \<open>C3: Saving an enabled span, compiled without \<open>DAHDI_CHANNEL_STANDARD_MODE\<close>, and parsing both files gives its
  normal form \<open>dahdi_norm\<close>: the signalling (anything but the two of ISDN counts as MFC/R2), the channel bits from
  1 on, the MFC/R2 and ISDN parameters and the echo canceller come back, with flags made 0 or 1 and the switch type
  cut at a blank. Bit 0 is lost, and so are the number of channels and their offset, which the files do not hold
  (the parser leaves 0); clock and CRC come back when the clock source is 0 or 1 and are both 0 otherwise. Saving
  loses no memory and no stream, and the parser leaves the block that it returns. If channel 31 is the only
  channel, the parser writes behind the array of spans instead.\<close>

theorem dahdi_save_parse:
  assumes "dahdi_span_ok sp" and "enable sp \<noteq> 0" and "\<And>p. \<not> cannot_read w p"
    and "\<And>p. \<not> cannot_write w p" and "alloc_ok w (allocs w)"
  shows "\<exists>w1. libamg_dahdi_save_config False (one_span sp) w = (0, w1) \<and>
    live w1 = live w \<and> open_files w1 = open_files w \<and>
    libamg_dahdi_parse_config False w1 =
      (if channels_bitmap sp = top_channel then Inl Out_Of_Bounds
       else Inr (Some (one_span (dahdi_norm sp)), w1\<lparr>allocs := Suc (allocs w), live := live w + 1\<rparr>))"
proof -
  let ?w1 = "w\<lparr>files := (files w)(FILE_DAHDI_SYSTEM_CONF \<mapsto> concat (dahdi_system_lines sp),
          FILE_CHAN_DAHDI_CONF \<mapsto> concat (chan_dahdi_text_lines sp))\<rparr>"
  have "dahdi_saved sp ?w1" using dahdi_paths_differ by (simp add: dahdi_saved_def)
  then have "libamg_dahdi_parse_config False ?w1 =
      (if channels_bitmap sp = top_channel then Inl Out_Of_Bounds
       else Inr (Some (one_span (dahdi_norm sp)), ?w1\<lparr>allocs := Suc (allocs w), live := live w + 1\<rparr>))"
    using dahdi_parse_saved [OF assms(1,2), of ?w1] assms(3,5) by simp
  moreover have "libamg_dahdi_save_config False (one_span sp) w = (0, ?w1)"
    using dahdi_save_effect [OF assms(4)] dahdi_system_concat [OF assms(2)] chan_dahdi_prints_concat by simp
  ultimately show ?thesis by (intro exI [of _ ?w1]) simp
qed

definition dahdi_demo :: libamg_dahdi_span where
  "dahdi_demo = dahdi_span_zero\<lparr>enable := 1, channels_bitmap := 0x8000FFFE, clock := 1, crc := 1,
     signalling := 2, isdn := \<lparr>overlapdial = 1, switchtype = ''euroisdn''\<rparr>\<rparr>"

lemma dahdi_demo_ok: "dahdi_span_ok dahdi_demo"
  by (simp add: dahdi_span_ok_def dahdi_demo_def dahdi_span_zero_def field_ok_def int32_def INT_MIN_def INT_MAX_def)

theorem dahdi_save_parse_witness:
  "\<exists>w1 w2 sp. libamg_dahdi_save_config False (one_span dahdi_demo) empty_world = (0, w1) \<and>
     libamg_dahdi_parse_config False w1 = Inr (Some (one_span sp), w2) \<and>
     channels_bitmap sp = 0x8000FFFE \<and> clock sp = 1 \<and> crc sp = 1"
proof -
  have "channels_bitmap dahdi_demo \<noteq> top_channel"
    using bit_top_channel [of 1] by (auto simp: dahdi_demo_def dest: arg_cong [of _ _ "\<lambda>w. bit w 1"])
  then show ?thesis
    using dahdi_save_parse [OF dahdi_demo_ok, of empty_world]
    by (auto simp: empty_world_def dahdi_demo_def dahdi_norm_def dahdi_chan_norm_def dahdi_span_zero_def flag_def)
qed

text \<open>A disabled span does not stay disabled: its saved file holds only the fixed text, and the
  parser enables the span for any line with an equals sign, so what comes back is an enabled span
  with all other fields zero.\<close>

theorem dahdi_disabled_span:
  assumes "enable sp = 0" and "\<And>p. \<not> cannot_read w p" and "\<And>p. \<not> cannot_write w p"
    and "alloc_ok w (allocs w)"
  shows "\<exists>w1 w2. libamg_dahdi_save_config False (one_span sp) w = (0, w1) \<and>
    libamg_dahdi_parse_config False w1 = Inr (Some (one_span (dahdi_span_zero\<lparr>enable := 1\<rparr>)), w2)"
proof -
  define sys where "sys = [conf_line ''loadzone'' ''br'', conf_line ''defaultzone'' ''br'']"
  let ?w1 = "w\<lparr>files := (files w)(FILE_DAHDI_SYSTEM_CONF \<mapsto> concat sys,
          FILE_CHAN_DAHDI_CONF \<mapsto> concat chan_dahdi_lines)\<rparr>"
  have "concat (dahdi_system_prints (one_span sp)) = concat sys"
    "concat (dahdi_chan_prints False (one_span sp)) = concat chan_dahdi_lines"
    using assms(1) by (simp_all add: sys_def dahdi_system_prints_def dahdi_system_span_prints_def
        DAHDI_SYSTEM_CONTENT_def conf_line_def dahdi_chan_prints_def dahdi_chan_span_prints_def chan_dahdi_text)
  then have save: "libamg_dahdi_save_config False (one_span sp) w = (0, ?w1)"
    using dahdi_save_effect [OF assms(3)] by simp
  have c: "chunks DAHDI_BUF_SIZE (concat chan_dahdi_lines) = chan_dahdi_lines"
    by (rule chunks_concat) (auto simp: chan_dahdi_lines_def conf_line_def is_line_def)
  have s: "chunks DAHDI_BUF_SIZE (concat sys) = sys"
    by (rule chunks_concat) (auto simp: sys_def conf_line_def is_line_def)
  have r: "run_steps dahdi_system_step d sys = Inr d" for d
    by (simp add: sys_def not_span_step)
  have "\<exists>w2. libamg_dahdi_parse_config False ?w1 = Inr (Some (one_span (dahdi_span_zero\<lparr>enable := 1\<rparr>)), w2)"
    using assms(2,4) dahdi_paths_differ
    by (simp add: libamg_dahdi_parse_config_def libamg_dahdi_parse_chan_dahdi_conf_def
        libamg_dahdi_parse_system_conf_def world_simps c s r chan_dahdi_fixed_read f_close_def)
  with save show ?thesis by blast
qed

theorem dahdi_disabled_span_witness:
  "\<exists>w1 w2. libamg_dahdi_save_config False (one_span dahdi_span_zero) empty_world = (0, w1) \<and>
    libamg_dahdi_parse_config False w1 = Inr (Some (one_span (dahdi_span_zero\<lparr>enable := 1\<rparr>)), w2)"
  using dahdi_disabled_span [of dahdi_span_zero empty_world] by (simp add: empty_world_def dahdi_span_zero_def)

text \<open>What the AIS daemon setting is saved as is what the check reports, 1 for any nonzero
  argument and 0 for zero, and the check closes its stream; a file without any line makes the check
  return a value that was never assigned, and a missing file gives -1.\<close>

theorem ais_daemon_set_check:
  assumes "\<not> cannot_write w FILE_AISDAEMON_CONF" and "\<not> cannot_read w FILE_AISDAEMON_CONF"
  shows "(\<exists>w1. libamg_ais_daemon_set on w = (0, w1) \<and>
       libamg_ais_daemon_check True w1 = Inr (flag on, w1) \<and> open_files w1 = open_files w) \<and>
    (files w FILE_AISDAEMON_CONF = Some [] \<longrightarrow> libamg_ais_daemon_check True w = Inl Uninitialised) \<and>
    (files w FILE_AISDAEMON_CONF = None \<longrightarrow> libamg_ais_daemon_check True w = Inr (- 1, w))"
proof (intro conjI impI)
  let ?l = "conf_line ''host_keepalive'' (yes_no on)"
  let ?w1 = "w\<lparr>files := (files w)(FILE_AISDAEMON_CONF \<mapsto> ?l)\<rparr>"
  have set: "libamg_ais_daemon_set on w = (0, ?w1)"
    using assms(1) by (simp add: libamg_ais_daemon_set_def world_simps f_print_def f_close_def)
  have line: "is_line (DAHDI_BUF_SIZE - 1) ?l"
    by (rule conf_line_is_line) (use yes_no_length [of on] in \<open>auto simp: plain_key_simps conf_simps\<close>)
  have ch: "chunks (DAHDI_BUF_SIZE - 1) ?l = [?l]" using chunks_line [OF line, of "[]"] by simp
  have "NUL \<notin> set (yes_no on)" by (simp add: yes_no_def)
  then have "cstr (?l @ [NUL]) 0 = ?l"
    by (intro cstr_app_NUL) (simp add: conf_line_def)
  then have "ais_scan [?l] None = Some (flag on)"
    by (simp add: conf_line_def c_strncmp_eq_def c_strncasecmp_eq_def yes_no_def flag_def lower_def numeral_eq_Suc)
  then have "libamg_ais_daemon_check True ?w1 = Inr (flag on, ?w1)"
    using assms(2) by (simp add: libamg_ais_daemon_check_def world_simps ch [simplified] f_close_def)
  with set show "\<exists>w1. libamg_ais_daemon_set on w = (0, w1) \<and>
       libamg_ais_daemon_check True w1 = Inr (flag on, w1) \<and> open_files w1 = open_files w" by simp
next
  assume "files w FILE_AISDAEMON_CONF = Some []"
  then show "libamg_ais_daemon_check True w = Inl Uninitialised"
    using assms(2) by (simp add: libamg_ais_daemon_check_def world_simps)
next
  assume "files w FILE_AISDAEMON_CONF = None"
  then show "libamg_ais_daemon_check True w = Inr (- 1, w)"
    by (simp add: libamg_ais_daemon_check_def fopen_r_def)
qed

theorem ais_daemon_set_check_witness:
  "\<exists>w1. libamg_ais_daemon_set 7 empty_world = (0, w1) \<and> libamg_ais_daemon_check True w1 = Inr (1, w1)"
  using ais_daemon_set_check [of empty_world 7] by (auto simp: empty_world_def flag_def)

end
