(* ===== verification/C_String.thy ===== *)
theory C_String
  imports C_Library "HOL-Library.Sublist"
begin

text \<open>
  Functions of the C library on whole strings: \<open>strcpy\<close> into an array, \<open>strstr\<close>, and what \<open>%s\<close> and
  \<open>%*s\<close> of \<open>sscanf\<close> see of a line.
\<close>

text \<open>\<open>strcpy(dst, s)\<close>: the string and its NUL must fit the array.\<close>

definition strcpy :: "char list \<Rightarrow> string \<Rightarrow> char list outcome" where
  "strcpy dst s = (if length s < length dst then Inr (s @ [NUL] @ drop (Suc (length s)) dst) else Inl Out_Of_Bounds)"

lemma strcpy_ok: "strcpy dst s = Inr d \<Longrightarrow> length d = length dst"
  by (auto simp: strcpy_def split: if_splits)

lemma strcpy_read: "strcpy dst s = Inr d \<Longrightarrow> NUL \<notin> set s \<Longrightarrow> cstr d 0 = s"
  by (auto simp: strcpy_def cstr_simps split: if_splits)

text \<open>\<open>strstr(s, p)\<close>: the offset of the first occurrence.\<close>

fun c_strstr :: "string \<Rightarrow> string \<Rightarrow> nat option" where
  "c_strstr [] p = (if p = [] then Some 0 else None)"
| "c_strstr (c # cs) p = (if take (length p) (c # cs) = p then Some 0 else map_option Suc (c_strstr cs p))"

lemma c_strstr_sublist: "c_strstr s p = None \<longleftrightarrow> \<not> sublist p s"
proof (induction s)
  case (Cons c cs)
  have "take (length p) (c # cs) = p \<longleftrightarrow> prefix p (c # cs)"
    by (metis append_eq_conv_conj append_take_drop_id prefix_def)
  then show ?case using Cons by (simp add: sublist_Cons_right)
qed simp

lemma c_strstr_at: "c_strstr s p = Some k \<Longrightarrow> take (length p) (drop k s) = p"
proof (induction s arbitrary: k)
  case (Cons c cs)
  then show ?case by (auto split: if_splits)
qed (auto split: if_splits)

text \<open>The words of a string, as \<open>%s\<close> reads them.\<close>

definition c_words :: "string \<Rightarrow> string list" where
  "c_words s = strtok_all [CHR 0x20, CHR 0x09, CHR 0x0A, CHR 0x0B, CHR 0x0C, CHR 0x0D] s"

end
