(* ===== verification/Process.thy ===== *)
theory Process
  imports World Conf_File C_String
begin

text \<open>
  The management of processes of src/process.c: the pid of a program in /proc, programs that init runs
  (/etc/inittab), services of inetd (/etc/inetd.conf) and the flags in /var/run/flags. The file system is that
  of World; the entries of /proc, the init FIFO and the signals sent are fields of \<open>proc_world\<close>.
  A file edited in place is read by \<open>fgets\<close> with 255 bytes, so its lines are the \<open>chunks 255\<close>.
\<close>

record proc_world =
  pw :: world
  proc_dir :: "string list option"
  fifo_opens :: bool
  fifo_bytes :: int
  init_requests :: "(char \<times> int) list"
  hangups :: "int list"

subsection \<open>The pid of a program\<close>

definition stat_path :: "string \<Rightarrow> string" where
  "stat_path d = ''/proc/'' @ d @ ''/stat''"

definition cmdline_path :: "string \<Rightarrow> string" where
  "cmdline_path d = ''/proc/'' @ d @ ''/cmdline''"

definition strrchr :: "string \<Rightarrow> char \<Rightarrow> nat option" where
  "strrchr s c = (if c \<in> set s then Some (length s - Suc (length (takeWhile (\<lambda>x. x \<noteq> c) (rev s)))) else None)"

text \<open>
  The name of a process out of its status line: the first space, searched without a bound, an opening
  parenthesis behind it, the last closing one. The array is changed at the closing parenthesis.
\<close>

definition stat_name :: "char list \<Rightarrow> (string option \<times> char list) outcome" where
  "stat_name buf =
     (let s = Suc (length (takeWhile (\<lambda>c. c \<noteq> CHR '' '') buf)) in
      if length buf \<le> s then Inl Out_Of_Bounds
      else if buf ! s \<noteq> CHR ''('' then Inr (None, buf)
      else case strrchr (cstr buf 0) (CHR '')'') of
          None \<Rightarrow> Inr (None, buf)
        | Some q \<Rightarrow>
            let buf' = buf[q := NUL] in
            if terminated buf' (Suc s) then Inr (Some (cstr buf' (Suc s)), buf') else Inl Unterminated)"

definition get_pid_entry :: "string \<Rightarrow> string \<Rightarrow> char list \<Rightarrow> world \<Rightarrow> (int option \<times> char list \<times> world) outcome" where
  "get_pid_entry progname d buf w =
     (let pid = c_atoi d in
      if pid = 0 then Inr (None, buf, w)
      else if 256 \<le> length (stat_path d) then Inl Out_Of_Bounds
      else case fopen_r (stat_path d) w of
          (None, w1) \<Rightarrow> Inr (None, buf, w1)
        | (Some text, w1) \<Rightarrow>
            (let buf1 = fgets_into (buf[0 := NUL]) text; w2 = f_close w1 in
             case stat_name buf1 of
               Inl e \<Rightarrow> Inl e
             | Inr (nm, buf2) \<Rightarrow>
                 if nm \<noteq> Some progname then Inr (None, buf2, w2)
                 else if 256 \<le> length (cmdline_path d) then Inl Out_Of_Bounds
                 else case fopen_r (cmdline_path d) w2 of
                     (None, w3) \<Rightarrow> Inr (None, buf2, w3)
                   | (Some _, w3) \<Rightarrow> Inr (Some pid, buf2, f_close w3)))"

fun get_pid_loop :: "string \<Rightarrow> string list \<Rightarrow> char list \<Rightarrow> world \<Rightarrow> (int \<times> world) outcome" where
  "get_pid_loop progname [] buf w = Inr (0, w)"
| "get_pid_loop progname (d # ds) buf w =
     (case get_pid_entry progname d buf w of
        Inl e \<Rightarrow> Inl e
      | Inr (Some pid, _, w') \<Rightarrow> Inr (pid, w')
      | Inr (None, buf', w') \<Rightarrow> get_pid_loop progname ds buf' w')"

text \<open>\<open>buf0\<close> are the 256 bytes of the local array, not initialised.\<close>

definition libamg_process_get_pid :: "char list \<Rightarrow> string \<Rightarrow> proc_world \<Rightarrow> (int \<times> proc_world) outcome" where
  "libamg_process_get_pid buf0 progname p =
     (case proc_dir p of
        None \<Rightarrow> Inr (0, p)
      | Some ds \<Rightarrow>
          (case get_pid_loop progname ds buf0 (pw p) of Inl e \<Rightarrow> Inl e | Inr (r, w) \<Rightarrow> Inr (r, p\<lparr>pw := w\<rparr>)))"

subsection \<open>Files edited in place\<close>

text \<open>\<open>fopen(path, "r+")\<close>\<close>

definition fopen_rw :: "path \<Rightarrow> world \<Rightarrow> string option \<times> world" where
  "fopen_rw p w =
     (case files w p of
        None \<Rightarrow> (None, w)
      | Some s \<Rightarrow> if cannot_read w p \<or> cannot_write w p then (None, w)
                  else (Some s, w\<lparr>open_files := open_files w + 1\<rparr>))"

text \<open>\<open>fputc\<close> at a position of a file opened for update.\<close>

definition f_putc_at :: "path \<Rightarrow> nat \<Rightarrow> char \<Rightarrow> world \<Rightarrow> world" where
  "f_putc_at p k c w =
     w\<lparr>files := (files w)(p \<mapsto> (case files w p of None \<Rightarrow> [c] | Some t \<Rightarrow> take k t @ c # drop (Suc k) t))\<rparr>"

text \<open>
  The loop that looks for the program: \<open>fgets\<close> with one byte less than the array has, \<open>strstr\<close>, and the step
  back by the length of the string found. At the end of the file \<open>fgets\<close> leaves the buffer as it was,
  which is not initialised if the file is empty, and the loop looks at it once more.
\<close>

definition line_string :: "string \<Rightarrow> string" where
  "line_string l = cstr (l @ [NUL]) 0"

fun find_line :: "string \<Rightarrow> string option \<Rightarrow> string list \<Rightarrow> nat \<Rightarrow> nat option outcome" where
  "find_line prog buf [] pos =
     (case buf of
        None \<Rightarrow> Inl Uninitialised
      | Some l \<Rightarrow> Inr (if c_strstr (line_string l) prog \<noteq> None then Some (pos - length (line_string l)) else None))"
| "find_line prog buf (l # ls) pos =
     (if c_strstr (line_string l) prog \<noteq> None then Inr (Some (pos + length l - length (line_string l)))
      else find_line prog (Some l) ls (pos + length l))"

definition edit_line :: "path \<Rightarrow> string \<Rightarrow> char \<Rightarrow> world \<Rightarrow> (bool option \<times> world) outcome" where
  "edit_line p prog c w =
     (case fopen_rw p w of
        (None, w1) \<Rightarrow> Inr (None, w1)
      | (Some text, w1) \<Rightarrow>
          (case find_line prog None (chunks 255 text) 0 of
             Inl e \<Rightarrow> Inl e
           | Inr None \<Rightarrow> Inr (Some False, f_close w1)
           | Inr (Some k) \<Rightarrow> Inr (Some True, f_close (f_putc_at p k c w1))))"

subsection \<open>Programs of init\<close>

definition FILE_INITTAB :: path where "FILE_INITTAB = ''/etc/inittab''"

definition telinit :: "char \<Rightarrow> int \<Rightarrow> proc_world \<Rightarrow> int \<times> proc_world" where
  "telinit c sleeptime p =
     (if \<not> fifo_opens p then (- 1, p)
      else (if fifo_bytes p = 384 then 0 else - 1, p\<lparr>init_requests := init_requests p @ [(c, sleeptime)]\<rparr>))"

definition set_init_program :: "bool \<Rightarrow> string \<Rightarrow> proc_world \<Rightarrow> (int \<times> proc_world) outcome" where
  "set_init_program enable prog p =
     (case edit_line FILE_INITTAB prog (if enable then CHR ''u'' else CHR ''#'') (pw p) of
        Inl e \<Rightarrow> Inl e
      | Inr (Some True, w) \<Rightarrow> Inr (telinit (CHR ''q'') 5 (p\<lparr>pw := w\<rparr>))
      | Inr (_, w) \<Rightarrow> Inr (- 1, p\<lparr>pw := w\<rparr>))"

definition libamg_process_start_init_program :: "string \<Rightarrow> proc_world \<Rightarrow> (int \<times> proc_world) outcome" where
  "libamg_process_start_init_program prog p = set_init_program True prog p"

definition libamg_process_stop_init_program :: "string \<Rightarrow> proc_world \<Rightarrow> (int \<times> proc_world) outcome" where
  "libamg_process_stop_init_program prog p = set_init_program False prog p"

text \<open>\<open>fgetc\<close> at the start of the line found; at the end of the file it gives -1.\<close>

definition libamg_process_check_daemon :: "string \<Rightarrow> proc_world \<Rightarrow> (int \<times> proc_world) outcome" where
  "libamg_process_check_daemon prog p =
     (case fopen_rw FILE_INITTAB (pw p) of
        (None, w1) \<Rightarrow> Inr (0, p\<lparr>pw := w1\<rparr>)
      | (Some text, w1) \<Rightarrow>
          (case find_line prog None (chunks 255 text) 0 of
             Inl e \<Rightarrow> Inl e
           | Inr None \<Rightarrow> Inr (0, p\<lparr>pw := f_close w1\<rparr>)
           | Inr (Some k) \<Rightarrow>
               Inr (if k < length text \<and> text ! k = CHR ''u'' then 1 else 0, p\<lparr>pw := f_close w1\<rparr>)))"

subsection \<open>Services of inetd\<close>

definition FILE_INETD :: path where "FILE_INETD = ''/etc/inetd.conf''"

definition set_inetd_program :: "char list \<Rightarrow> bool \<Rightarrow> string \<Rightarrow> proc_world \<Rightarrow> (int \<times> proc_world) outcome" where
  "set_inetd_program buf0 enable prog p =
     (case edit_line FILE_INETD prog (if enable then CHR '' '' else CHR ''#'') (pw p) of
        Inl e \<Rightarrow> Inl e
      | Inr (Some True, w) \<Rightarrow>
          (case libamg_process_get_pid buf0 ''inetd'' (p\<lparr>pw := w\<rparr>) of
             Inl e \<Rightarrow> Inl e
           | Inr (pid, p') \<Rightarrow> Inr (if pid = 0 then (- 1, p') else (0, p'\<lparr>hangups := hangups p' @ [pid]\<rparr>)))
      | Inr (_, w) \<Rightarrow> Inr (- 1, p\<lparr>pw := w\<rparr>))"

definition libamg_process_start_inetd_program where
  "libamg_process_start_inetd_program buf0 nm p = set_inetd_program buf0 True nm p"

definition libamg_process_stop_inetd_program where
  "libamg_process_stop_inetd_program buf0 nm p = set_inetd_program buf0 False nm p"

fun find_active :: "string \<Rightarrow> string option \<Rightarrow> string list \<Rightarrow> bool outcome" where
  "find_active prog buf [] =
     (case buf of
        None \<Rightarrow> Inl Uninitialised
      | Some l \<Rightarrow> Inr (hd (l @ [NUL]) \<noteq> CHR ''#'' \<and> c_strstr (line_string l) prog \<noteq> None))"
| "find_active prog buf (l # ls) =
     (if hd (l @ [NUL]) \<noteq> CHR ''#'' \<and> c_strstr (line_string l) prog \<noteq> None then Inr True
      else find_active prog (Some l) ls)"

definition libamg_process_check_inetd_program :: "string \<Rightarrow> proc_world \<Rightarrow> (int \<times> proc_world) outcome" where
  "libamg_process_check_inetd_program prog p =
     (case fopen_rw FILE_INETD (pw p) of
        (None, w1) \<Rightarrow> Inr (- 1, p\<lparr>pw := w1\<rparr>)
      | (Some text, w1) \<Rightarrow>
          (case find_active prog None (chunks 255 text) of
             Inl e \<Rightarrow> Inl e
           | Inr b \<Rightarrow> Inr (if b then 1 else 0, p\<lparr>pw := f_close w1\<rparr>)))"

subsection \<open>Flags\<close>

definition FLAG_DIR :: string where "FLAG_DIR = ''/var/run/flags/''"

definition flag_path :: "string \<Rightarrow> path outcome" where
  "flag_path flagname =
     (if 256 \<le> length (FLAG_DIR @ flagname) then Inl Out_Of_Bounds else Inr (FLAG_DIR @ flagname))"

text \<open>\<open>open(path, O_CREAT | O_WRONLY)\<close> creates the file if there is none; it is closed at once.\<close>

definition libamg_process_set_flag :: "string \<Rightarrow> world \<Rightarrow> (int \<times> world) outcome" where
  "libamg_process_set_flag flagname w =
     (case flag_path flagname of
        Inl e \<Rightarrow> Inl e
      | Inr f \<Rightarrow>
          if cannot_write w f then Inr (- 1, w)
          else Inr (0, if files w f = None then w\<lparr>files := (files w)(f \<mapsto> [])\<rparr> else w))"

definition libamg_process_check_flag :: "string \<Rightarrow> world \<Rightarrow> int outcome" where
  "libamg_process_check_flag flagname w =
     (case flag_path flagname of Inl e \<Rightarrow> Inl e | Inr f \<Rightarrow> Inr (if can_read f w then 1 else 0))"

definition libamg_process_clear_flag :: "string \<Rightarrow> world \<Rightarrow> (int \<times> world) outcome" where
  "libamg_process_clear_flag flagname w =
     (case flag_path flagname of
        Inl e \<Rightarrow> Inl e
      | Inr f \<Rightarrow>
          if files w f = None \<or> cannot_write w f then Inr (- 1, w)
          else Inr (0, w\<lparr>files := (files w)(f := None)\<rparr>))"

subsection \<open>Editing, line by line\<close>

text \<open>A file of lines that fit the buffer, without NUL; the first line with the program gets the mark.\<close>

definition lines_ok :: "string list \<Rightarrow> bool" where
  "lines_ok ls \<longleftrightarrow> ls \<noteq> [] \<and> list_all (\<lambda>l. is_line 255 l \<and> NUL \<notin> set l) ls"

definition has_prog :: "string \<Rightarrow> string \<Rightarrow> bool" where
  "has_prog prog l \<longleftrightarrow> c_strstr l prog \<noteq> None"

lemma line_string_id [simp]: "NUL \<notin> set l \<Longrightarrow> line_string l = l"
  using cstr_app_NUL [of l "[]"] by (simp add: line_string_def)

lemma find_line_lines:
  assumes "list_all (\<lambda>l. NUL \<notin> set l) ls" and "case buf of None \<Rightarrow> ls \<noteq> [] | Some l \<Rightarrow> NUL \<notin> set l \<and> \<not> has_prog prog l"
  shows "find_line prog buf ls pos =
    Inr (if list_all (\<lambda>l. \<not> has_prog prog l) ls then None
         else Some (pos + length (concat (takeWhile (\<lambda>l. \<not> has_prog prog l) ls))))"
  using assms
proof (induction ls arbitrary: buf pos)
  case Nil
  then show ?case by (auto simp: has_prog_def split: option.splits)
next
  case (Cons l ls)
  then show ?case by (auto simp: has_prog_def)
qed

lemma lines_chunks: "lines_ok ls \<Longrightarrow> chunks 255 (concat ls) = ls"
  by (rule chunks_concat) (auto simp: lines_ok_def list_all_iff)

lemma fopen_rw_ok: "files w p = Some s \<Longrightarrow> \<not> cannot_read w p \<Longrightarrow> \<not> cannot_write w p \<Longrightarrow>
    fopen_rw p w = (Some s, w\<lparr>open_files := open_files w + 1\<rparr>)"
  by (simp add: fopen_rw_def)

definition editable :: "path \<Rightarrow> string list \<Rightarrow> world \<Rightarrow> bool" where
  "editable f ls w \<longleftrightarrow> files w f = Some (concat ls) \<and> \<not> cannot_read w f \<and> \<not> cannot_write w f \<and> lines_ok ls"

lemma edit_line_absent:
  assumes "editable f ls w" and "list_all (\<lambda>l. \<not> has_prog prog l) ls"
  shows "edit_line f prog c w = Inr (Some False, w)"
proof -
  have "find_line prog None (chunks 255 (concat ls)) 0 = Inr None"
    using assms find_line_lines [of ls prog None 0] lines_chunks [of ls]
    by (auto simp: editable_def lines_ok_def list_all_iff)
  then show ?thesis using assms(1) fopen_rw_ok [of w f] by (simp add: edit_line_def editable_def f_close_def)
qed

lemma edit_line_lines:
  assumes "editable f (pre @ (d # t) # post) w" and "list_all (\<lambda>l. \<not> has_prog prog l) pre" and "has_prog prog (d # t)"
  shows "edit_line f prog c w = Inr (Some True, w\<lparr>files := (files w)(f \<mapsto> concat (pre @ (c # t) # post))\<rparr>)"
proof -
  let ?ls = "pre @ (d # t) # post"
  have tw: "takeWhile (\<lambda>l. \<not> has_prog prog l) ?ls = pre"
    using assms(2,3) by (intro takeWhile_append_stop) (auto simp: list_all_iff)
  have "find_line prog None (chunks 255 (concat ?ls)) 0 = Inr (Some (length (concat pre)))"
    using assms find_line_lines [of ?ls prog None 0, unfolded tw] lines_chunks [of ?ls]
    by (auto simp: editable_def lines_ok_def list_all_iff)
  moreover have "f_putc_at f (length (concat pre)) c (w\<lparr>open_files := open_files w + 1\<rparr>) =
      w\<lparr>open_files := open_files w + 1, files := (files w)(f \<mapsto> concat (pre @ (c # t) # post))\<rparr>"
    using assms(1) by (simp add: f_putc_at_def editable_def)
  ultimately show ?thesis
    using assms(1) fopen_rw_ok [of w f] by (simp add: edit_line_def editable_def f_close_def)
qed

lemma editable_edit:
  assumes "editable f (pre @ (d # t) # post) w" and "c \<noteq> LF" and "c \<noteq> NUL" and "t \<noteq> []"
  shows "editable f (pre @ (c # t) # post) (w\<lparr>files := (files w)(f \<mapsto> concat (pre @ (c # t) # post))\<rparr>)"
  using assms by (simp add: editable_def lines_ok_def is_line_def)

lemma has_prog_tail: "has_prog prog t \<Longrightarrow> has_prog prog (c # t)"
  by (simp add: has_prog_def)

lemma check_daemon_lines:
  assumes "editable FILE_INITTAB (pre @ (d # t) # post) (pw p)" and "list_all (\<lambda>l. \<not> has_prog prog l) pre" and "has_prog prog (d # t)"
  shows "libamg_process_check_daemon prog p = Inr (if d = CHR ''u'' then 1 else 0, p)"
proof -
  let ?ls = "pre @ (d # t) # post"
  have tw: "takeWhile (\<lambda>l. \<not> has_prog prog l) ?ls = pre"
    using assms(2,3) by (intro takeWhile_append_stop) (auto simp: list_all_iff)
  have "find_line prog None (chunks 255 (concat ?ls)) 0 = Inr (Some (length (concat pre)))"
    using assms find_line_lines [of ?ls prog None 0, unfolded tw] lines_chunks [of ?ls]
    by (auto simp: editable_def lines_ok_def list_all_iff)
  then show ?thesis
    using assms(1) fopen_rw_ok [of "pw p" FILE_INITTAB]
    by (simp add: libamg_process_check_daemon_def editable_def f_close_def nth_append)
qed

text \<open>C33: In an inittab of lines shorter than 255 characters, stopping a program and starting it again marks
  the first line that names it with # and then with u, whatever its first character was, changes nothing
  else, asks init twice to read the file again, and the check follows: 0 after the stop, 1 after the start.\<close>

theorem init_program_switch:
  assumes "editable FILE_INITTAB (pre @ (d # t) # post) (pw p)" and "list_all (\<lambda>l. \<not> has_prog prog l) pre"
    and "has_prog prog t" and "prog \<noteq> []" and "fifo_opens p" and "fifo_bytes p = 384"
  shows "\<exists>p1 p2. libamg_process_stop_init_program prog p = Inr (0, p1) \<and>
     libamg_process_check_daemon prog p1 = Inr (0, p1) \<and>
     libamg_process_start_init_program prog p1 = Inr (0, p2) \<and>
     libamg_process_check_daemon prog p2 = Inr (1, p2) \<and>
     p2 = p\<lparr>pw := (pw p)\<lparr>files := (files (pw p))(FILE_INITTAB \<mapsto> concat (pre @ (CHR ''u'' # t) # post))\<rparr>,
       init_requests := init_requests p @ [(CHR ''q'', 5), (CHR ''q'', 5)]\<rparr>"
proof -
  have t: "t \<noteq> []" using assms(3,4) by (auto simp: has_prog_def)
  let ?w1 = "(pw p)\<lparr>files := (files (pw p))(FILE_INITTAB \<mapsto> concat (pre @ (CHR ''#'' # t) # post))\<rparr>"
  let ?p1 = "p\<lparr>pw := ?w1, init_requests := init_requests p @ [(CHR ''q'', 5)]\<rparr>"
  have e1: "editable FILE_INITTAB (pre @ (CHR ''#'' # t) # post) ?w1"
    using editable_edit [OF assms(1) _ _ t] by simp
  have s1: "libamg_process_stop_init_program prog p = Inr (0, ?p1)"
    using edit_line_lines [OF assms(1,2) has_prog_tail [OF assms(3)], of "CHR ''#''"] assms(5,6)
    by (simp add: libamg_process_stop_init_program_def set_init_program_def telinit_def)
  let ?w2 = "?w1\<lparr>files := (files ?w1)(FILE_INITTAB \<mapsto> concat (pre @ (CHR ''u'' # t) # post))\<rparr>"
  let ?p2 = "?p1\<lparr>pw := ?w2, init_requests := init_requests ?p1 @ [(CHR ''q'', 5)]\<rparr>"
  have e2: "editable FILE_INITTAB (pre @ (CHR ''u'' # t) # post) ?w2"
    using editable_edit [OF e1 _ _ t] by simp
  have s2: "libamg_process_start_init_program prog ?p1 = Inr (0, ?p2)"
    using edit_line_lines [OF e1 assms(2) has_prog_tail [OF assms(3)], of "CHR ''u''"] assms(5,6)
    by (simp add: libamg_process_start_init_program_def set_init_program_def telinit_def)
  have c1: "libamg_process_check_daemon prog ?p1 = Inr (0, ?p1)"
    using check_daemon_lines [of pre "CHR ''#''" t post ?p1 prog] e1 assms(2) has_prog_tail [OF assms(3)] by simp
  have c2: "libamg_process_check_daemon prog ?p2 = Inr (1, ?p2)"
    using check_daemon_lines [of pre "CHR ''u''" t post ?p2 prog] e2 assms(2) has_prog_tail [OF assms(3)] by simp
  show ?thesis by (intro exI [of _ ?p1] exI [of _ ?p2] conjI s1 c1 s2 c2) simp
qed

definition demo_proc :: "(path \<rightharpoonup> string) \<Rightarrow> string list \<Rightarrow> proc_world" where
  "demo_proc fs ds = \<lparr>pw = \<lparr>files = fs, cannot_read = \<lambda>_. False, cannot_write = \<lambda>_. False, shell = \<lambda>_ fs. (0, fs),
     alloc_ok = \<lambda>_. True, allocs = 0, live = 0, open_files = 0, cmds = []\<rparr>,
     proc_dir = Some ds, fifo_opens = True, fifo_bytes = 384, init_requests = [], hangups = []\<rparr>"

theorem init_program_switch_witness:
  "\<exists>p1 p2. libamg_process_stop_init_program ''/usr/sbin/ast''
       (demo_proc [FILE_INITTAB \<mapsto> concat [''# a'' @ [LF], ''ua:2:respawn:/usr/sbin/ast'' @ [LF]]] []) = Inr (0, p1) \<and>
     libamg_process_check_daemon ''/usr/sbin/ast'' p1 = Inr (0, p1) \<and>
     libamg_process_start_init_program ''/usr/sbin/ast'' p1 = Inr (0, p2) \<and>
     libamg_process_check_daemon ''/usr/sbin/ast'' p2 = Inr (1, p2)"
proof -
  let ?t = "''a:2:respawn:/usr/sbin/ast'' @ [LF]"
  let ?p = "demo_proc [FILE_INITTAB \<mapsto> concat [''# a'' @ [LF], ''ua:2:respawn:/usr/sbin/ast'' @ [LF]]] []"
  have "editable FILE_INITTAB ([''# a'' @ [LF]] @ (CHR ''u'' # ?t) # []) (pw ?p)"
    by (simp add: editable_def lines_ok_def is_line_def demo_proc_def)
  moreover have "list_all (\<lambda>l. \<not> has_prog ''/usr/sbin/ast'' l) [''# a'' @ [LF]]" by (simp add: has_prog_def)
  moreover have "has_prog ''/usr/sbin/ast'' ?t" by (simp add: has_prog_def)
  ultimately show ?thesis
    using init_program_switch [of "[''# a'' @ [LF]]" "CHR ''u''" ?t "[]" ?p "''/usr/sbin/ast''"] by (auto simp: demo_proc_def)
qed

subsection \<open>Programs in /proc\<close>

text \<open>
  The entries of /proc: names that are no number, processes that are gone, processes with their name and
  what follows it in the status line. A process may end between the reading of its status and the opening of its
  arguments: then the status can be read and the arguments cannot.
\<close>

datatype proc_entry = Other string | Gone nat | Proc nat string string

fun entry_name :: "proc_entry \<Rightarrow> string" where
  "entry_name (Other d) = d"
| "entry_name (Gone n) = show_nat n"
| "entry_name (Proc n comm r) = show_nat n"

text \<open>
  Names have at most 15 characters and may contain anything but NUL and line feed; behind the closing
  parenthesis there is none. The rest of the line may be cut off by the buffer.
\<close>

definition entry_ok :: "world \<Rightarrow> proc_entry \<Rightarrow> bool" where
  "entry_ok w e \<longleftrightarrow> (case e of
      Other d \<Rightarrow> c_atoi d = 0
    | Gone n \<Rightarrow> 0 < n \<and> n < 10 ^ 9 \<and> \<not> can_read (stat_path (show_nat n)) w
    | Proc n comm r \<Rightarrow> 0 < n \<and> n < 10 ^ 9 \<and> length comm \<le> 15 \<and> NUL \<notin> set comm \<and> LF \<notin> set comm \<and>
        NUL \<notin> set r \<and> CHR '')'' \<notin> set r \<and>
        files w (stat_path (show_nat n)) = Some (show_nat n @ '' ('' @ comm @ '')'' @ r) \<and>
        \<not> cannot_read w (stat_path (show_nat n)))"

fun entry_pid :: "world \<Rightarrow> string \<Rightarrow> proc_entry \<Rightarrow> nat option" where
  "entry_pid w progname (Proc n comm r) =
     (if comm = progname \<and> can_read (cmdline_path (show_nat n)) w then Some n else None)"
| "entry_pid w progname e = None"

definition first_pid :: "world \<Rightarrow> string \<Rightarrow> proc_entry list \<Rightarrow> int" where
  "first_pid w progname es = (case List.map_filter (entry_pid w progname) es of [] \<Rightarrow> 0 | n # ns \<Rightarrow> int n)"

lemma strrchr_last:
  assumes "c \<notin> set b"
  shows "strrchr (a @ c # b) c = Some (length a)"
proof -
  have "takeWhile (\<lambda>x. x \<noteq> c) (rev b @ c # rev a) = rev b" by (rule takeWhile_append_stop) (use assms in auto)
  then have "takeWhile (\<lambda>x. x \<noteq> c) (rev (a @ c # b)) = rev b" by simp
  then show ?thesis by (simp add: strrchr_def)
qed

lemma line_prefix_keeps:
  "LF \<notin> set a \<Longrightarrow> length a \<le> k \<Longrightarrow> \<exists>b. line_prefix k (a @ r) = a @ b \<and> set b \<subseteq> set r"
proof (induction a arbitrary: k)
  case Nil
  have "set (line_prefix k r) \<subseteq> set r" by (metis line_prefix_split set_append sup_ge1)
  then show ?case by simp
next
  case (Cons c a)
  then show ?case by (cases k) auto
qed

lemma stat_name_line:
  assumes "CHR '' '' \<notin> set num" and "NUL \<notin> set num" and "NUL \<notin> set comm" and "NUL \<notin> set b" and "CHR '')'' \<notin> set b"
    and "buf = num @ '' ('' @ comm @ '')'' @ b @ NUL # junk"
  shows "\<exists>buf'. stat_name buf = Inr (Some comm, buf') \<and> length buf' = length buf"
proof -
  let ?a = "num @ '' ('' @ comm"
  have s: "takeWhile (\<lambda>c. c \<noteq> CHR '' '') buf = num" unfolding assms(6) using assms(1) by (simp add: takeWhile_append)
  have cs: "cstr buf 0 = ?a @ CHR '')'' # b"
    unfolding assms(6) using cstr_app_NUL [of "?a @ CHR '')'' # b" junk] assms(2-4) by simp
  have upd: "buf[length ?a := NUL] = num @ '' ('' @ comm @ NUL # b @ NUL # junk"
    unfolding assms(6) using list_update_length [of ?a "CHR '')''" "b @ NUL # junk" NUL] by simp
  have "cstr (num @ '' ('' @ comm @ NUL # b @ NUL # junk) (Suc (Suc (length num))) = comm"
    using cstr_drop_app [of comm "Suc (Suc (length num))" "num @ '' (''" "b @ NUL # junk"] assms(3) by simp
  moreover have "terminated (num @ '' ('' @ comm @ NUL # b @ NUL # junk) (Suc (Suc (length num)))"
    by (simp add: terminated_def)
  moreover have "buf ! Suc (length num) = CHR ''(''" "Suc (length num) < length buf" unfolding assms(6) by (simp_all add: nth_append)
  ultimately have "stat_name buf = Inr (Some comm, buf[length ?a := NUL])"
    unfolding stat_name_def s Let_def cs strrchr_last [OF assms(5)] option.case upd by simp
  then show ?thesis by simp
qed

lemma get_pid_entry_ok:
  assumes "entry_ok w e" and "length buf = 256"
  shows "\<exists>buf'. get_pid_entry progname (entry_name e) buf w = Inr (map_option int (entry_pid w progname e), buf', w) \<and>
     length buf' = 256"
proof (cases e)
  case (Other d)
  then show ?thesis using assms by (simp add: get_pid_entry_def entry_ok_def)
next
  case (Gone n)
  have n: "0 < n" "n < 10 ^ 9" "\<not> can_read (stat_path (show_nat n)) w" using assms(1) by (simp_all add: Gone entry_ok_def)
  have a: "c_atoi (show_nat n) = int n" using atoi_fmt_d [of "int n"] n by (simp add: fmt_d_def int32_def INT_MIN_def INT_MAX_def)
  have "length (show_nat n) \<le> 9" using n by (intro show_nat_length) auto
  then show ?thesis
    using a n fopen_r_fail [of "stat_path (show_nat n)" w] assms(2)
    by (simp add: Gone get_pid_entry_def stat_path_def)
next
  case (Proc n comm r)
  have n: "0 < n" "n < 10 ^ 9" "length comm \<le> 15" "NUL \<notin> set comm" "LF \<notin> set comm" "NUL \<notin> set r" "CHR '')'' \<notin> set r"
      "files w (stat_path (show_nat n)) = Some (show_nat n @ '' ('' @ comm @ '')'' @ r)"
      "\<not> cannot_read w (stat_path (show_nat n))"
    using assms(1) by (simp_all add: Proc entry_ok_def)
  have a: "c_atoi (show_nat n) = int n" using atoi_fmt_d [of "int n"] n by (simp add: fmt_d_def int32_def INT_MIN_def INT_MAX_def)
  have len: "length (show_nat n) \<le> 9" using n by (intro show_nat_length) auto
  have dig: "c \<notin> set (show_nat n)" if "\<not> c_isdigit c" for c using show_nat_digits that by blast
  let ?a = "show_nat n @ '' ('' @ comm @ '')''"
  have "LF \<notin> set ?a" using dig [of LF] n(5) by (simp add: c_isdigit_def)
  then obtain b where b: "line_prefix 255 (?a @ r) = ?a @ b" "set b \<subseteq> set r"
    using line_prefix_keeps [of ?a 255 r] len n(3) by auto
  have fl: "length (?a @ b) < 256" using line_prefix_length [of 255 "?a @ r"] b(1) by simp
  let ?buf = "fgets_into (buf[0 := NUL]) (?a @ r)"
  have buf: "?buf = ?a @ b @ NUL # drop (Suc (length (?a @ b))) (buf[0 := NUL])"
    using assms(2) b(1) by (simp add: fgets_into_def fgets_def Let_def)
  have "length ?buf = 256" unfolding buf using fl assms(2) by simp
  moreover have "\<exists>buf'. stat_name ?buf = Inr (Some comm, buf') \<and> length buf' = length ?buf"
  proof (rule stat_name_line)
    show "CHR '' '' \<notin> set (show_nat n)" "NUL \<notin> set (show_nat n)" by (rule dig; simp add: c_isdigit_def)+
    show "NUL \<notin> set comm" by (rule n(4))
    show "NUL \<notin> set b" "CHR '')'' \<notin> set b" using n(6,7) b(2) by auto
    show "?buf = show_nat n @ '' ('' @ comm @ '')'' @ b @ NUL # drop (Suc (length (?a @ b))) (buf[0 := NUL])"
      unfolding buf by simp
  qed
  ultimately show ?thesis
    using a len n(1,8,9) fopen_r_ok [OF n(8,9)]
    by (auto simp: Proc get_pid_entry_def stat_path_def cmdline_path_def f_close_def fopen_r_def can_read_def Let_def
        split: option.splits)
qed

lemma get_pid_loop_entries:
  assumes "list_all (entry_ok w) es" and "length buf = 256"
  shows "get_pid_loop progname (map entry_name es) buf w = Inr (first_pid w progname es, w)"
  using assms
proof (induction es arbitrary: buf)
  case Nil
  then show ?case by (simp add: first_pid_def map_filter_simps)
next
  case (Cons e es)
  obtain buf' where "get_pid_entry progname (entry_name e) buf w = Inr (map_option int (entry_pid w progname e), buf', w)"
      "length buf' = 256" using get_pid_entry_ok [of w e buf progname] Cons.prems by auto
  then show ?case
    using Cons by (cases "entry_pid w progname e") (simp_all add: first_pid_def map_filter_simps)
qed

text \<open>C34: The pid of a program is that of the first entry of /proc with its name whose arguments can be opened, 0
  if there is none: names with spaces and parentheses are compared whole; entries that are no process, that
  disappear before their status is read, or whose arguments cannot be opened any more are skipped; and every file
  opened is closed.\<close>

theorem get_pid_finds:
  assumes "proc_dir p = Some (map entry_name es)" and "list_all (entry_ok (pw p)) es" and "length buf0 = 256"
  shows "libamg_process_get_pid buf0 progname p = Inr (first_pid (pw p) progname es, p)"
  using get_pid_loop_entries [OF assms(2,3)] assms(1) by (simp add: libamg_process_get_pid_def)

theorem get_pid_finds_witness:
  "libamg_process_get_pid (replicate 256 NUL) ''a) (b''
     (demo_proc [''/proc/5/stat'' \<mapsto> ''5 (a) (b) S 1'', ''/proc/7/stat'' \<mapsto> ''7 (a) (b) S 1'', ''/proc/7/cmdline'' \<mapsto> ''x'',
        ''/proc/12/stat'' \<mapsto> ''12 (a) S 1'', ''/proc/12/cmdline'' \<mapsto> ''y''] [''.'', ''9'', ''12'', ''5'', ''7'']) =
   Inr (7, demo_proc [''/proc/5/stat'' \<mapsto> ''5 (a) (b) S 1'', ''/proc/7/stat'' \<mapsto> ''7 (a) (b) S 1'', ''/proc/7/cmdline'' \<mapsto> ''x'',
        ''/proc/12/stat'' \<mapsto> ''12 (a) S 1'', ''/proc/12/cmdline'' \<mapsto> ''y''] [''.'', ''9'', ''12'', ''5'', ''7''])"
proof -
  let ?p = "demo_proc [''/proc/5/stat'' \<mapsto> ''5 (a) (b) S 1'', ''/proc/7/stat'' \<mapsto> ''7 (a) (b) S 1'',
      ''/proc/7/cmdline'' \<mapsto> ''x'', ''/proc/12/stat'' \<mapsto> ''12 (a) S 1'', ''/proc/12/cmdline'' \<mapsto> ''y'']
      [''.'', ''9'', ''12'', ''5'', ''7'']"
  let ?es = "[Other ''.'', Gone 9, Proc 12 ''a'' '' S 1'', Proc 5 ''a) (b'' '' S 1'', Proc 7 ''a) (b'' '' S 1'']"
  have n: "show_nat 5 = ''5''" "show_nat 7 = ''7''" "show_nat 9 = ''9''" "show_nat 12 = ''12''"
    by (simp_all add: show_nat.simps)
  have "proc_dir ?p = Some (map entry_name ?es)" by (simp add: demo_proc_def n)
  moreover have "list_all (entry_ok (pw ?p)) ?es"
    by (simp add: entry_ok_def demo_proc_def n stat_path_def can_read_def)
      (simp add: c_atoi_def read_digits_def c_isspace_def c_isdigit_def INT_MAX_def)
  moreover have "first_pid (pw ?p) ''a) (b'' ?es = 7"
    by (simp add: first_pid_def map_filter_simps n can_read_def demo_proc_def cmdline_path_def)
  ultimately show ?thesis using get_pid_finds [of ?p ?es "replicate 256 NUL" "''a) (b''"] by simp
qed

lemma entry_ok_edit: "entry_ok w e \<Longrightarrow> entry_ok (w\<lparr>files := (files w)(FILE_INETD \<mapsto> s)\<rparr>) e"
proof -
  have "stat_path d \<noteq> FILE_INETD" "cmdline_path d \<noteq> FILE_INETD" for d
    by (simp_all add: stat_path_def cmdline_path_def FILE_INETD_def)
  then show "entry_ok w e \<Longrightarrow> entry_ok (w\<lparr>files := (files w)(FILE_INETD \<mapsto> s)\<rparr>) e"
    by (auto simp: entry_ok_def can_read_def split: proc_entry.splits)
qed

text \<open>Starting or stopping a service marks the first line of inetd.conf that names it with a space or #,
  and sends SIGHUP to inetd, once; when inetd does not run the file is changed all the same and the result
  is -1.\<close>

theorem inetd_program_marked:
  assumes "editable FILE_INETD (pre @ (d # t) # post) (pw p)" and "list_all (\<lambda>l. \<not> has_prog prog l) pre"
    and "has_prog prog (d # t)" and "proc_dir p = Some (map entry_name es)" and "list_all (entry_ok (pw p)) es"
    and "length buf0 = 256"
  shows "set_inetd_program buf0 enable prog p =
    (let w = (pw p)\<lparr>files := (files (pw p))(FILE_INETD \<mapsto> concat (pre @ ((if enable then CHR '' '' else CHR ''#'') # t) # post))\<rparr>;
       pid = first_pid w ''inetd'' es in
     Inr (if pid = 0 then (- 1, p\<lparr>pw := w\<rparr>) else (0, p\<lparr>pw := w, hangups := hangups p @ [pid]\<rparr>)))"
proof -
  let ?c = "if enable then CHR '' '' else CHR ''#''"
  let ?w = "(pw p)\<lparr>files := (files (pw p))(FILE_INETD \<mapsto> concat (pre @ (?c # t) # post))\<rparr>"
  have "list_all (entry_ok ?w) es" using assms(5) entry_ok_edit by (auto simp: list_all_iff)
  from get_pid_loop_entries [OF this assms(6)] show ?thesis
    using edit_line_lines [OF assms(1-3), of ?c] assms(4)
    by (simp add: set_inetd_program_def libamg_process_get_pid_def Let_def)
qed

theorem inetd_program_marked_witness:
  "\<exists>p'. set_inetd_program (replicate 256 NUL) False ''ftpd'' (demo_proc [FILE_INETD \<mapsto> ''ftp ftpd'' @ [LF],
       ''/proc/7/stat'' \<mapsto> ''7 (inetd) S'', ''/proc/7/cmdline'' \<mapsto> []] [''7'']) = Inr (0, p') \<and>
     hangups p' = [7] \<and> files (pw p') FILE_INETD = Some (''#tp ftpd'' @ [LF])"
proof -
  let ?p = "demo_proc [FILE_INETD \<mapsto> ''ftp ftpd'' @ [LF], ''/proc/7/stat'' \<mapsto> ''7 (inetd) S'', ''/proc/7/cmdline'' \<mapsto> []] [''7'']"
  let ?es = "[Proc 7 ''inetd'' '' S'']"
  have n: "show_nat 7 = ''7''" by (simp add: show_nat.simps)
  have "editable FILE_INETD ([] @ (CHR ''f'' # ''tp ftpd'' @ [LF]) # []) (pw ?p)"
    by (simp add: editable_def lines_ok_def is_line_def demo_proc_def FILE_INETD_def)
  moreover have "has_prog ''ftpd'' (CHR ''f'' # ''tp ftpd'' @ [LF])" by (simp add: has_prog_def)
  moreover have "proc_dir ?p = Some (map entry_name ?es)" by (simp add: demo_proc_def n)
  moreover have "list_all (entry_ok (pw ?p)) ?es"
    by (simp add: entry_ok_def demo_proc_def n stat_path_def cmdline_path_def FILE_INETD_def)
  moreover have "first_pid ((pw ?p)\<lparr>files := fs\<rparr>) ''inetd'' ?es = 7"
      if "fs (cmdline_path ''7'') = Some []" for fs :: "string \<Rightarrow> string option"
    using that by (simp add: first_pid_def map_filter_simps n can_read_def demo_proc_def)
  ultimately show ?thesis
    using inetd_program_marked [of "[]" "CHR ''f''" "''tp ftpd'' @ [LF]" "[]" ?p "''ftpd''" ?es "replicate 256 NUL" False]
    by (simp add: Let_def demo_proc_def cmdline_path_def FILE_INETD_def)
qed

subsection \<open>Flags as a set\<close>

text \<open>A sequence of operations, \<open>(True, k)\<close> inserting and \<open>(False, k)\<close> deleting: on a set, and by calls.\<close>

fun set_ops :: "(bool \<times> 'k) list \<Rightarrow> 'k set \<Rightarrow> int list \<times> 'k set" where
  "set_ops [] A = ([], A)"
| "set_ops ((b, k) # os) A =
     (let (rs, B) = set_ops os (if b then insert k A else A - {k}) in ((if b \<or> k \<in> A then 0 else - 1) # rs, B))"

fun run_ops :: "('k \<Rightarrow> 's \<Rightarrow> (int \<times> 's) outcome) \<Rightarrow> ('k \<Rightarrow> 's \<Rightarrow> (int \<times> 's) outcome) \<Rightarrow> (bool \<times> 'k) list \<Rightarrow> 's \<Rightarrow>
    (int list \<times> 's) outcome" where
  "run_ops ins del [] s = Inr ([], s)"
| "run_ops ins del ((b, k) # os) s =
     (case (if b then ins k s else del k s) of
        Inl e \<Rightarrow> Inl e
      | Inr (r, s1) \<Rightarrow> (case run_ops ins del os s1 of Inl e \<Rightarrow> Inl e | Inr (rs, s2) \<Rightarrow> Inr (r # rs, s2)))"

text \<open>The interface of a set of names kept outside: two operations that change it and a test.\<close>

locale name_set =
  fixes ins :: "'k \<Rightarrow> 's \<Rightarrow> (int \<times> 's) outcome" and del :: "'k \<Rightarrow> 's \<Rightarrow> (int \<times> 's) outcome"
    and mem :: "'k \<Rightarrow> 's \<Rightarrow> int outcome" and good :: "'s \<Rightarrow> bool" and nm :: "'k \<Rightarrow> bool"
  assumes mem_law: "good s \<Longrightarrow> nm k \<Longrightarrow> mem k s = Inr 0 \<or> mem k s = Inr 1"
    and ins_law: "good s \<Longrightarrow> nm k \<Longrightarrow> \<exists>s'. ins k s = Inr (0, s') \<and> good s' \<and>
      (\<forall>j. nm j \<longrightarrow> mem j s' = (if j = k then Inr 1 else mem j s))"
    and del_law: "good s \<Longrightarrow> nm k \<Longrightarrow> \<exists>s'. del k s = Inr (if mem k s = Inr 1 then 0 else - 1, s') \<and> good s' \<and>
      (\<forall>j. nm j \<longrightarrow> mem j s' = (if j = k then Inr 0 else mem j s))"
begin

lemma ops_refine:
  "good s \<Longrightarrow> list_all (\<lambda>u. nm (snd u)) os \<Longrightarrow>
     \<exists>s'. run_ops ins del os s = Inr (fst (set_ops os {k. nm k \<and> mem k s = Inr 1}), s') \<and> good s' \<and>
       {k. nm k \<and> mem k s' = Inr 1} = snd (set_ops os {k. nm k \<and> mem k s = Inr 1})"
proof (induction os arbitrary: s)
  case (Cons u os)
  obtain b k where u: "u = (b, k)" by (cases u)
  have k: "nm k" "list_all (\<lambda>u. nm (snd u)) os" using Cons.prems(2) by (simp_all add: u)
  let ?A = "{k. nm k \<and> mem k s = Inr 1}"
  obtain s1 where s1: "(if b then ins k s else del k s) = Inr (if b \<or> k \<in> ?A then 0 else - 1, s1)" "good s1"
      "{j. nm j \<and> mem j s1 = Inr 1} = (if b then insert k ?A else ?A - {k})"
  proof (cases b)
    case True
    obtain s' where s': "ins k s = Inr (0, s')" "good s'" "\<And>j. nm j \<Longrightarrow> mem j s' = (if j = k then Inr 1 else mem j s)"
      using ins_law [OF Cons.prems(1) k(1)] by blast
    have "{j. nm j \<and> mem j s' = Inr 1} = insert k ?A" using s'(3) k(1) by (auto cong: conj_cong split: if_splits)
    then show thesis using that s'(1,2) True by simp
  next
    case False
    obtain s' where s': "del k s = Inr (if mem k s = Inr 1 then 0 else - 1, s')" "good s'"
        "\<And>j. nm j \<Longrightarrow> mem j s' = (if j = k then Inr 0 else mem j s)"
      using del_law [OF Cons.prems(1) k(1)] by blast
    have "{j. nm j \<and> mem j s' = Inr 1} = ?A - {k}" using s'(3) by (auto cong: conj_cong split: if_splits)
    then show thesis using that s'(1,2) False k(1) by simp
  qed
  then show ?case using Cons.IH [OF s1(2) k(2)] by (auto simp: u split: prod.split)
qed simp

lemma mem_members: "good s \<Longrightarrow> nm j \<Longrightarrow> mem j s = Inr (if j \<in> {k. nm k \<and> mem k s = Inr 1} then 1 else 0)"
  using mem_law by auto

end

definition flags_free :: "world \<Rightarrow> bool" where
  "flags_free w \<longleftrightarrow> (\<forall>f. \<not> cannot_read w (FLAG_DIR @ f) \<and> \<not> cannot_write w (FLAG_DIR @ f))"

definition flag_name :: "string \<Rightarrow> bool" where
  "flag_name f \<longleftrightarrow> length f \<le> 240"

lemma flag_path_ok: "flag_name f \<Longrightarrow> flag_path f = Inr (FLAG_DIR @ f)"
  by (simp add: flag_name_def flag_path_def FLAG_DIR_def)

interpretation flags: name_set libamg_process_set_flag libamg_process_clear_flag libamg_process_check_flag flags_free flag_name
proof
  fix w :: world and f
  assume a: "flags_free w" "flag_name f"
  note p = flag_path_ok [OF a(2)]
  have free: "\<not> cannot_read w (FLAG_DIR @ j)" "\<not> cannot_write w (FLAG_DIR @ j)" for j using a(1) by (simp_all add: flags_free_def)
  show "libamg_process_check_flag f w = Inr 0 \<or> libamg_process_check_flag f w = Inr 1"
    by (simp add: libamg_process_check_flag_def p)
  have ck: "libamg_process_check_flag j v = Inr (if files v (FLAG_DIR @ j) \<noteq> None then 1 else 0)"
    if "flag_name j" "cannot_read v = cannot_read w" for j v
    using free that by (simp add: libamg_process_check_flag_def flag_path_ok can_read_def)
  have other: "libamg_process_check_flag j (w\<lparr>files := (files w)(FLAG_DIR @ f := x)\<rparr>) =
      (if j = f then Inr (if x \<noteq> None then 1 else 0) else libamg_process_check_flag j w)" if "flag_name j" for j x
    using ck [OF that] by simp
  have same: "libamg_process_check_flag j w = (if j = f then Inr 1 else libamg_process_check_flag j w)"
    if "flag_name j" "files w (FLAG_DIR @ f) \<noteq> None" for j
    using ck [OF that(1)] that(2) by simp
  show "\<exists>w'. libamg_process_set_flag f w = Inr (0, w') \<and> flags_free w' \<and>
      (\<forall>j. flag_name j \<longrightarrow> libamg_process_check_flag j w' = (if j = f then Inr 1 else libamg_process_check_flag j w))"
  proof (cases "files w (FLAG_DIR @ f)")
    case None
    then show ?thesis using free(2) a(1) other [of _ "Some []"] by (simp add: libamg_process_set_flag_def p flags_free_def)
  next
    case (Some x)
    then have "libamg_process_set_flag f w = Inr (0, w)" using free(2) by (simp add: libamg_process_set_flag_def p)
    then show ?thesis using a(1) same [OF _ Some [THEN option.discI]] by (intro exI [of _ w] conjI allI impI)
  qed
  have gone: "libamg_process_check_flag j w = (if j = f then Inr 0 else libamg_process_check_flag j w)"
    if "flag_name j" "files w (FLAG_DIR @ f) = None" for j
    using ck [OF that(1)] that(2) by simp
  show "\<exists>w'. libamg_process_clear_flag f w = Inr (if libamg_process_check_flag f w = Inr 1 then 0 else - 1, w') \<and>
      flags_free w' \<and>
      (\<forall>j. flag_name j \<longrightarrow> libamg_process_check_flag j w' = (if j = f then Inr 0 else libamg_process_check_flag j w))"
  proof (cases "files w (FLAG_DIR @ f)")
    case None
    then have "libamg_process_clear_flag f w = Inr (if libamg_process_check_flag f w = Inr 1 then 0 else - 1, w)"
      using ck [OF a(2), of w] by (simp add: libamg_process_clear_flag_def p)
    then show ?thesis using a(1) gone [OF _ None] by (intro exI [of _ w] conjI allI impI)
  next
    case (Some x)
    then show ?thesis using free(2) a(1) other [of _ None] ck [OF a(2), of w] by (simp add: libamg_process_clear_flag_def p flags_free_def)
  qed
qed

text \<open>C35: The flags behave as a set of names of up to 240 characters: after any sequence of setting and
  clearing, with the results that a set gives, the check of any name tells whether it is in the set.\<close>

theorem flags_are_a_set:
  assumes "flags_free w" and "list_all (\<lambda>u. flag_name (snd u)) os"
  shows "\<exists>w'. run_ops libamg_process_set_flag libamg_process_clear_flag os w =
       Inr (fst (set_ops os {f. flag_name f \<and> libamg_process_check_flag f w = Inr 1}), w') \<and>
     (\<forall>f. flag_name f \<longrightarrow> libamg_process_check_flag f w' =
       Inr (if f \<in> snd (set_ops os {f. flag_name f \<and> libamg_process_check_flag f w = Inr 1}) then 1 else 0))"
proof -
  let ?A = "{f. flag_name f \<and> libamg_process_check_flag f w = Inr 1}"
  obtain w' where w': "run_ops libamg_process_set_flag libamg_process_clear_flag os w = Inr (fst (set_ops os ?A), w')"
      "flags_free w'" "{f. flag_name f \<and> libamg_process_check_flag f w' = Inr 1} = snd (set_ops os ?A)"
    using flags.ops_refine [OF assms] by blast
  show ?thesis
    using w'(1) flags.mem_members [OF w'(2), unfolded w'(3)] by (intro exI [of _ w'] conjI allI impI)
qed

theorem flags_are_a_set_witness:
  "\<exists>w'. run_ops libamg_process_set_flag libamg_process_clear_flag [(True, ''a''), (False, ''b''), (True, ''c''), (False, ''a'')]
       (pw (demo_proc Map.empty [])) = Inr ([0, - 1, 0, 0], w') \<and>
     libamg_process_check_flag ''a'' w' = Inr 0 \<and> libamg_process_check_flag ''c'' w' = Inr 1"
proof -
  let ?w = "pw (demo_proc Map.empty [])" and ?os = "[(True, ''a''), (False, ''b''), (True, ''c''), (False, ''a'')]"
  have "libamg_process_check_flag f ?w \<noteq> Inr 1" for f
    by (simp add: libamg_process_check_flag_def demo_proc_def can_read_def flag_path_def)
  then have e: "{f. flag_name f \<and> libamg_process_check_flag f ?w = Inr 1} = {}" by simp
  have "flags_free ?w" "list_all (\<lambda>u. flag_name (snd u)) ?os" by (simp_all add: flags_free_def demo_proc_def flag_name_def)
  from flags_are_a_set [OF this, unfolded e] show ?thesis by (auto simp: flag_name_def)
qed

end
