(* ===== verification/C_Float.thy ===== *)
theory C_Float
  imports C_Library Complex_Main
begin

text \<open>
  The floating-point arithmetic of C as src/system.c uses it: \<open>float\<close> and \<open>double\<close> are the IEEE formats with 24
  and 53 significant bits, every operation rounds its exact result to the nearest number of its format, ties to
  even, and \<open>%0.1f\<close> rounds the exact value to one decimal the same way. A number is a sign and a magnitude, so
  that a negative zero is one. The exponent is not bounded: from 64-bit counters the code makes magnitudes
  between 2 to the -57 and 2 to the 70, far from overflow and from the subnormal numbers of both formats.
  \<open>long long\<close> sums have 64 bits and overflow is undefined.
\<close>

subsection \<open>Sums of long long\<close>

definition ll_fits :: "int \<Rightarrow> bool" where
  "ll_fits x \<longleftrightarrow> - (2 ^ 63) \<le> x \<and> x < 2 ^ 63"

definition ll_sub :: "int \<Rightarrow> int \<Rightarrow> int outcome" where
  "ll_sub x y = (if ll_fits (x - y) then Inr (x - y) else Inl Signed_Overflow)"

definition ll_add :: "int \<Rightarrow> int \<Rightarrow> int outcome" where
  "ll_add x y = (if ll_fits (x + y) then Inr (x + y) else Inl Signed_Overflow)"

text \<open>\<open>acc + (x1 - y1) + (x2 - y2) + ...\<close>, from the left.\<close>

fun ll_sum :: "int \<Rightarrow> (int \<times> int) list \<Rightarrow> int outcome" where
  "ll_sum acc [] = Inr acc"
| "ll_sum acc ((x, y) # ds) =
     (case ll_sub x y of
        Inl e \<Rightarrow> Inl e
      | Inr d \<Rightarrow> (case ll_add acc d of Inl e \<Rightarrow> Inl e | Inr s \<Rightarrow> ll_sum s ds))"

text \<open>Of differences that are not negative the sum overflows exactly when the whole sum does not fit.\<close>

lemma ll_sum_monotone:
  assumes "list_all (\<lambda>(x, y). 0 \<le> y \<and> y \<le> x \<and> x < 2 ^ 63) ds" and "0 \<le> acc" and "acc < 2 ^ 63"
  shows "ll_sum acc ds = (let s = acc + (\<Sum>(x, y)\<leftarrow>ds. x - y) in if s < 2 ^ 63 then Inr s else Inl Signed_Overflow)"
  using assms
proof (induction ds arbitrary: acc)
  case (Cons d ds)
  obtain x y where d: "d = (x, y)" by (cases d)
  have ok: "0 \<le> y" "y \<le> x" "x < 2 ^ 63" "list_all (\<lambda>(x, y). 0 \<le> y \<and> y \<le> x \<and> x < 2 ^ 63) ds"
    using Cons.prems(1) by (simp_all add: d)
  have rest: "0 \<le> (\<Sum>(x, y)\<leftarrow>ds. x - y)"
    using ok(4) by (intro sum_list_nonneg) (auto simp: list_all_iff)
  have sub: "ll_sub x y = Inr (x - y)" using ok by (simp add: ll_sub_def ll_fits_def)
  show ?case
  proof (cases "acc + (x - y) < 2 ^ 63")
    case True
    then have "ll_add acc (x - y) = Inr (acc + (x - y))" using ok Cons.prems(2) by (simp add: ll_add_def ll_fits_def)
    moreover have "0 \<le> acc + (x - y)" using ok Cons.prems(2) by simp
    ultimately show ?thesis using Cons.IH [OF ok(4) _ True] sub by (simp add: d Let_def algebra_simps)
  next
    case False
    then have "ll_add acc (x - y) = Inl Signed_Overflow" by (simp add: ll_add_def ll_fits_def)
    then show ?thesis using sub rest False by (simp add: d Let_def)
  qed
qed simp

subsection \<open>Rounding\<close>

definition round_half_even :: "rat \<Rightarrow> int" where
  "round_half_even x =
     (let f = \<lfloor>x\<rfloor>; d = x - of_int f in
      if d < 1 / 2 then f else if 1 / 2 < d then f + 1 else if even f then f else f + 1)"

lemma round_half_even_error: "\<bar>of_int (round_half_even x) - x\<bar> \<le> 1 / 2"
proof -
  have f: "of_int \<lfloor>x\<rfloor> \<le> x" "x < of_int \<lfloor>x\<rfloor> + 1" using floor_correct [of x] by simp_all
  define y where "y = x - of_int \<lfloor>x\<rfloor>"
  have x: "x = y + of_int \<lfloor>x\<rfloor>" by (simp add: y_def)
  show ?thesis using f unfolding round_half_even_def Let_def y_def [symmetric] by (subst (3 6) x) (auto simp: abs_le_iff y_def)
qed

fun ilog2 :: "nat \<Rightarrow> nat" where
  "ilog2 n = (if n < 2 then 0 else Suc (ilog2 (n div 2)))"

declare ilog2.simps [simp del]

lemma ilog2_bounds: "0 < n \<Longrightarrow> 2 ^ ilog2 n \<le> n \<and> n < 2 ^ Suc (ilog2 n)"
proof (induction n rule: ilog2.induct)
  case (1 n)
  show ?case
  proof (cases "n < 2")
    case True
    then show ?thesis using 1(2) by (subst ilog2.simps, subst (2) ilog2.simps) auto
  next
    case False
    then have "2 ^ ilog2 (n div 2) \<le> n div 2 \<and> n div 2 < 2 ^ Suc (ilog2 (n div 2))" using 1(1) by simp
    moreover have "ilog2 n = Suc (ilog2 (n div 2))" using False by (simp add: ilog2.simps [of n])
    ultimately show ?thesis by auto
  qed
qed

text \<open>The exponent of \<open>x\<close> in a format of \<open>p\<close> bits: \<open>x\<close> is between \<open>2 ^ (p - 1)\<close> and \<open>2 ^ p\<close> units of \<open>2 powi e\<close>.\<close>

definition f_exponent :: "nat \<Rightarrow> rat \<Rightarrow> int" where
  "f_exponent p x =
     (case quotient_of x of (a, b) \<Rightarrow>
        let e = int (ilog2 (nat a)) - int (ilog2 (nat b)) - int p + 1 in
        if x < 2 powi (e + int p - 1) then e - 1 else e)"

definition f_round :: "nat \<Rightarrow> rat \<Rightarrow> rat" where
  "f_round p x = (if x = 0 then 0 else let u = 2 powi f_exponent p x in of_int (round_half_even (x / u)) * u)"

lemma f_exponent_bounds:
  assumes "0 < x"
  shows "2 powi (f_exponent p x + int p - 1) \<le> x"
proof -
  obtain a b where q: "quotient_of x = (a, b)" by (cases "quotient_of x")
  have b: "0 < b" using quotient_of_denom_pos [OF q] .
  have x: "x = of_int a / of_int b" using quotient_of_div [OF q] .
  have a: "0 < a" using assms b unfolding x by (simp add: zero_less_divide_iff)
  let ?i = "int (ilog2 (nat a))" and ?j = "int (ilog2 (nat b))"
  have "2 powi ?i \<le> (of_int a :: rat)"
  proof -
    have "2 ^ ilog2 (nat a) \<le> nat a" using ilog2_bounds [of "nat a"] a by simp
    then have "(of_nat (2 ^ ilog2 (nat a)) :: rat) \<le> of_nat (nat a)" by (rule of_nat_mono)
    then show ?thesis using a by simp
  qed
  moreover have "(of_int b :: rat) \<le> 2 powi (?j + 1)"
  proof -
    have "nat b < 2 ^ Suc (ilog2 (nat b))" using ilog2_bounds [of "nat b"] b by simp
    then have "(of_nat (nat b) :: rat) < of_nat (2 ^ Suc (ilog2 (nat b)))" by (simp only: of_nat_less_iff)
    then show ?thesis using b by (simp add: power_int_add)
  qed
  ultimately have "2 powi ?i / 2 powi (?j + 1) \<le> x"
    unfolding x using a b by (intro frac_le) simp_all
  then have "2 powi (?i - ?j - 1) \<le> x" by (simp add: power_int_diff power_int_add field_simps)
  then show ?thesis by (auto simp: f_exponent_def q Let_def algebra_simps)
qed

text \<open>Rounding to \<open>p\<close> bits changes a number by at most its \<open>2 ^ p\<close>-th part.\<close>

lemma f_round_error:
  assumes "0 \<le> x"
  shows "\<bar>f_round p x - x\<bar> \<le> x / 2 ^ p"
proof (cases "x = 0")
  case False
  then have x: "0 < x" using assms by simp
  define u where "u = (2 :: rat) powi f_exponent p x"
  have u: "0 < u" by (simp add: u_def)
  have "u * 2 ^ p / 2 \<le> x"
    using f_exponent_bounds [OF x, of p] by (simp add: u_def power_int_add power_int_diff)
  then have half: "u / 2 \<le> x / 2 ^ p" by (simp add: field_simps)
  have "f_round p x - x = (of_int (round_half_even (x / u)) - x / u) * u"
    using False u by (simp add: f_round_def Let_def u_def [symmetric] algebra_simps)
  then have "\<bar>f_round p x - x\<bar> = \<bar>of_int (round_half_even (x / u)) - x / u\<bar> * u"
    using u by (simp add: abs_mult)
  also have "\<dots> \<le> 1 / 2 * u" using round_half_even_error u by (intro mult_right_mono) simp_all
  also have "\<dots> = u / 2" by simp
  finally show ?thesis using half by (rule order.trans)
qed (simp add: f_round_def)

lemma f_round_bounds:
  assumes "0 \<le> x"
  shows "(1 - 1 / 2 ^ p) * x \<le> f_round p x" and "f_round p x \<le> (1 + 1 / 2 ^ p) * x"
  using f_round_error [OF assms, of p] by (simp_all add: algebra_simps abs_le_iff)

subsection \<open>Numbers\<close>

datatype c_float = Fl bool rat | Infty bool | Nan

definition FLT :: nat where "FLT = 24"
definition DBL :: nat where "DBL = 53"

definition float_of_int :: "int \<Rightarrow> c_float" where
  "float_of_int n = Fl (n < 0) (f_round FLT (of_int \<bar>n\<bar>))"

fun to_float :: "c_float \<Rightarrow> c_float" where
  "to_float (Fl s x) = Fl s (f_round FLT x)"
| "to_float x = x"

text \<open>\<open>f_div p\<close> and \<open>f_mul p\<close>: division and multiplication with results of \<open>p\<close> bits.\<close>

fun f_div :: "nat \<Rightarrow> c_float \<Rightarrow> c_float \<Rightarrow> c_float" where
  "f_div p (Fl s x) (Fl t y) =
     (if y = 0 then (if x = 0 then Nan else Infty (s \<noteq> t)) else Fl (s \<noteq> t) (f_round p (x / y)))"
| "f_div p (Fl s x) (Infty t) = Fl (s \<noteq> t) 0"
| "f_div p (Infty s) (Fl t y) = Infty (s \<noteq> t)"
| "f_div p x y = Nan"

fun f_mul :: "nat \<Rightarrow> c_float \<Rightarrow> c_float \<Rightarrow> c_float" where
  "f_mul p (Fl s x) (Fl t y) = Fl (s \<noteq> t) (f_round p (x * y))"
| "f_mul p (Fl s x) (Infty t) = (if x = 0 then Nan else Infty (s \<noteq> t))"
| "f_mul p (Infty s) (Fl t y) = (if y = 0 then Nan else Infty (s \<noteq> t))"
| "f_mul p (Infty s) (Infty t) = Infty (s \<noteq> t)"
| "f_mul p x y = Nan"

text \<open>\<open>%0.1f\<close>; \<open>nan_neg\<close> is the sign of the NaN that the processor makes, which C leaves open.\<close>

definition tenths :: "nat \<Rightarrow> string" where
  "tenths n = show_nat (n div 10) @ ''.'' @ show_nat (n mod 10)"

fun fmt_1f :: "bool \<Rightarrow> c_float \<Rightarrow> string" where
  "fmt_1f nan_neg (Fl s x) = (if s then ''-'' else []) @ tenths (nat (round_half_even (10 * x)))"
| "fmt_1f nan_neg (Infty s) = (if s then ''-inf'' else ''inf'')"
| "fmt_1f nan_neg Nan = (if nan_neg then ''-nan'' else ''nan'')"

subsection \<open>Percentages\<close>

text \<open>A share of a total in percent, computed with one division and one multiplication, and its tenths.\<close>

definition share_scale :: "int \<Rightarrow> c_float" where
  "share_scale tot = to_float (f_div DBL (Fl False 100) (float_of_int tot))"

definition share_of :: "int \<Rightarrow> c_float \<Rightarrow> c_float" where
  "share_of part scale = f_mul FLT (float_of_int part) scale"

lemma share_scale_bounds:
  assumes "0 < tot"
  obtains s where "share_scale tot = Fl False s" and "(1 - 1 / 5000000) * (100 / of_int tot) \<le> s"
    and "s \<le> (1 + 1 / 5000000) * (100 / of_int tot)"
proof -
  let ?T = "of_int tot :: rat"
  define t where "t = f_round 24 ?T"
  define q where "q = f_round 53 (100 / t)"
  have T: "0 < ?T" using assms by simp
  have t: "(1 - 1 / 2 ^ 24) * ?T \<le> t" "t \<le> (1 + 1 / 2 ^ 24) * ?T"
    using f_round_bounds [of ?T 24] T unfolding t_def by simp_all
  have pos: "0 < (1 - 1 / 2 ^ 24) * ?T" using T by simp
  then have t0: "0 < t" using t(1) by linarith
  have d: "100 / t \<le> 100 / ((1 - 1 / 2 ^ 24) * ?T)" "100 / ((1 + 1 / 2 ^ 24) * ?T) \<le> 100 / t"
    using t pos t0 by (intro divide_left_mono; simp)+
  have q: "(1 - 1 / 2 ^ 53) * (100 / t) \<le> q" "q \<le> (1 + 1 / 2 ^ 53) * (100 / t)"
    using f_round_bounds [of "100 / t" 53] t0 unfolding q_def by simp_all
  have q0: "0 \<le> q" using q(1) t0 by (intro order.trans [OF _ q(1)]) simp
  have s: "(1 - 1 / 2 ^ 24) * q \<le> f_round 24 q" "f_round 24 q \<le> (1 + 1 / 2 ^ 24) * q"
    using f_round_bounds [OF q0, of 24] by simp_all
  have "share_scale tot = Fl False (f_round 24 q)"
    using assms t0 by (simp add: share_scale_def float_of_int_def FLT_def DBL_def t_def [symmetric] q_def)
  moreover have "(1 - 1 / 5000000) * (100 / ?T) \<le> f_round 24 q \<and> f_round 24 q \<le> (1 + 1 / 5000000) * (100 / ?T)"
  proof -
    define y z where "y = 100 / t" and "z = 100 / ?T"
    have "0 \<le> z" using T by (simp add: z_def)
    moreover have "y \<le> z / (1 - 1 / 2 ^ 24)" "z / (1 + 1 / 2 ^ 24) \<le> y" using d by (simp_all add: y_def z_def)
    moreover note q [folded y_def] s
    ultimately show ?thesis unfolding z_def [symmetric] by simp
  qed
  ultimately show thesis using that by blast
qed

lemma share_of_bounds:
  assumes "0 < tot" and "0 \<le> part" and "part \<le> tot"
  obtains c where "share_of part (share_scale tot) = Fl False c" and "0 \<le> c"
    and "\<bar>c - 100 * of_int part / of_int tot\<bar> \<le> 1 / 20000"
proof -
  obtain s where s: "share_scale tot = Fl False s" "(1 - 1 / 5000000) * (100 / of_int tot) \<le> s"
      "s \<le> (1 + 1 / 5000000) * (100 / of_int tot)"
    by (rule share_scale_bounds [OF assms(1)])
  let ?B = "of_int part :: rat" and ?T = "of_int tot :: rat"
  define b where "b = f_round 24 ?B"
  have T: "0 < ?T" and B: "0 \<le> ?B" "?B \<le> ?T" using assms by simp_all
  have b: "(1 - 1 / 2 ^ 24) * ?B \<le> b" "b \<le> (1 + 1 / 2 ^ 24) * ?B"
    using f_round_bounds [OF B(1), of 24] unfolding b_def by simp_all
  have b0: "0 \<le> b" using B(1) by (intro order.trans [OF _ b(1)]) simp
  have s0: "0 \<le> s" using T by (intro order.trans [OF _ s(2)]) simp
  have m: "((1 - 1 / 2 ^ 24) * ?B) * ((1 - 1 / 5000000) * (100 / ?T)) \<le> b * s"
    "b * s \<le> ((1 + 1 / 2 ^ 24) * ?B) * ((1 + 1 / 5000000) * (100 / ?T))"
    using b s(2,3) b0 s0 B(1) T by (intro mult_mono; simp)+
  define x where "x = ?B / ?T"
  have x: "0 \<le> x" "x \<le> 1" using B T by (simp_all add: x_def)
  have m': "(1 - 1 / 2 ^ 24) * (1 - 1 / 5000000) * 100 * x \<le> b * s" "b * s \<le> (1 + 1 / 2 ^ 24) * (1 + 1 / 5000000) * 100 * x"
    using m by (simp_all add: x_def algebra_simps)
  define c where "c = f_round 24 (b * s)"
  have bs: "0 \<le> b * s" using b0 s0 by simp
  have c: "(1 - 1 / 2 ^ 24) * (b * s) \<le> c" "c \<le> (1 + 1 / 2 ^ 24) * (b * s)"
    using f_round_bounds [OF bs, of 24] unfolding c_def by simp_all
  have "share_of part (share_scale tot) = Fl False c"
    using assms(2) by (simp add: share_of_def s(1) float_of_int_def FLT_def c_def b_def)
  moreover have "0 \<le> c" using bs by (intro order.trans [OF _ c(1)]) simp
  moreover have "\<bar>c - 100 * x\<bar> \<le> 1 / 20000"
  proof -
    define y where "y = b * s"
    note l = c [folded y_def] m' [folded y_def] x
    show ?thesis by (rule abs_leI) (use l in simp)+
  qed
  ultimately show thesis using that by (simp add: x_def)
qed

lemma share_tenths:
  assumes "0 < tot" and "0 \<le> part" and "part \<le> tot"
  obtains n where "fmt_1f nan_neg (share_of part (share_scale tot)) = tenths n"
    and "\<bar>of_nat n - 1000 * of_int part / (of_int tot :: rat)\<bar> < 501 / 1000" and "n \<le> 1000"
proof -
  obtain c where c: "share_of part (share_scale tot) = Fl False c" "0 \<le> c"
      "\<bar>c - 100 * of_int part / of_int tot\<bar> \<le> 1 / 20000"
    by (rule share_of_bounds [OF assms])
  let ?r = "round_half_even (10 * c)" and ?x = "1000 * of_int part / (of_int tot :: rat)"
  have r: "\<bar>of_int ?r - 10 * c\<bar> \<le> 1 / 2" by (rule round_half_even_error)
  have "0 \<le> ?r"
  proof (rule ccontr)
    assume "\<not> 0 \<le> ?r"
    then have "of_int ?r \<le> (- 1 :: rat)" by simp
    then show False using r c(2) by linarith
  qed
  then have n: "of_nat (nat ?r) = (of_int ?r :: rat)" by simp
  have close: "\<bar>of_nat (nat ?r) - ?x\<bar> < 501 / 1000" 
  proof -
    define y where "y = (of_int part / of_int tot :: rat)"
    have "\<bar>c - 100 * y\<bar> \<le> 1 / 20000" "?x = 1000 * y" using c(3) by (simp_all add: y_def)
    then show ?thesis unfolding n using r by (simp only: abs_le_iff abs_less_iff) linarith
  qed
  have "?x \<le> 1000" using assms by (simp add: divide_le_eq)
  then have "of_nat (nat ?r) < (of_nat 1001 :: rat)" using close by (simp only: of_nat_numeral)
  then have "nat ?r < 1001" by (simp only: of_nat_less_iff)
  then show thesis using that close c(1) by simp
qed

lemma tenths_length: "n \<le> 1000 \<Longrightarrow> length (tenths n) \<le> 5"
  using show_nat_length [of "n div 10" 3] show_nat_length [of "n mod 10" 1] by (simp add: tenths_def div_less_iff_less_mult)

end
