(* ===== verification/System_Info.thy ===== *)
theory System_Info
  imports Conf_File C_String C_Float
begin

text \<open>
  What src/system.c reports: firmware version, memory, uptime, CPU usage, CPU description and serial
  number. The static arrays that the functions return are the fields of \<open>sys_state\<close>, with the counters of
  the previous call that the CPU usage subtracts. The output of the uptime command is a parameter, and so is the
  sign that a NaN has on the processor.
\<close>

record cpu_times =
  user :: int
  nice :: int
  system :: int
  idle :: int
  iowait :: int
  irq :: int
  softirq :: int

record sys_state =
  uptime_buf :: "char list"
  cpu_usage_buf :: "char list"
  cpu_old :: cpu_times

text \<open>\<open>memset(buf, 0, sizeof(BUF_SIZE))\<close> clears the size of an \<open>int\<close>, 4 bytes.\<close>

definition clear4 :: "char list \<Rightarrow> char list" where
  "clear4 buf = replicate 4 NUL @ drop 4 buf"

text \<open>\<open>strcat\<close> onto an array of \<open>n\<close> bytes, as strings.\<close>

fun strcat_all :: "nat \<Rightarrow> string \<Rightarrow> string list \<Rightarrow> string outcome" where
  "strcat_all n acc [] = Inr acc"
| "strcat_all n acc (l # ls) =
     (let acc' = acc @ cstr (l @ [NUL]) 0 in if length acc' < n then strcat_all n acc' ls else Inl Out_Of_Bounds)"

definition FILE_SYSTEM_VERSION :: path where "FILE_SYSTEM_VERSION = ''/etc/fw_version''"
definition FILE_SYSTEM_MEMORY :: path where "FILE_SYSTEM_MEMORY = ''/proc/meminfo''"
definition FILE_SYSTEM_CPU_USAGE :: path where "FILE_SYSTEM_CPU_USAGE = ''/proc/stat''"
definition FILE_SYSTEM_CPU_INFO :: path where "FILE_SYSTEM_CPU_INFO = ''/proc/cpuinfo''"
definition FILE_SYSTEM_SERIAL_NUM :: path where "FILE_SYSTEM_SERIAL_NUM = ''/dev/mtd1''"

definition libamg_system_get_version :: "world \<Rightarrow> string option \<times> world" where
  "libamg_system_get_version w =
     (case fopen_r FILE_SYSTEM_VERSION w of
        (None, w1) \<Rightarrow> (None, w1)
      | (Some text, w1) \<Rightarrow> (Some (cstr (fgets_into (replicate 256 NUL) text) 0), f_close w1))"

text \<open>At most two lines; a second line is not read when the first ended with the file.\<close>

definition libamg_system_get_memory :: "world \<Rightarrow> (string option \<times> world) outcome" where
  "libamg_system_get_memory w =
     (case fopen_r FILE_SYSTEM_MEMORY w of
        (None, w1) \<Rightarrow> Inr (None, w1)
      | (Some text, w1) \<Rightarrow>
          (case strcat_all 256 [] (take 2 (chunks 256 text)) of
             Inl e \<Rightarrow> Inl e
           | Inr s \<Rightarrow> Inr (Some s, f_close w1)))"

definition libamg_system_get_uptime :: "string option \<Rightarrow> sys_state \<Rightarrow> string option \<times> sys_state" where
  "libamg_system_get_uptime output st =
     (let buf = clear4 (uptime_buf st) in
      case output of
        None \<Rightarrow> (None, st\<lparr>uptime_buf := buf\<rparr>)
      | Some text \<Rightarrow> (let buf' = fgets_into buf text in (Some (cstr buf' 0), st\<lparr>uptime_buf := buf'\<rparr>)))"

subsection \<open>CPU usage\<close>

text \<open>
  \<open>%Lu\<close>: spaces, perhaps a sign, digits; the number saturates at 64 bits and is stored in a \<open>long long\<close>.
\<close>

definition scan_Lu :: "string \<Rightarrow> (int \<times> string) option" where
  "scan_Lu s =
     (let s1 = dropWhile c_isspace s;
          neg = (s1 \<noteq> [] \<and> hd s1 = CHR ''-'');
          s2 = (if s1 \<noteq> [] \<and> (hd s1 = CHR ''-'' \<or> hd s1 = CHR ''+'') then tl s1 else s1);
          ds = takeWhile c_isdigit s2;
          v = int (read_digits ds);
          u = (if 2 ^ 64 \<le> v then 2 ^ 64 - 1 else if neg then (- v) mod 2 ^ 64 else v)
      in if ds = [] then None
         else Some (if 2 ^ 63 \<le> u then u - 2 ^ 64 else u, drop (length ds) s2))"

fun scan_Lus :: "nat \<Rightarrow> string \<Rightarrow> int list" where
  "scan_Lus 0 s = []"
| "scan_Lus (Suc n) s = (case scan_Lu s of None \<Rightarrow> [] | Some (v, r) \<Rightarrow> v # scan_Lus n r)"

text \<open>\<open>sscanf(buf, "cpu %Lu ...")\<close> with its seven numbers, in the order of the line.\<close>

definition scan_cpu :: "string \<Rightarrow> cpu_times option" where
  "scan_cpu s =
     (if take 3 s \<noteq> ''cpu'' then None
      else case scan_Lus 7 (drop 3 s) of
          [us, ni, sy, il, io, ir, so] \<Rightarrow>
            Some \<lparr>user = us, nice = ni, system = sy, idle = il, iowait = io, irq = ir, softirq = so\<rparr>
        | _ \<Rightarrow> None)"

text \<open>Both sums are in \<open>long long\<close>, in the order of the source.\<close>

definition busy :: "cpu_times \<Rightarrow> cpu_times \<Rightarrow> int outcome" where
  "busy n old =
     ll_sum 0 [(user n, user old), (nice n, nice old), (system n, system old), (iowait n, iowait old), (irq n, irq old),
       (softirq n, softirq old)]"

definition all_ticks :: "cpu_times \<Rightarrow> cpu_times \<Rightarrow> int outcome" where
  "all_ticks n old =
     ll_sum 0 [(user n, user old), (nice n, nice old), (system n, system old), (idle n, idle old), (iowait n, iowait old),
       (irq n, irq old), (softirq n, softirq old)]"

text \<open>\<open>sprintf(cpu_usage, "%0.1f%% system, %0.1f%% idle", ...)\<close>.\<close>

definition usage_text :: "bool \<Rightarrow> c_float \<Rightarrow> c_float \<Rightarrow> string" where
  "usage_text nan_neg cpu idle_share =
     fmt_1f nan_neg cpu @ ''% system, '' @ fmt_1f nan_neg idle_share @ ''% idle''"

text \<open>An empty file leaves the local buffer as it was, not initialised.\<close>

definition libamg_system_get_cpu_usage ::
    "bool \<Rightarrow> sys_state \<Rightarrow> world \<Rightarrow> (string option \<times> sys_state \<times> world) outcome" where
  "libamg_system_get_cpu_usage nan_neg st w =
     (let buf = clear4 (cpu_usage_buf st); st1 = st\<lparr>cpu_usage_buf := buf\<rparr> in
      case fopen_r FILE_SYSTEM_CPU_USAGE w of
        (None, w1) \<Rightarrow> Inr (None, st1, w1)
      | (Some text, w1) \<Rightarrow>
          (case fgets 256 text of
             None \<Rightarrow> Inl Uninitialised
           | Some (l, _) \<Rightarrow>
               (case scan_cpu (cstr (l @ [NUL]) 0) of
                  None \<Rightarrow> Inr (Some (cstr buf 0), st1, f_close w1)
                | Some n \<Rightarrow>
                    (let old = cpu_old st in
                     case all_ticks n old of
                       Inl e \<Rightarrow> Inl e
                     | Inr ticks \<Rightarrow>
                         (let scale = share_scale ticks in
                          case busy n old of
                            Inl e \<Rightarrow> Inl e
                          | Inr b \<Rightarrow>
                              (let cpu = share_of b scale in
                               case ll_sub (idle n) (idle old) of
                                 Inl e \<Rightarrow> Inl e
                               | Inr i \<Rightarrow>
                                   (let s = usage_text nan_neg cpu (share_of i scale) in
                                    if length buf \<le> length s then Inl Out_Of_Bounds
                                    else Inr (Some s,
                                      st\<lparr>cpu_usage_buf := s @ NUL # drop (Suc (length s)) buf, cpu_old := n\<rparr>,
                                      f_close w1))))))))"

subsection \<open>CPU description and serial number\<close>

definition libamg_system_get_cpu_info :: "world \<Rightarrow> (string option \<times> world) outcome" where
  "libamg_system_get_cpu_info w =
     (case fopen_r FILE_SYSTEM_CPU_INFO w of
        (None, w1) \<Rightarrow> Inr (None, w1)
      | (Some text, w1) \<Rightarrow>
          (case strcat_all 1024 [] (chunks 256 text) of
             Inl e \<Rightarrow> Inl e
           | Inr s \<Rightarrow> Inr (Some s, f_close w1)))"

text \<open>
  One read into the 4096 bytes of the local buffer, whose content before is \<open>junk\<close>. Every NUL becomes a line
  feed, so the search is not stopped by the end of the buffer: where there is no match it leaves the
  buffer. The file is not closed. The array \<open>data\<close> has \<open>maxlen\<close> bytes.
\<close>

definition libamg_system_get_serialnum ::
    "char list \<Rightarrow> nat \<Rightarrow> world \<Rightarrow> (int \<times> char list \<times> world) outcome" where
  "libamg_system_get_serialnum junk maxlen w =
     (case fopen_r FILE_SYSTEM_SERIAL_NUM w of
        (None, w1) \<Rightarrow> Inr (- 1, replicate maxlen NUL, w1)
      | (Some text, w1) \<Rightarrow>
          if text = [] then Inr (- 1, replicate maxlen NUL, w1)
          else
            let n = min 4096 (length text);
                buffer = map (\<lambda>c. if c = NUL then LF else c) (take n text @ drop n junk)
            in case c_strstr buffer ''serialnum='' of
                 None \<Rightarrow> Inl Out_Of_Bounds
               | Some k \<Rightarrow>
                   let p = drop (k + 10) buffer; s = takeWhile (\<lambda>c. c \<noteq> LF) p in
                   if LF \<notin> set p then Inl Out_Of_Bounds
                   else Inr (0, take maxlen (s @ replicate maxlen NUL), w1))"

subsection \<open>Properties\<close>

text \<open>The description of the CPU is the text of the file, in any number of lines, if it is shorter than 1024
  characters; a longer one overruns the array.\<close>

theorem cpu_info_whole:
  assumes "files w ''/proc/cpuinfo'' = Some text" and "\<not> cannot_read w ''/proc/cpuinfo''" and "NUL \<notin> set text" and "text \<noteq> []"
  shows "libamg_system_get_cpu_info w = (if length text < 1024 then Inr (Some text, w) else Inl Out_Of_Bounds)"
proof -
  have cat: "strcat_all n acc ls =
      (if ls = [] \<or> length (acc @ concat ls) < n then Inr (acc @ concat ls) else Inl Out_Of_Bounds)"
    if "list_all (\<lambda>l. NUL \<notin> set l) ls" for n acc ls
    using that
  proof (induction ls arbitrary: acc)
    case (Cons l ls)
    then show ?case using cstr_app_NUL [of l "[]"] by (auto simp: Let_def)
  qed simp
  have cc: "concat (chunks 256 text) = text" by (simp add: concat_chunks)
  then have "list_all (\<lambda>l. NUL \<notin> set l) (chunks 256 text)" using assms(3) unfolding list_all_iff by (metis UN_I set_concat)
  moreover have "chunks 256 text \<noteq> []" using cc assms(4) by auto
  ultimately show ?thesis
    using cat [of "chunks 256 text" 1024 "[]"] cc fopen_r_ok [OF assms(1,2)]
    by (simp add: libamg_system_get_cpu_info_def FILE_SYSTEM_CPU_INFO_def f_close_def)
qed

text \<open>The first line of /proc/stat, with what may follow the seven numbers.\<close>

definition stat_line :: "cpu_times \<Rightarrow> string \<Rightarrow> string" where
  "stat_line t r = ''cpu  '' @ fmt_d (user t) @ '' '' @ fmt_d (nice t) @ '' '' @ fmt_d (system t) @ '' '' @ fmt_d (idle t) @
     '' '' @ fmt_d (iowait t) @ '' '' @ fmt_d (irq t) @ '' '' @ fmt_d (softirq t) @ '' '' @ r"

definition ticks_ok :: "cpu_times \<Rightarrow> bool" where
  "ticks_ok t \<longleftrightarrow> list_all (\<lambda>x. 0 \<le> x \<and> x < 2 ^ 63) [user t, nice t, system t, idle t, iowait t, irq t, softirq t]"

lemma scan_Lu_fmt:
  assumes "0 \<le> x" and "x < 2 ^ 63" and "list_all c_isspace sp" and "r = [] \<or> \<not> c_isdigit (hd r)"
  shows "scan_Lu (sp @ fmt_d x @ r) = Some (x, r)"
proof -
  obtain m where m: "x = int m" "m < 2 ^ 63" using assms(1,2) by (metis nonneg_int_cases of_nat_less_numeral_power_cancel_iff)
  have dig: "\<And>c. c \<in> set (show_nat m) \<Longrightarrow> c_isdigit c" by (rule show_nat_digits)
  obtain c cs where c: "show_nat m = c # cs" using show_nat_nonempty [of m] by (cases "show_nat m") auto
  then have c0: "c_isdigit c" "\<not> c_isspace c" "c \<noteq> CHR ''-''" "c \<noteq> CHR ''+''" using dig [of c] digit_not_special [of c] by auto
  have s1: "dropWhile c_isspace (sp @ fmt_d x @ r) = show_nat m @ r"
    using assms(3) c c0 m(1) by (auto simp: list_all_iff fmt_d_def)
  have tw: "takeWhile c_isdigit (show_nat m @ r) = show_nat m"
    using dig assms(4) by (cases r) (auto simp: takeWhile_append)
  have "read_digits (show_nat m) = m" using read_digits_show_nat [of "[]" m] by simp
  then show ?thesis
    unfolding scan_Lu_def s1 Let_def using c c0 tw m by (simp add: tw [unfolded c append.simps])
qed

lemma scan_cpu_line:
  assumes "ticks_ok t"
  shows "scan_cpu (stat_line t r) = Some t"
proof -
  have sp: "list_all c_isspace '' ''" "list_all c_isspace ''  ''" by (simp_all add: c_isspace_def)
  have nd: "\<And>x. '' '' @ x = [] \<or> \<not> c_isdigit (hd ('' '' @ x))" by (simp add: c_isdigit_def)
  note step = scan_Lu_fmt [OF _ _ sp(1) nd] scan_Lu_fmt [OF _ _ sp(2) nd]
  have "scan_Lus 7 (drop 3 (stat_line t r)) =
      [user t, nice t, system t, idle t, iowait t, irq t, softirq t]"
    using assms step by (simp add: stat_line_def ticks_ok_def numeral_eq_Suc)
  then show ?thesis by (simp add: scan_cpu_def) (simp add: stat_line_def)
qed

definition stat_text :: "cpu_times \<Rightarrow> string \<Rightarrow> string \<Rightarrow> string" where
  "stat_text t r tail_text = stat_line t r @ [LF] @ tail_text"

definition stat_ok :: "cpu_times \<Rightarrow> string \<Rightarrow> bool" where
  "stat_ok t r \<longleftrightarrow> ticks_ok t \<and> length r \<le> 90 \<and> LF \<notin> set r \<and> NUL \<notin> set r"

lemma stat_text_line:
  assumes "stat_ok t r"
  shows "fgets 256 (stat_text t r tail_text) = Some (stat_line t r @ [LF], tail_text)" and "NUL \<notin> set (stat_line t r)"
proof -
  have d: "LF \<notin> set (fmt_d x) \<and> NUL \<notin> set (fmt_d x)" for x
    using fmt_d_chars [of LF x] fmt_d_chars [of NUL x] by (auto simp: c_isdigit_def)
  have len: "length (fmt_d x) \<le> 20" if "0 \<le> x" "x < 2 ^ 63" for x
  proof -
    have "nat x < 10 ^ 20" using that by auto
    then show ?thesis using that show_nat_length [of "nat x" 20] by (simp add: fmt_d_def)
  qed
  show "NUL \<notin> set (stat_line t r)" using assms d by (simp add: stat_line_def stat_ok_def)
  have "LF \<notin> set (stat_line t r)" using assms d by (simp add: stat_line_def stat_ok_def)
  moreover have "length (stat_line t r) < 255"
    using assms len [of "user t"] len [of "nice t"] len [of "system t"] len [of "idle t"] len [of "iowait t"] len [of "irq t"]
      len [of "softirq t"] by (simp add: stat_line_def stat_ok_def ticks_ok_def)
  ultimately have "line_prefix 255 (stat_line t r @ LF # tail_text) = stat_line t r @ [LF]" by (rule line_prefix_line)
  then show "fgets 256 (stat_text t r tail_text) = Some (stat_line t r @ [LF], tail_text)"
    by (simp add: stat_text_def fgets_def Let_def)
qed

text \<open>The counters of a reading, none below those of the one before; the ticks between them, of which those of
  \<open>idle\<close> are not busy.\<close>

definition ticks_le :: "cpu_times \<Rightarrow> cpu_times \<Rightarrow> bool" where
  "ticks_le a b \<longleftrightarrow> user a \<le> user b \<and> nice a \<le> nice b \<and> system a \<le> system b \<and> idle a \<le> idle b \<and> iowait a \<le> iowait b \<and>
     irq a \<le> irq b \<and> softirq a \<le> softirq b"

definition elapsed :: "cpu_times \<Rightarrow> cpu_times \<Rightarrow> int" where
  "elapsed a b = (user b - user a) + (nice b - nice a) + (system b - system a) + (idle b - idle a) + (iowait b - iowait a) +
     (irq b - irq a) + (softirq b - softirq a)"

lemma ticks_sums:
  assumes "ticks_ok a" and "ticks_ok b" and "ticks_le a b"
  shows "all_ticks b a = (if elapsed a b < 2 ^ 63 then Inr (elapsed a b) else Inl Signed_Overflow)"
    and "elapsed a b < 2 ^ 63 \<Longrightarrow> busy b a = Inr (elapsed a b - (idle b - idle a))"
    and "ll_sub (idle b) (idle a) = Inr (idle b - idle a)"
    and "0 \<le> idle b - idle a" and "idle b - idle a \<le> elapsed a b"
proof -
  note d = assms(1,2) [unfolded ticks_ok_def list.pred_inject] assms(3) [unfolded ticks_le_def]
  show "all_ticks b a = (if elapsed a b < 2 ^ 63 then Inr (elapsed a b) else Inl Signed_Overflow)"
    unfolding all_ticks_def by (subst ll_sum_monotone) (use d in \<open>simp_all add: elapsed_def Let_def add.assoc\<close>)
  show "busy b a = Inr (elapsed a b - (idle b - idle a))" if "elapsed a b < 2 ^ 63"
    unfolding busy_def by (subst ll_sum_monotone) (use d that in \<open>simp_all add: elapsed_def Let_def\<close>)
  show "ll_sub (idle b) (idle a) = Inr (idle b - idle a)" using d by (simp add: ll_sub_def ll_fits_def)
  show "0 \<le> idle b - idle a" "idle b - idle a \<le> elapsed a b" using d by (simp_all add: elapsed_def)
qed

text \<open>What is printed for \<open>i\<close> idle ticks of \<open>t\<close>: NaNs if there was no tick, or the shares, right to the tenth of a
  percent but for the error of the floating-point arithmetic.\<close>

definition usage_shown :: "bool \<Rightarrow> int \<Rightarrow> int \<Rightarrow> string \<Rightarrow> bool" where
  "usage_shown nan_neg i t s \<longleftrightarrow>
     (if t = 0 then s = usage_text nan_neg Nan Nan
      else \<exists>n1 n2. s = tenths n1 @ ''% system, '' @ tenths n2 @ ''% idle'' \<and>
        \<bar>of_nat n1 - 1000 * of_int (t - i) / (of_int t :: rat)\<bar> < 501 / 1000 \<and>
        \<bar>of_nat n2 - 1000 * of_int i / (of_int t :: rat)\<bar> < 501 / 1000)"

lemma usage_text_shown:
  assumes "0 \<le> i" and "i \<le> t"
  shows "usage_shown nan_neg i t (usage_text nan_neg (share_of (t - i) (share_scale t)) (share_of i (share_scale t)))"
    and "length (usage_text nan_neg (share_of (t - i) (share_scale t)) (share_of i (share_scale t))) < 100"
proof -
  have "usage_shown nan_neg i t (usage_text nan_neg (share_of (t - i) (share_scale t)) (share_of i (share_scale t))) \<and>
      length (usage_text nan_neg (share_of (t - i) (share_scale t)) (share_of i (share_scale t))) < 100"
  proof (cases "t = 0")
    case True
    then have "share_of i (share_scale t) = Nan" "share_of (t - i) (share_scale t) = Nan"
      using assms by (simp_all add: share_of_def share_scale_def float_of_int_def f_round_def)
    then show ?thesis using True by (simp add: usage_shown_def usage_text_def)
  next
    case False
    then have t: "0 < t" using assms by simp
    obtain n1 where n1: "fmt_1f nan_neg (share_of (t - i) (share_scale t)) = tenths n1"
        "\<bar>of_nat n1 - 1000 * of_int (t - i) / (of_int t :: rat)\<bar> < 501 / 1000" "n1 \<le> 1000"
      by (rule share_tenths [OF t, of "t - i"]) (use assms in simp_all)
    obtain n2 where n2: "fmt_1f nan_neg (share_of i (share_scale t)) = tenths n2"
        "\<bar>of_nat n2 - 1000 * of_int i / (of_int t :: rat)\<bar> < 501 / 1000" "n2 \<le> 1000"
      by (rule share_tenths [OF t assms])
    show ?thesis
      using n1 n2 t tenths_length [OF n1(3)] tenths_length [OF n2(3)] unfolding usage_shown_def usage_text_def by auto
  qed
  then show "usage_shown nan_neg i t (usage_text nan_neg (share_of (t - i) (share_scale t)) (share_of i (share_scale t)))"
    "length (usage_text nan_neg (share_of (t - i) (share_scale t)) (share_of i (share_scale t))) < 100" by blast+
qed

lemma cpu_usage_step:
  assumes "files w ''/proc/stat'' = Some (stat_text t r tail_text)" and "\<not> cannot_read w ''/proc/stat''" and "stat_ok t r"
    and "ticks_ok (cpu_old st)" and "ticks_le (cpu_old st) t" and "length (cpu_usage_buf st) = 256"
  shows "if 2 ^ 63 \<le> elapsed (cpu_old st) t then libamg_system_get_cpu_usage nan_neg st w = Inl Signed_Overflow
    else \<exists>s st'. libamg_system_get_cpu_usage nan_neg st w = Inr (Some s, st', w) \<and> cpu_old st' = t \<and>
      length (cpu_usage_buf st') = 256 \<and> usage_shown nan_neg (idle t - idle (cpu_old st)) (elapsed (cpu_old st) t) s"
proof -
  let ?old = "cpu_old st" and ?t = "elapsed (cpu_old st) t" and ?i = "idle t - idle (cpu_old st)"
  have l: "cstr ((stat_line t r @ [LF]) @ [NUL]) 0 = stat_line t (r @ [LF])"
    using cstr_app_NUL [of "stat_line t (r @ [LF])" "[]"] stat_text_line(2) [OF assms(3)] by (simp add: stat_line_def)
  have sc: "scan_cpu (stat_line t (r @ [LF])) = Some t"
    using assms(3) by (intro scan_cpu_line) (simp add: stat_ok_def)
  have buf: "length (clear4 (cpu_usage_buf st)) = 256" using assms(6) by (simp add: clear4_def)
  have ok: "ticks_ok t" using assms(3) by (simp add: stat_ok_def)
  note sums = ticks_sums [OF assms(4) ok assms(5)]
  let ?s = "usage_text nan_neg (share_of (?t - ?i) (share_scale ?t)) (share_of ?i (share_scale ?t))"
  have shown: "usage_shown nan_neg ?i ?t ?s" "length ?s < 100" by (rule usage_text_shown [OF sums(4,5)])+
  note run = libamg_system_get_cpu_usage_def FILE_SYSTEM_CPU_USAGE_def fopen_r_ok [OF assms(1,2)]
    stat_text_line(1) [OF assms(3), of tail_text] l [unfolded append_assoc append.simps] sc sums(1,3)
  show ?thesis
  proof (cases "2 ^ 63 \<le> ?t")
    case True
    then have "\<not> ?t < 2 ^ 63" by simp
    then show ?thesis using True by (simp add: run Let_def del: power_numeral)
  next
    case False
    then have lt: "?t < 2 ^ 63" by simp
    have "libamg_system_get_cpu_usage nan_neg st w =
        Inr (Some ?s, st\<lparr>cpu_usage_buf := ?s @ NUL # drop (Suc (length ?s)) (clear4 (cpu_usage_buf st)), cpu_old := t\<rparr>, w)"
      using lt shown(2) buf by (simp add: run sums(2) f_close_def Let_def del: power_numeral)
    then show ?thesis using False shown buf by simp
  qed
qed

text \<open>C40: Called twice, with counters that do not decrease, the second call reports the shares of the ticks
  between the two readings, whatever was reported before: with \<open>t\<close> ticks between them, of which \<open>i\<close> are idle, it
  prints the two percentages 100 (t - i) / t and 100 i / t to one decimal, each within 0.0501 of the exact value.
  With no tick between the readings it prints two NaNs, and 2 ^ 63 ticks or more overflow the sum. The file is
  closed, and the second reading is remembered.\<close>

theorem cpu_usage_since_last:
  assumes "files w1 ''/proc/stat'' = Some (stat_text a ra m1)" and "\<not> cannot_read w1 ''/proc/stat''" and "stat_ok a ra"
    and "files w2 ''/proc/stat'' = Some (stat_text b rb m2)" and "\<not> cannot_read w2 ''/proc/stat''" and "stat_ok b rb"
    and "ticks_ok (cpu_old st)" and "ticks_le (cpu_old st) a" and "elapsed (cpu_old st) a < 2 ^ 63" and "ticks_le a b"
    and "length (cpu_usage_buf st) = 256"
  shows "\<exists>s1 st1. libamg_system_get_cpu_usage nan_neg st w1 = Inr (Some s1, st1, w1) \<and>
    (let t = elapsed a b; i = idle b - idle a in
     if 2 ^ 63 \<le> t then libamg_system_get_cpu_usage nan_neg st1 w2 = Inl Signed_Overflow
     else \<exists>s2 st2. libamg_system_get_cpu_usage nan_neg st1 w2 = Inr (Some s2, st2, w2) \<and> cpu_old st2 = b \<and>
       (if t = 0 then s2 = usage_text nan_neg Nan Nan
        else \<exists>n1 n2. s2 = tenths n1 @ ''% system, '' @ tenths n2 @ ''% idle'' \<and>
          \<bar>of_nat n1 - 1000 * of_int (t - i) / (of_int t :: rat)\<bar> < 501 / 1000 \<and>
          \<bar>of_nat n2 - 1000 * of_int i / (of_int t :: rat)\<bar> < 501 / 1000))"
proof -
  have "\<not> 2 ^ 63 \<le> elapsed (cpu_old st) a" using assms(9) by simp
  then obtain s1 st1 where s1: "libamg_system_get_cpu_usage nan_neg st w1 = Inr (Some s1, st1, w1)" "cpu_old st1 = a"
      "length (cpu_usage_buf st1) = 256"
    using cpu_usage_step [OF assms(1-3,7,8,11), of nan_neg] by (simp only: if_False) blast
  have ok: "ticks_ok a" using assms(3) by (simp add: stat_ok_def)
  have "if 2 ^ 63 \<le> elapsed a b then libamg_system_get_cpu_usage nan_neg st1 w2 = Inl Signed_Overflow
      else \<exists>s st'. libamg_system_get_cpu_usage nan_neg st1 w2 = Inr (Some s, st', w2) \<and> cpu_old st' = b \<and>
        length (cpu_usage_buf st') = 256 \<and> usage_shown nan_neg (idle b - idle a) (elapsed a b) s"
    by (rule cpu_usage_step [OF assms(4-6), of st1 nan_neg, unfolded s1(2), OF ok assms(10) s1(3)])
  then show ?thesis
    using s1(1) unfolding usage_shown_def Let_def
    by (intro exI [where x = s1] exI [where x = st1]) (auto split: if_splits)
qed

lemma c_strstr_skip:
  assumes "x \<notin> set p" and "p \<noteq> []"
  shows "c_strstr a p = None \<Longrightarrow> c_strstr (a @ x # p @ r) p = Some (Suc (length a))"
proof (induction a)
  case Nil
  have "take (length p) (x # p @ r) \<noteq> p" using assms by (cases p) auto
  moreover have "c_strstr (p @ r) p = Some 0" using assms(2) by (cases p) simp_all
  ultimately show ?case by simp
next
  case (Cons c a)
  have "take (length p) (c # a @ x # p @ r) \<noteq> p"
  proof
    assume eq: "take (length p) (c # a @ x # p @ r) = p"
    show False
    proof (cases "length p \<le> length (c # a)")
      case True
      then have "take (length p) (c # a) = p" using eq by (cases p) auto
      then show False using Cons.prems by (simp split: if_splits)
    next
      case False
      then have "x \<in> set (take (length p) (c # a @ x # p @ r))" by (cases "length p") (auto simp: take_Cons' in_set_conv_nth)
      then show False using eq assms(1) by simp
    qed
  qed
  then show ?case using Cons by (simp split: if_splits)
qed

lemma take_past: "length p \<le> n \<Longrightarrow> take n (p @ r) = p @ take (n - length p) r"
  by simp

text \<open>From an environment block that holds the setting between NULs, or line feeds, the serial number is
  copied, cut or padded with NULs to the size of the array, so it is not terminated when it fills the
  array. The file stays open.\<close>

theorem serialnum_found:
  assumes "files w ''/dev/mtd1'' = Some (pre @ NUL # ''serialnum='' @ s @ NUL # post)" and "\<not> cannot_read w ''/dev/mtd1''"
    and "length pre + length s + 12 \<le> 4096" and "NUL \<notin> set s" and "LF \<notin> set s"
    and "c_strstr (map (\<lambda>c. if c = NUL then LF else c) pre) ''serialnum='' = None"
  shows "libamg_system_get_serialnum junk maxlen w =
     Inr (0, take maxlen (s @ replicate maxlen NUL), w\<lparr>open_files := open_files w + 1\<rparr>)"
proof -
  let ?f = "\<lambda>c. if c = NUL then LF else c"
  let ?t = "pre @ NUL # ''serialnum='' @ s @ NUL # post"
  have s: "map ?f s = s" using assms(4) by (intro map_idI) auto
  obtain q where q: "take (min 4096 (length ?t)) ?t @ drop (min 4096 (length ?t)) junk = pre @ NUL # ''serialnum='' @ s @ NUL # q"
  proof -
    let ?p = "pre @ NUL # ''serialnum='' @ s @ [NUL]"
    have "length ?p \<le> min 4096 (length ?t)" using assms(3) by simp
    then have "take (min 4096 (length ?t)) (?p @ post) = ?p @ take (min 4096 (length ?t) - length ?p) post"
      by (rule take_past)
    then show thesis using that by simp
  qed
  let ?b = "map ?f pre @ LF # ''serialnum='' @ s @ LF # map ?f q"
  have b: "map ?f (take (min 4096 (length ?t)) ?t @ drop (min 4096 (length ?t)) junk) = ?b"
    unfolding q using s by simp
  have k: "c_strstr ?b ''serialnum='' = Some (Suc (length pre))"
    using c_strstr_skip [of LF "''serialnum=''" "map ?f pre" "s @ LF # map ?f q"] assms(6) by simp
  have d: "drop (Suc (length pre) + 10) ?b = s @ LF # map ?f q" by simp
  have tw: "takeWhile (\<lambda>c. c \<noteq> LF) (s @ LF # map ?f q) = s" using assms(5) by (intro takeWhile_append_stop) auto
  show ?thesis
    unfolding libamg_system_get_serialnum_def FILE_SYSTEM_SERIAL_NUM_def fopen_r_ok [OF assms(1,2)] prod.case option.case
      Let_def b k d tw
    by simp
qed

definition demo_file :: "path \<Rightarrow> string \<Rightarrow> world" where
  "demo_file p text = \<lparr>files = [p \<mapsto> text], cannot_read = \<lambda>_. False, cannot_write = \<lambda>_. False,
     shell = \<lambda>_ fs. (0, fs), alloc_ok = \<lambda>_. True, allocs = 0, live = 0, open_files = 0, cmds = []\<rparr>"

lemma demo_file_simps [simp]:
  "files (demo_file p text) p = Some text" "\<not> cannot_read (demo_file p text) q" "open_files (demo_file p text) = 0"
  by (simp_all add: demo_file_def)

theorem cpu_info_whole_witness:
  "libamg_system_get_cpu_info (demo_file ''/proc/cpuinfo'' (''ARMv6'' @ [LF] @ ''BogoMIPS'' @ [LF])) =
     Inr (Some (''ARMv6'' @ [LF] @ ''BogoMIPS'' @ [LF]), demo_file ''/proc/cpuinfo'' (''ARMv6'' @ [LF] @ ''BogoMIPS'' @ [LF]))"
  using cpu_info_whole [OF demo_file_simps(1,2)] by simp

definition demo_ticks :: "int \<Rightarrow> int \<Rightarrow> cpu_times" where
  "demo_ticks b i = \<lparr>user = b, nice = 0, system = 1, idle = i, iowait = 0, irq = 0, softirq = 0\<rparr>"

theorem cpu_usage_since_last_witness:
  "\<exists>s1 st1 s2 st2. libamg_system_get_cpu_usage False
       \<lparr>uptime_buf = [], cpu_usage_buf = replicate 256 NUL, cpu_old = demo_ticks 0 0\<rparr>
       (demo_file ''/proc/stat'' (stat_text (demo_ticks 5 9) ''0 0'' ''cpu0'')) =
       Inr (Some s1, st1, demo_file ''/proc/stat'' (stat_text (demo_ticks 5 9) ''0 0'' ''cpu0'')) \<and>
     libamg_system_get_cpu_usage False st1 (demo_file ''/proc/stat'' (stat_text (demo_ticks 12 12) ''0 0'' ''cpu0'')) =
       Inr (Some s2, st2, demo_file ''/proc/stat'' (stat_text (demo_ticks 12 12) ''0 0'' ''cpu0'')) \<and>
     s2 = ''70.0% system, 30.0% idle''"
proof -
  have ok: "stat_ok (demo_ticks 5 9) ''0 0''" "stat_ok (demo_ticks 12 12) ''0 0''"
    by (simp_all add: stat_ok_def ticks_ok_def demo_ticks_def)
  have d: "elapsed (demo_ticks 5 9) (demo_ticks 12 12) = 10" "idle (demo_ticks 12 12) - idle (demo_ticks 5 9) = 3"
    by (simp_all add: elapsed_def demo_ticks_def)
  let ?st = "\<lparr>uptime_buf = [], cpu_usage_buf = replicate 256 NUL, cpu_old = demo_ticks 0 0\<rparr>"
  have st: "ticks_ok (cpu_old ?st)" "ticks_le (cpu_old ?st) (demo_ticks 5 9)" "elapsed (cpu_old ?st) (demo_ticks 5 9) < 2 ^ 63"
    "ticks_le (demo_ticks 5 9) (demo_ticks 12 12)" "length (cpu_usage_buf ?st) = 256"
    by (simp_all add: ticks_ok_def ticks_le_def elapsed_def demo_ticks_def)
  have n: "n = 700" if "\<bar>of_nat n - (700 :: rat)\<bar> * 1000 < 501" for n
  proof -
    have "\<bar>of_nat n - (700 :: rat)\<bar> < 501 / 1000" using that by simp
    then have "(of_nat n :: rat) < 701" "(699 :: rat) < of_nat n" by linarith+
    then have "n < 701" "699 < n" by simp_all
    then show ?thesis by simp
  qed
  have m: "n = 300" if "\<bar>of_nat n - (300 :: rat)\<bar> * 1000 < 501" for n
  proof -
    have "\<bar>of_nat n - (300 :: rat)\<bar> < 501 / 1000" using that by simp
    then have "(of_nat n :: rat) < 301" "(299 :: rat) < of_nat n" by linarith+
    then have "n < 301" "299 < n" by simp_all
    then show ?thesis by simp
  qed
  have t: "tenths 700 = ''70.0''" "tenths 300 = ''30.0''" by (simp_all add: tenths_def show_nat.simps)
  show ?thesis
    using cpu_usage_since_last [OF demo_file_simps(1,2) ok(1) demo_file_simps(1,2) ok(2) st, of False "''cpu0''" "''cpu0''"]
    unfolding d Let_def by (auto dest!: n m simp: t)
qed

theorem serialnum_found_witness:
  "libamg_system_get_serialnum (replicate 4096 NUL) 8
      (demo_file ''/dev/mtd1'' (''ethaddr=1'' @ NUL # ''serialnum='' @ ''4711'' @ NUL # [NUL])) =
    Inr (0, ''4711'' @ replicate 4 NUL,
      (demo_file ''/dev/mtd1'' (''ethaddr=1'' @ NUL # ''serialnum='' @ ''4711'' @ NUL # [NUL]))\<lparr>open_files := 1\<rparr>)"
  using serialnum_found [OF demo_file_simps(1,2), of "''ethaddr=1''" "''4711''" "replicate 4096 NUL" 8 "[NUL]"]
  by simp

end
