(* ===== verification/Api_Calls.thy ===== *)
theory Api_Calls
  imports Sys_Log Extensions Sip_Query Comcerto_Save Dahdi Process System_Info
begin

text \<open>
  Sequences of calls of the library, across its modules: configuration files, flags and reports over one
  world. Every call is confined to the files it writes itself and to what the commands it starts write; on
  this rest what the modules rely on of each other, and what a program that makes many calls accumulates.
\<close>

subsection \<open>What one call may change\<close>

text \<open>\<open>S c\<close> are the files that the command \<open>c\<close> may change: an assumption about the shell.\<close>

definition obeys :: "(string \<Rightarrow> path set) \<Rightarrow> (string \<Rightarrow> file_system \<Rightarrow> int \<times> file_system) \<Rightarrow> bool" where
  "obeys S sh \<longleftrightarrow> (\<forall>c fs f. f \<notin> S c \<longrightarrow> snd (sh c fs) f = fs f)"

definition same_answers :: "world \<Rightarrow> world \<Rightarrow> bool" where
  "same_answers w w' \<longleftrightarrow> shell w' = shell w \<and> cannot_read w' = cannot_read w \<and> cannot_write w' = cannot_write w \<and>
     alloc_ok w' = alloc_ok w"

text \<open>No command removes the file, and it is not a flag.\<close>

definition lasting :: "world \<Rightarrow> path \<Rightarrow> bool" where
  "lasting w p \<longleftrightarrow> (\<forall>c fs. fs p \<noteq> None \<longrightarrow> snd (shell w c fs) p \<noteq> None) \<and> (\<forall>f. p \<noteq> FLAG_DIR @ f)"

text \<open>From \<open>w\<close> to \<open>w'\<close> only files in \<open>W\<close> and those of the commands that were run change; \<open>d\<close> more
  streams are open.\<close>

definition frame :: "(string \<Rightarrow> path set) \<Rightarrow> path set \<Rightarrow> int \<Rightarrow> world \<Rightarrow> world \<Rightarrow> bool" where
  "frame S W d w w' \<longleftrightarrow> same_answers w w' \<and> open_files w' = open_files w + d \<and>
     (\<forall>p. lasting w p \<longrightarrow> files w p \<noteq> None \<longrightarrow> files w' p \<noteq> None) \<and>
     (\<exists>cs. cmds w' = cmds w @ cs \<and>
       (obeys S (shell w) \<longrightarrow> (\<forall>f. f \<notin> W \<longrightarrow> (\<forall>c \<in> set cs. f \<notin> S c) \<longrightarrow> files w' f = files w f)))"

lemma frame_trans:
  assumes "frame S W d w w1" and "frame S W e w1 w2"
  shows "frame S W (d + e) w w2"
proof -
  obtain cs where a: "same_answers w w1" "open_files w1 = open_files w + d" "cmds w1 = cmds w @ cs"
      "obeys S (shell w) \<longrightarrow> (\<forall>f. f \<notin> W \<longrightarrow> (\<forall>c \<in> set cs. f \<notin> S c) \<longrightarrow> files w1 f = files w f)"
      "\<And>p. lasting w p \<Longrightarrow> files w p \<noteq> None \<Longrightarrow> files w1 p \<noteq> None"
    using assms(1) by (auto simp: frame_def)
  obtain cs' where b: "same_answers w1 w2" "open_files w2 = open_files w1 + e" "cmds w2 = cmds w1 @ cs'"
      "obeys S (shell w1) \<longrightarrow> (\<forall>f. f \<notin> W \<longrightarrow> (\<forall>c \<in> set cs'. f \<notin> S c) \<longrightarrow> files w2 f = files w1 f)"
      "\<And>p. lasting w1 p \<Longrightarrow> files w1 p \<noteq> None \<Longrightarrow> files w2 p \<noteq> None"
    using assms(2) by (auto simp: frame_def)
  have "same_answers w w2" and sh: "shell w1 = shell w" using a(1) b(1) by (simp_all add: same_answers_def)
  moreover have "lasting w p \<Longrightarrow> files w p \<noteq> None \<Longrightarrow> files w2 p \<noteq> None" for p
    using a(5) b(5) sh by (simp add: lasting_def)
  moreover have "cmds w2 = cmds w @ (cs @ cs')" using a(3) b(3) by simp
  ultimately show ?thesis
    unfolding frame_def using a(2,4) b(2,4) sh
    by (intro conjI exI [of _ "cs @ cs'"]) auto
qed

lemma frame_mono: "frame S W d w w' \<Longrightarrow> W \<subseteq> W' \<Longrightarrow> frame S W' d w w'"
  unfolding frame_def by blast

lemma frame_same:
  "same_answers w w' \<Longrightarrow> open_files w' = open_files w + d \<Longrightarrow> cmds w' = cmds w \<Longrightarrow> (\<And>f. f \<notin> W \<Longrightarrow> files w' f = files w f) \<Longrightarrow>
     (\<And>p. lasting w p \<Longrightarrow> files w p \<noteq> None \<Longrightarrow> files w' p \<noteq> None) \<Longrightarrow> frame S W d w w'"
  by (auto simp: frame_def)

named_theorems frames

lemma frame_heap [frames]:
  "frame S W 0 w w" "frame S W 0 w (c_free w)" "frame S W 0 w (snd (c_malloc w))" "frame S W (- 1) w (f_close w)"
  by (auto intro!: frame_same simp: same_answers_def c_free_def c_malloc_def f_close_def)

lemma frame_print [frames]: "p \<in> W \<Longrightarrow> frame S W 0 w (f_print p s w)"
  by (intro frame_same) (auto simp: f_print_def same_answers_def)

lemma frame_prints [frames]: "p \<in> W \<Longrightarrow> frame S W 0 w (f_prints p ss w)"
proof (induction ss arbitrary: w)
  case (Cons s ss)
  show ?case
    using frame_trans [OF frame_print [OF Cons.prems, of S w s] Cons.IH [OF Cons.prems]] by (simp add: f_prints_def)
qed (simp add: f_prints_def frames)

lemma frame_system [frames]: "frame S W 0 w (snd (c_system c w))"
proof -
  have "obeys S (shell w) \<Longrightarrow> f \<notin> S c \<Longrightarrow> files (snd (c_system c w)) f = files w f" for f
    by (auto simp: obeys_def c_system_def split: prod.split) (metis snd_conv)
  moreover have "lasting w p \<Longrightarrow> files w p \<noteq> None \<Longrightarrow> files (snd (c_system c w)) p \<noteq> None" for p
    by (simp add: lasting_def c_system_def split: prod.split) (metis snd_conv)
  ultimately show ?thesis by (simp add: frame_def same_answers_def)
qed

lemma frame_run_cmds [frames]: "frame S W 0 w (run_cmds cs w)"
proof (induction cs arbitrary: w)
  case (Cons c cs)
  show ?case using frame_trans [OF frame_system Cons.IH] by simp
qed (simp add: frames)

lemma frame_open_r: "fopen_r p w = (x, w') \<Longrightarrow> frame S W (if x = None then 0 else 1) w w'"
  by (intro frame_same) (auto simp: fopen_r_def same_answers_def split: option.splits if_splits)

lemma frame_open_w: "fopen_w p w = (b, w') \<Longrightarrow> p \<in> W \<Longrightarrow> frame S W (if b then 1 else 0) w w'"
  by (intro frame_same) (auto simp: fopen_w_def same_answers_def split: if_splits)

lemma frame_alloc_open: "alloc_and_open p w = (x, w') \<Longrightarrow> frame S W (if x = None then 0 else 1) w w'"
  by (rule alloc_and_open_cases [of w p]) (auto intro!: frame_same simp: same_answers_def)

lemma frame_close: "frame S W 1 w w1 \<Longrightarrow> frame S W 0 w (f_close w1)"
  using frame_trans [OF _ frame_heap(4)] by fastforce

lemma frame_zero: "frame S W 0 w w1 \<Longrightarrow> frame S W d w1 w2 \<Longrightarrow> frame S W d w w2"
  using frame_trans by fastforce

subsection \<open>The shapes of the functions\<close>

lemma frame_writer:
  assumes "(case fopen_w p w of (False, w1) \<Rightarrow> (- 1, w1) | (True, w1) \<Rightarrow> (0, f_close (f_prints p ss w1))) = (r :: int, w')"
    and "p \<in> W"
  shows "frame S W 0 w w'"
proof (cases "fopen_w p w")
  case (Pair b w1)
  note open_w = frame_open_w [OF Pair assms(2), of S]
  show ?thesis
  proof (cases b)
    case True
    then have "frame S W 1 w (f_prints p ss w1)" using frame_trans [OF open_w frame_prints [OF assms(2)]] by simp
    then show ?thesis using True Pair assms(1) frame_close by auto
  qed (use Pair assms(1) open_w in simp)
qed

lemma frame_truncate:
  assumes "(case fopen_w p w of (False, w1) \<Rightarrow> (- 1, w1) | (True, w1) \<Rightarrow> (0, f_close w1)) = (r :: int, w')" and "p \<in> W"
  shows "frame S W 0 w w'"
proof (cases "fopen_w p w")
  case (Pair b w1)
  show ?thesis using frame_open_w [OF Pair assms(2), of S] frame_close Pair assms(1) by (cases b) auto
qed

lemma frame_reader:
  assumes "fopen_r p w = (x, w1)" and "w' = (if x = None then w1 else f_close w1)"
  shows "frame S W 0 w w'"
  using frame_open_r [OF assms(1), of S W] assms(2) frame_close by auto

lemma frame_parser:
  assumes "(case alloc_and_open p w of (None, w1) \<Rightarrow> Inr (None, w1)
      | (Some content, w1) \<Rightarrow> (case r content of Inl e \<Rightarrow> Inl e | Inr c \<Rightarrow> Inr (Some c, f_close w1))) = Inr (x, w')"
  shows "frame S W 0 w w'"
proof (cases "alloc_and_open p w")
  case (Pair y w1)
  then show ?thesis
    using assms frame_alloc_open [OF Pair, of S W] frame_close by (auto split: option.splits sum.splits)
qed

lemma frame_user:
  assumes "case r of Inl e \<Rightarrow> True | Inr (x, w1) \<Rightarrow> frame S W 0 w w1"
    and "(case r of Inl e \<Rightarrow> Inl e | Inr (None, w1) \<Rightarrow> a w1 | Inr (Some c, w1) \<Rightarrow> b c w1) = Inr (y, w')"
    and "\<And>w1. a w1 = Inr (y, w') \<Longrightarrow> frame S W 0 w1 w'" and "\<And>c w1. b c w1 = Inr (y, w') \<Longrightarrow> frame S W 0 w1 w'"
  shows "frame S W 0 w w'"
  using assms frame_zero by (fastforce split: sum.splits prod.splits option.splits)

lemma parsers_frame [frames]:
  "libamg_sys_log_parse_config w = Inr (x1, w') \<Longrightarrow> frame S W 0 w w'"
  "libamg_extensions_parse_config w = Inr (x2, w') \<Longrightarrow> frame S W 0 w w'"
  "libamg_comcerto_parse_config w = Inr (x3, w') \<Longrightarrow> frame S W 0 w w'"
  unfolding libamg_sys_log_parse_config_def libamg_extensions_parse_config_def libamg_comcerto_parse_config_def
  by (rule frame_parser, assumption)+

lemma sip_parse_frame [frames]: "libamg_sip_parse_config sc w = Inr (x, w') \<Longrightarrow> frame S W 0 w w'"
  unfolding libamg_sip_parse_config_def
  by (rule frame_parser [where p = FILE_SIP_CONF and x = x and r = "\<lambda>content. map_sum id fst (conf_read SIP_BUF_SIZE sip_delims (sip_set sc) (sip_empty, 0) content)"])
    (auto split: sum.splits prod.splits option.splits)

subsection \<open>The calls\<close>

datatype api_call =
    Sys_Log_Parse | Sys_Log_Save sys_log_config | Sys_Log_Apply | Sys_Log_Reset
  | Ext_Check | Ext_Flush | Ext_Reset | Ext_Parse | Ext_Save extensions_config | Ext_Flash
  | Comcerto_Parse | Comcerto_Save comcerto_config | Cng_Enable | Vad_Enable | Bitrate_Name | Packet_Interval int
  | Comcerto_Reset | Rtp_Reload | Set_Debugging
  | Sip_Parse | Sip_Save libamg_sip_config | Sip_Reset | Sip_Flash | Min_Interval
  | Dahdi_Parse | Dahdi_Save libamg_dahdi_config | Dahdi_Reset | Dahdi_Apply | Dahdi_Flash
  | Ais_Check bool | Ais_Set int | Ais_Apply
  | Set_Flag string | Check_Flag string | Clear_Flag string
  | Get_Version | Get_Memory | Get_Cpu_Info | Get_Serialnum "char list" nat

definition after :: "('a \<times> world) outcome \<Rightarrow> world outcome" where
  "after r = map_sum id snd r"

lemma after_Inr [simp]: "after r = Inr w' \<longleftrightarrow> (\<exists>x. r = Inr (x, w'))"
  by (cases r) (auto simp: after_def)

text \<open>\<open>sc\<close>: whether \<open>char\<close> is signed; \<open>std\<close>: which of the two channel formats of dahdi.c is compiled in.\<close>

fun api :: "bool \<Rightarrow> bool \<Rightarrow> api_call \<Rightarrow> world \<Rightarrow> world outcome" where
  "api sc std Sys_Log_Parse w = after (libamg_sys_log_parse_config w)"
| "api sc std (Sys_Log_Save c) w = Inr (snd (libamg_sys_log_save_config c w))"
| "api sc std Sys_Log_Apply w = after (libamg_sys_log_daemon_apply_config w)"
| "api sc std Sys_Log_Reset w = Inr (snd (libamg_sys_log_reset_config w))"
| "api sc std Ext_Check w = Inr (snd (libamg_extensions_check_config w))"
| "api sc std Ext_Flush w = Inr (snd (libamg_extensions_flush_config w))"
| "api sc std Ext_Reset w = Inr (snd (libamg_extensions_reset_config w))"
| "api sc std Ext_Parse w = after (libamg_extensions_parse_config w)"
| "api sc std (Ext_Save c) w = Inr (snd (libamg_extensions_save_config c w))"
| "api sc std Ext_Flash w = Inr (libamg_extensions_flash_save_config w)"
| "api sc std Comcerto_Parse w = after (libamg_comcerto_parse_config w)"
| "api sc std (Comcerto_Save c) w = after (libamg_comcerto_save_config sc c w)"
| "api sc std Cng_Enable w = after (libamg_comcerto_get_cng_enable w)"
| "api sc std Vad_Enable w = after (libamg_comcerto_get_vad_enable w)"
| "api sc std Bitrate_Name w = after (libamg_comcerto_get_codec_g723_1_bitrate_name w)"
| "api sc std (Packet_Interval k) w = after (libamg_comcerto_get_codec_packetization_interval k w)"
| "api sc std Comcerto_Reset w = Inr (snd (libamg_comcerto_reset_config w))"
| "api sc std Rtp_Reload w = Inr (snd (libamg_comcerto_rtp_reload w))"
| "api sc std Set_Debugging w = after (libamg_comcerto_set_debugging w)"
| "api sc std Sip_Parse w = after (libamg_sip_parse_config sc w)"
| "api sc std (Sip_Save c) w = after (map_sum id snd (libamg_sip_save_config sc c w))"
| "api sc std Sip_Reset w = Inr (snd (libamg_sip_reset_config w))"
| "api sc std Sip_Flash w = Inr (libamg_sip_flash_save_config w)"
| "api sc std Min_Interval w = after (libamg_sip_get_min_codec_intvl sc w)"
| "api sc std Dahdi_Parse w = after (libamg_dahdi_parse_config std w)"
| "api sc std (Dahdi_Save c) w = Inr (snd (libamg_dahdi_save_config std c w))"
| "api sc std Dahdi_Reset w = Inr (snd (libamg_dahdi_reset_config w))"
| "api sc std Dahdi_Apply w = Inr (libamg_dahdi_apply_config w)"
| "api sc std Dahdi_Flash w = Inr (libamg_dahdi_flash_save_config w)"
| "api sc std (Ais_Check compiled) w = after (libamg_ais_daemon_check compiled w)"
| "api sc std (Ais_Set b) w = Inr (snd (libamg_ais_daemon_set b w))"
| "api sc std Ais_Apply w = Inr (snd (libamg_ais_daemon_apply_config w))"
| "api sc std (Set_Flag f) w = after (libamg_process_set_flag f w)"
| "api sc std (Check_Flag f) w = map_sum id (\<lambda>_. w) (libamg_process_check_flag f w)"
| "api sc std (Clear_Flag f) w = after (libamg_process_clear_flag f w)"
| "api sc std Get_Version w = Inr (snd (libamg_system_get_version w))"
| "api sc std Get_Memory w = after (libamg_system_get_memory w)"
| "api sc std Get_Cpu_Info w = after (libamg_system_get_cpu_info w)"
| "api sc std (Get_Serialnum junk n) w = after (map_sum id snd (libamg_system_get_serialnum junk n w))"

fun writes :: "api_call \<Rightarrow> path set" where
  "writes (Sys_Log_Save c) = {FILE_SYS_LOG_CONF}"
| "writes Ext_Flush = {FILE_EXTENSIONS_CONF}"
| "writes (Ext_Save c) = {FILE_EXTENSIONS_CONF}"
| "writes (Comcerto_Save c) = {FILE_COMCERTO_CONF, FILE_SIP_CONF}"
| "writes (Sip_Save c) = {FILE_SIP_CONF}"
| "writes (Dahdi_Save c) = {FILE_DAHDI_SYSTEM_CONF, FILE_CHAN_DAHDI_CONF}"
| "writes (Ais_Set b) = {FILE_AISDAEMON_CONF}"
| "writes (Set_Flag f) = {FLAG_DIR @ f}"
| "writes (Clear_Flag f) = {FLAG_DIR @ f}"
| "writes c = {}"

text \<open>The serial number is read from a stream that is never closed.\<close>

fun streams :: "api_call \<Rightarrow> int" where
  "streams (Get_Serialnum junk n) = 1"
| "streams c = 0"

abbreviation run_calls :: "bool \<Rightarrow> bool \<Rightarrow> api_call list \<Rightarrow> world \<Rightarrow> world outcome" where
  "run_calls sc std cs w \<equiv> run_steps (\<lambda>w c. api sc std c w) w cs"

subsection \<open>Every call is confined\<close>

definition confined :: "(string \<Rightarrow> path set) \<Rightarrow> path set \<Rightarrow> int \<Rightarrow> world \<Rightarrow> world outcome \<Rightarrow> bool" where
  "confined S W k w r \<longleftrightarrow> (\<forall>w'. r = Inr w' \<longrightarrow> (\<exists>d. 0 \<le> d \<and> d \<le> k \<and> frame S W d w w'))"

lemma confinedI: "(\<And>w'. r = Inr w' \<Longrightarrow> frame S W 0 w w') \<Longrightarrow> 0 \<le> k \<Longrightarrow> confined S W k w r"
  unfolding confined_def by blast

lemma sys_log_confined:
  "confined S (writes Sys_Log_Parse) 0 w (api sc std Sys_Log_Parse w)"
  "confined S (writes (Sys_Log_Save c)) 0 w (api sc std (Sys_Log_Save c) w)"
  "confined S (writes Sys_Log_Apply) 0 w (api sc std Sys_Log_Apply w)"
  "confined S (writes Sys_Log_Reset) 0 w (api sc std Sys_Log_Reset w)"
proof -
  show "confined S (writes (Sys_Log_Save c)) 0 w (api sc std (Sys_Log_Save c) w)"
    by (rule confinedI) (auto simp: libamg_sys_log_save_config_def intro: frame_writer [OF prod.collapse [symmetric]])
  have two: "frame S {} 0 w1 (c_free (snd (c_system c (snd (c_system d w1)))))" for c d w1
    using frame_zero [OF frame_system frame_zero [OF frame_system frame_heap(2)]] .
  then show "confined S (writes Sys_Log_Apply) 0 w (api sc std Sys_Log_Apply w)"
    by (intro confinedI)
      (auto simp: libamg_sys_log_daemon_apply_config_def Let_def split: sum.splits option.splits if_splits
        dest!: parsers_frame(1) [where S = S and W = "{}"] intro: frame_zero [OF _ two])
qed (auto intro!: confinedI intro: frames simp: libamg_sys_log_reset_config_def)

lemma extensions_confined:
  "confined S (writes Ext_Check) 0 w (api sc std Ext_Check w)"
  "confined S (writes Ext_Flush) 0 w (api sc std Ext_Flush w)"
  "confined S (writes Ext_Reset) 0 w (api sc std Ext_Reset w)"
  "confined S (writes Ext_Parse) 0 w (api sc std Ext_Parse w)"
  "confined S (writes (Ext_Save c)) 0 w (api sc std (Ext_Save c) w)"
  "confined S (writes Ext_Flash) 0 w (api sc std Ext_Flash w)"
proof -
  show "confined S (writes (Ext_Save c)) 0 w (api sc std (Ext_Save c) w)"
    by (rule confinedI) (auto simp: libamg_extensions_save_config_def intro: frame_writer [OF prod.collapse [symmetric]])
  show "confined S (writes Ext_Flush) 0 w (api sc std Ext_Flush w)"
    by (rule confinedI) (auto simp: libamg_extensions_flush_config_def intro: frame_truncate [OF prod.collapse [symmetric]])
  show "confined S (writes Ext_Check) 0 w (api sc std Ext_Check w)"
    by (rule confinedI) (auto simp: libamg_extensions_check_config_def intro!: frame_reader split: option.splits prod.splits)
qed (auto intro!: confinedI intro: frames simp: libamg_extensions_reset_config_def libamg_extensions_flash_save_config_def
    simp del: run_cmds_simps)

lemma comcerto_confined:
  "confined S (writes Comcerto_Parse) 0 w (api sc std Comcerto_Parse w)"
  "confined S (writes Cng_Enable) 0 w (api sc std Cng_Enable w)"
  "confined S (writes Vad_Enable) 0 w (api sc std Vad_Enable w)"
  "confined S (writes Bitrate_Name) 0 w (api sc std Bitrate_Name w)"
  "confined S (writes Comcerto_Reset) 0 w (api sc std Comcerto_Reset w)"
  "confined S (writes Rtp_Reload) 0 w (api sc std Rtp_Reload w)"
  "confined S (writes Set_Debugging) 0 w (api sc std Set_Debugging w)"
  by (auto intro!: confinedI frames(1) simp: libamg_comcerto_get_cng_enable_def libamg_comcerto_get_vad_enable_def
      libamg_comcerto_get_codec_g723_1_bitrate_name_def libamg_comcerto_reset_config_def libamg_comcerto_rtp_reload_def
      libamg_comcerto_set_debugging_def frame_system split: sum.splits option.splits if_splits
      dest!: parsers_frame(3) [where S = S and W = "{}"] intro: frame_zero [OF _ frame_heap(2)] frame_zero [OF _ frame_run_cmds])

lemma interval_frame: "libamg_comcerto_get_codec_packetization_interval k w = Inr (x, w') \<Longrightarrow> frame S W 0 w w'"
  by (auto simp: libamg_comcerto_get_codec_packetization_interval_def split: sum.splits option.splits
      dest!: parsers_frame(3) [where S = S and W = W] intro: frame_zero [OF _ frame_heap(2)])

lemma print_allow_frame: "sip_print_allow cs w = Inr w' \<Longrightarrow> FILE_SIP_CONF \<in> W \<Longrightarrow> frame S W 0 w w'"
proof (induction cs w rule: sip_print_allow.induct)
  case (2 c cs w)
  show ?case
  proof (cases "c \<le> 0")
    case False
    with 2(3) obtain v w1 nm where "libamg_comcerto_get_codec_packetization_interval c w = Inr (v, w1)"
        "libamg_sip_get_codec_name c = Some nm"
        "sip_print_allow cs (f_print FILE_SIP_CONF (conf_line ''allow'' (nm @ '':'' @ fmt_d v)) w1) = Inr w'"
      by (auto split: sum.splits option.splits)
    then show ?thesis
      using frame_zero [OF interval_frame frame_zero [OF frame_print [OF 2(4)]]] 2(2) [OF False] 2(4) by (metis (no_types))
  qed (use 2 in simp)
qed (simp add: frames)

lemma sip_save_frame:
  assumes "libamg_sip_save_config sc c w = Inr (r, c', w')" and "FILE_SIP_CONF \<in> W"
  shows "frame S W 0 w w'"
proof (cases "fopen_w FILE_SIP_CONF w")
  case (Pair b w1)
  note open_w = frame_open_w [OF Pair assms(2), of S]
  show ?thesis
  proof (cases b)
    case True
    obtain ss cs w3 where "sip_print_allow cs (f_prints FILE_SIP_CONF ss w1) = Inr w3" "w' = f_close w3"
      using assms(1) True Pair by (auto simp: libamg_sip_save_config_def Let_def split: sum.splits if_splits)
    then show ?thesis
      using frame_close frame_trans [OF open_w frame_zero [OF frame_prints [OF assms(2)] print_allow_frame [OF _ assms(2)]]] True
      by simp
  qed (use Pair assms(1) open_w in \<open>simp add: libamg_sip_save_config_def\<close>)
qed

lemma min_interval_frame:
  assumes "libamg_sip_get_min_codec_intvl sc w = Inr (x, w')"
  shows "frame S W 0 w w'"
proof -
  obtain y w1 arr w2 where p: "libamg_sip_parse_config sc w = Inr (y, w1)" "get_codecs_intvl_array w1 = Inr (arr, w2)"
      "w' = c_free w2"
    using assms by (auto simp: libamg_sip_get_min_codec_intvl_def split: sum.splits option.splits)
  obtain z w3 where "libamg_comcerto_parse_config w1 = Inr (z, w3)" "w2 = c_free w3"
    using p(2) by (auto simp: get_codecs_intvl_array_def Let_def split: sum.splits option.splits)
  then show ?thesis
    using frame_zero [OF sip_parse_frame [OF p(1)] frame_zero [OF parsers_frame(3) frame_zero [OF frame_heap(2) frame_heap(2)]]] p(3)
    by simp
qed

lemma comcerto_save_frame:
  assumes "libamg_comcerto_save_config sc c w = Inr (r, w')"
  shows "frame S {FILE_COMCERTO_CONF, FILE_SIP_CONF} 0 w w'" (is "frame S ?W 0 w w'")
proof (cases "fopen_w FILE_COMCERTO_CONF w")
  case (Pair b w1)
  have in_W: "FILE_COMCERTO_CONF \<in> ?W" "FILE_SIP_CONF \<in> ?W" by simp_all
  note open_w = frame_open_w [OF Pair in_W(1), of S]
  show ?thesis
  proof (cases b)
    case True
    obtain ps y w2 c' r' c'' where p:
        "libamg_sip_parse_config sc (f_close (f_prints FILE_COMCERTO_CONF ps w1)) = Inr (y, w2)"
        "libamg_sip_save_config sc c' w2 = Inr (r', c'', w')"
      using assms True Pair
      by (auto simp: libamg_comcerto_save_config_def split: sum.splits option.splits prod.splits if_splits)
    have "frame S ?W 0 w (f_close (f_prints FILE_COMCERTO_CONF ps w1))"
      using frame_close frame_trans [OF open_w frame_prints [OF in_W(1)]] True by simp
    then show ?thesis using frame_zero sip_parse_frame [OF p(1)] sip_save_frame [OF p(2) in_W(2)] by blast
  qed (use Pair assms open_w in \<open>simp add: libamg_comcerto_save_config_def\<close>)
qed

lemma sip_confined:
  "confined S (writes (Comcerto_Save k)) 0 w (api sc std (Comcerto_Save k) w)"
  "confined S (writes (Packet_Interval i)) 0 w (api sc std (Packet_Interval i) w)"
  "confined S (writes Sip_Parse) 0 w (api sc std Sip_Parse w)"
  "confined S (writes (Sip_Save c)) 0 w (api sc std (Sip_Save c) w)"
  "confined S (writes Sip_Reset) 0 w (api sc std Sip_Reset w)"
  "confined S (writes Sip_Flash) 0 w (api sc std Sip_Flash w)"
  "confined S (writes Min_Interval) 0 w (api sc std Min_Interval w)"
  by (auto intro!: confinedI intro: comcerto_save_frame interval_frame sip_parse_frame sip_save_frame min_interval_frame
      frame_system frame_run_cmds simp: libamg_sip_reset_config_def libamg_sip_flash_save_config_def map_sum_def
      simp del: run_cmds_simps split: sum.splits)

lemma dahdi_system_frame:
  "libamg_dahdi_parse_system_conf c w = Inr (r, c', w') \<Longrightarrow> frame S W 0 w w'"
  by (auto simp: libamg_dahdi_parse_system_conf_def intro!: frame_reader split: option.splits sum.splits prod.splits)

lemma dahdi_chan_frame:
  "libamg_dahdi_parse_chan_dahdi_conf std c w = Inr (r, c', w') \<Longrightarrow> frame S W 0 w w'"
  by (auto simp: libamg_dahdi_parse_chan_dahdi_conf_def intro!: frame_reader split: option.splits sum.splits prod.splits)

lemma dahdi_parse_frame:
  assumes "libamg_dahdi_parse_config std w = Inr (x, w')"
  shows "frame S W 0 w w'"
proof (cases "c_malloc w")
  case (Pair b w1)
  have m: "frame S W 0 w w1" using frame_heap(3) [of S W w] Pair by simp
  show ?thesis
  proof (cases b)
    case True
    then obtain r1 c1 w2 where p: "libamg_dahdi_parse_chan_dahdi_conf std \<lparr>spans = replicate NUMSPANS dahdi_span_zero\<rparr> w1 = Inr (r1, c1, w2)"
        "w' = c_free w2 \<or> (\<exists>r2 c2 w3. libamg_dahdi_parse_system_conf c1 w2 = Inr (r2, c2, w3) \<and> (w' = c_free w3 \<or> w' = w3))"
      using assms Pair by (fastforce simp: libamg_dahdi_parse_config_def split: sum.splits if_splits)
    note chan = frame_zero [OF m dahdi_chan_frame [OF p(1)]]
    show ?thesis
      using p(2) frame_zero [OF chan frame_heap(2)] frame_zero [OF chan dahdi_system_frame]
        frame_zero [OF chan frame_zero [OF dahdi_system_frame frame_heap(2)]] by blast
  qed (use Pair m assms in \<open>simp add: libamg_dahdi_parse_config_def\<close>)
qed

lemma dahdi_save_frame:
  assumes "libamg_dahdi_save_config std c w = (r, w')"
  shows "frame S {FILE_DAHDI_SYSTEM_CONF, FILE_CHAN_DAHDI_CONF} 0 w w'" (is "frame S ?W 0 w w'")
proof -
  obtain r1 w1 where a: "libamg_dahdi_apply_system_conf c w = (r1, w1)" by (cases "libamg_dahdi_apply_system_conf c w")
  obtain r2 w2 where b: "libamg_dahdi_save_chan_dahdi_conf std c w1 = (r2, w2)"
    by (cases "libamg_dahdi_save_chan_dahdi_conf std c w1")
  have "frame S ?W 0 w w1" by (rule frame_writer [OF a [unfolded libamg_dahdi_apply_system_conf_def]]) simp
  moreover have "frame S ?W 0 w1 w2" by (rule frame_writer [OF b [unfolded libamg_dahdi_save_chan_dahdi_conf_def]]) simp
  moreover have "w' = w1 \<or> w' = w2" using assms a b by (auto simp: libamg_dahdi_save_config_def split: if_splits)
  ultimately show ?thesis using frame_zero by blast
qed

lemma dahdi_confined:
  "confined S (writes Dahdi_Parse) 0 w (api sc std Dahdi_Parse w)"
  "confined S (writes (Dahdi_Save c)) 0 w (api sc std (Dahdi_Save c) w)"
  "confined S (writes Dahdi_Reset) 0 w (api sc std Dahdi_Reset w)"
  "confined S (writes Dahdi_Apply) 0 w (api sc std Dahdi_Apply w)"
  "confined S (writes Dahdi_Flash) 0 w (api sc std Dahdi_Flash w)"
proof -
  show "confined S (writes (Dahdi_Save c)) 0 w (api sc std (Dahdi_Save c) w)"
    by (rule confinedI) (auto intro: dahdi_save_frame [OF prod.collapse [symmetric]])
  obtain r w1 where s: "c_system (c_snprintf DAHDI_BUF_SIZE ''cp /etc.ro/dahdi/system.conf /etc/dahdi/'') w = (r, w1)"
    by (cases "c_system (c_snprintf DAHDI_BUF_SIZE ''cp /etc.ro/dahdi/system.conf /etc/dahdi/'') w")
  have "frame S {} 0 w w1" using frame_system [of S "{}" w, unfolded snd_def] s by (metis case_prod_conv)
  then show "confined S (writes Dahdi_Reset) 0 w (api sc std Dahdi_Reset w)"
    by (intro confinedI) (auto simp: libamg_dahdi_reset_config_def s intro: frame_zero [OF _ frame_system])
qed (auto intro!: confinedI intro: dahdi_parse_frame frame_run_cmds
    simp: libamg_dahdi_apply_config_def libamg_dahdi_flash_save_config_def simp del: run_cmds_simps)

lemma ais_confined:
  "confined S (writes (Ais_Check b)) 0 w (api sc std (Ais_Check b) w)"
  "confined S (writes (Ais_Set i)) 0 w (api sc std (Ais_Set i) w)"
  "confined S (writes Ais_Apply) 0 w (api sc std Ais_Apply w)"
proof -
  have "libamg_ais_daemon_set i w = (case fopen_w FILE_AISDAEMON_CONF w of (False, w1) \<Rightarrow> (- 1, w1)
      | (True, w1) \<Rightarrow> (0, f_close (f_prints FILE_AISDAEMON_CONF [conf_line ''host_keepalive'' (yes_no i)] w1)))"
    by (simp add: libamg_ais_daemon_set_def f_prints_def split: prod.split bool.split)
  then show "confined S (writes (Ais_Set i)) 0 w (api sc std (Ais_Set i) w)"
    by (intro confinedI) (auto intro: frame_writer [OF prod.collapse [symmetric]])
  show "confined S (writes (Ais_Check b)) 0 w (api sc std (Ais_Check b) w)"
    by (rule confinedI)
      (auto simp: libamg_ais_daemon_check_def intro!: frame_reader split: option.splits prod.splits if_splits)
qed (auto intro!: confinedI frame_system simp: libamg_ais_daemon_apply_config_def)

lemma flags_confined:
  "confined S (writes (Set_Flag f)) 0 w (api sc std (Set_Flag f) w)"
  "confined S (writes (Check_Flag f)) 0 w (api sc std (Check_Flag f) w)"
  "confined S (writes (Clear_Flag f)) 0 w (api sc std (Clear_Flag f) w)"
proof -
  have p: "flag_path f = Inr p \<Longrightarrow> p = FLAG_DIR @ f" for p by (auto simp: flag_path_def split: if_splits)
  show "confined S (writes (Set_Flag f)) 0 w (api sc std (Set_Flag f) w)"
      "confined S (writes (Clear_Flag f)) 0 w (api sc std (Clear_Flag f) w)"
    by (auto intro!: confinedI frame_same simp: libamg_process_set_flag_def libamg_process_clear_flag_def same_answers_def
        lasting_def split: sum.splits if_splits dest!: p)
qed (auto intro!: confinedI frame_heap(1) simp: map_sum_def split: sum.splits)

lemma system_confined:
  "confined S (writes Get_Version) 0 w (api sc std Get_Version w)"
  "confined S (writes Get_Memory) 0 w (api sc std Get_Memory w)"
  "confined S (writes Get_Cpu_Info) 0 w (api sc std Get_Cpu_Info w)"
  "confined S (writes (Get_Serialnum junk n)) 1 w (api sc std (Get_Serialnum junk n) w)"
proof -
  show "confined S (writes (Get_Serialnum junk n)) 1 w (api sc std (Get_Serialnum junk n) w)"
    unfolding confined_def
  proof (intro allI impI)
    fix w'
    assume "api sc std (Get_Serialnum junk n) w = Inr w'"
    then obtain x where "fopen_r FILE_SYSTEM_SERIAL_NUM w = (x, w')"
      by (auto simp: libamg_system_get_serialnum_def Let_def map_sum_def
          split: sum.splits option.splits prod.splits if_splits)
    from frame_open_r [OF this, of S "{}"] show "\<exists>d. 0 \<le> d \<and> d \<le> 1 \<and> frame S (writes (Get_Serialnum junk n)) d w w'"
      using exI [of "\<lambda>d. 0 \<le> d \<and> d \<le> 1 \<and> frame S {} d w w'" "if x = None then 0 else 1"] by auto
  qed
qed (auto intro!: confinedI frame_reader simp: libamg_system_get_version_def libamg_system_get_memory_def
    libamg_system_get_cpu_info_def split: option.splits prod.splits sum.splits)

lemma api_confined: "confined S (writes c) (streams c) w (api sc std c w)"
  using sys_log_confined extensions_confined comcerto_confined sip_confined dahdi_confined ais_confined flags_confined
    system_confined
  by (cases c) (simp_all only: streams.simps)

subsection \<open>Sequences of calls\<close>

text \<open>What a module may rely on when others are called in between, for any calls that are confined.\<close>

locale confined_calls =
  fixes call :: "'c \<Rightarrow> world \<Rightarrow> world outcome" and wr :: "'c \<Rightarrow> path set" and st :: "'c \<Rightarrow> int"
  assumes confined_law: "confined S (wr c) (st c) w (call c w)"
begin

lemma runs_confined:
  "run_steps (\<lambda>w c. call c w) w cs = Inr w' \<Longrightarrow>
     \<exists>d. 0 \<le> d \<and> d \<le> sum_list (map st cs) \<and> frame S (\<Union>c \<in> set cs. wr c) d w w'"
proof (induction cs arbitrary: w)
  case Nil
  then show ?case using frame_heap(1) by auto
next
  case (Cons c cs)
  let ?W = "\<Union>c \<in> set (c # cs). wr c"
  obtain w1 where w1: "call c w = Inr w1" "run_steps (\<lambda>w c. call c w) w1 cs = Inr w'"
    using Cons.prems by (auto split: sum.splits)
  obtain d where d: "0 \<le> d" "d \<le> st c" "frame S (wr c) d w w1"
    using confined_law [of S c w] w1(1) unfolding confined_def by blast
  obtain e where e: "0 \<le> e" "e \<le> sum_list (map st cs)" "frame S (\<Union>c \<in> set cs. wr c) e w1 w'"
    using Cons.IH [OF w1(2)] by blast
  have "frame S ?W (d + e) w w'"
    by (rule frame_trans [OF frame_mono [OF d(3)] frame_mono [OF e(3)]]) auto
  then show ?case using d(1,2) e(1,2) by (intro exI [of _ "d + e"]) auto
qed

lemma files_kept:
  assumes "run_steps (\<lambda>w c. call c w) w cs = Inr w'" and "obeys S (shell w)" and "\<And>c. c \<in> set cs \<Longrightarrow> f \<notin> wr c"
    and "\<And>c. c \<in> set (drop (length (cmds w)) (cmds w')) \<Longrightarrow> f \<notin> S c"
  shows "files w' f = files w f"
  using runs_confined [OF assms(1), of S] assms(2-4) by (auto simp: frame_def)

lemma answers_kept: "run_steps (\<lambda>w c. call c w) w cs = Inr w' \<Longrightarrow> same_answers w w'"
  using runs_confined [of w cs w' "\<lambda>_. UNIV"] by (auto simp: frame_def)

end

interpretation calls: confined_calls "api sc std" writes streams for sc std
  by unfold_locales (rule api_confined)

text \<open>C6: Any sequence of calls that returns changes no file but those its calls write and those of the commands it
  starts, and no call leaves a stream open, except that of the serial number, which leaves at most one each.\<close>

theorem calls_confined:
  assumes "run_calls sc std cs w = Inr w'" and "obeys S (shell w)"
  shows "open_files w \<le> open_files w' \<and> open_files w' \<le> open_files w + sum_list (map streams cs) \<and>
    (\<exists>started. cmds w' = cmds w @ started \<and>
      (\<forall>f. (\<forall>c \<in> set cs. f \<notin> writes c) \<and> (\<forall>c \<in> set started. f \<notin> S c) \<longrightarrow> files w' f = files w f))"
proof -
  obtain d where "0 \<le> d" "d \<le> sum_list (map streams cs)" "frame S (\<Union>c \<in> set cs. writes c) d w w'"
    using calls.runs_confined [OF assms(1)] by blast
  with assms(2) show ?thesis by (auto simp: frame_def)
qed

subsection \<open>What is read back\<close>

datatype conf_name = Sys_Log_Conf | Extensions_Conf | Comcerto_Conf | Sip_Conf | Dahdi_Conf

datatype conf_value = Sys_Log_Value "sys_log_config option" | Extensions_Value "extensions_config option"
  | Comcerto_Value "comcerto_config option" | Sip_Value "libamg_sip_config option" | Dahdi_Value "libamg_dahdi_config option"

definition value_of :: "('a \<times> world) outcome \<Rightarrow> 'a outcome" where
  "value_of r = map_sum id fst r"

fun read_conf :: "bool \<Rightarrow> bool \<Rightarrow> conf_name \<Rightarrow> world \<Rightarrow> conf_value outcome" where
  "read_conf sc std Sys_Log_Conf w = map_sum id Sys_Log_Value (value_of (libamg_sys_log_parse_config w))"
| "read_conf sc std Extensions_Conf w = map_sum id Extensions_Value (value_of (libamg_extensions_parse_config w))"
| "read_conf sc std Comcerto_Conf w = map_sum id Comcerto_Value (value_of (libamg_comcerto_parse_config w))"
| "read_conf sc std Sip_Conf w = map_sum id Sip_Value (value_of (libamg_sip_parse_config sc w))"
| "read_conf sc std Dahdi_Conf w = map_sum id Dahdi_Value (value_of (libamg_dahdi_parse_config std w))"

fun conf_files :: "conf_name \<Rightarrow> path set" where
  "conf_files Sys_Log_Conf = {FILE_SYS_LOG_CONF}"
| "conf_files Extensions_Conf = {FILE_EXTENSIONS_CONF}"
| "conf_files Comcerto_Conf = {FILE_COMCERTO_CONF}"
| "conf_files Sip_Conf = {FILE_SIP_CONF}"
| "conf_files Dahdi_Conf = {FILE_DAHDI_SYSTEM_CONF, FILE_CHAN_DAHDI_CONF}"

text \<open>Two worlds that show the same at a path to one who opens it, and both have memory.\<close>

definition same_at :: "path \<Rightarrow> world \<Rightarrow> world \<Rightarrow> bool" where
  "same_at p w w' \<longleftrightarrow> files w' p = files w p \<and> cannot_read w' p = cannot_read w p"

lemma same_open: "same_at p w w' \<Longrightarrow> fst (fopen_r p w') = fst (fopen_r p w)"
  by (auto simp: same_at_def fopen_r_def split: option.split)

lemma same_alloc_open:
  "same_at p w w' \<Longrightarrow> alloc_ok w (allocs w) \<Longrightarrow> alloc_ok w' (allocs w') \<Longrightarrow> fst (alloc_and_open p w') = fst (alloc_and_open p w)"
  by (auto simp: same_at_def alloc_and_open_def c_malloc_def fopen_r_def split: option.split)

lemma parser_value:
  "value_of (case alloc_and_open p w of (None, w1) \<Rightarrow> Inr (None, w1)
      | (Some content, w1) \<Rightarrow> (case r content of Inl e \<Rightarrow> Inl e | Inr c \<Rightarrow> Inr (Some (h c), f_close w1))) =
    (case fst (alloc_and_open p w) of None \<Rightarrow> Inr None | Some content \<Rightarrow> map_sum id (\<lambda>c. Some (h c)) (r content))"
  by (auto simp: value_of_def split: prod.split option.split sum.split)

lemma dahdi_value:
  assumes "alloc_ok w (allocs w)"
  shows "value_of (libamg_dahdi_parse_config std w) =
    (case fst (fopen_r FILE_CHAN_DAHDI_CONF w) of None \<Rightarrow> Inr None
     | Some s \<Rightarrow> (case run_steps (dahdi_step std) \<lparr>spans = replicate NUMSPANS dahdi_span_zero\<rparr> (chunks DAHDI_BUF_SIZE s) of
           Inl e \<Rightarrow> Inl e
         | Inr c \<Rightarrow> (case fst (fopen_r FILE_DAHDI_SYSTEM_CONF w) of None \<Rightarrow> Inr None
             | Some t \<Rightarrow> map_sum id Some (run_steps dahdi_system_step c (chunks DAHDI_BUF_SIZE t)))))"
  using assms
  by (auto simp: libamg_dahdi_parse_config_def libamg_dahdi_parse_chan_dahdi_conf_def libamg_dahdi_parse_system_conf_def
      value_of_def c_malloc_def fopen_r_def f_close_def split: option.split sum.split)

lemma same_read_conf:
  assumes "\<And>p. p \<in> conf_files k \<Longrightarrow> same_at p w w'" and "alloc_ok w (allocs w)" and "alloc_ok w' (allocs w')"
  shows "read_conf sc std k w' = read_conf sc std k w"
proof -
  have o: "fst (alloc_and_open p w') = fst (alloc_and_open p w)" if "p \<in> conf_files k" for p
    by (rule same_alloc_open [OF assms(1) [OF that] assms(2,3)])
  have sip: "value_of (libamg_sip_parse_config sc v) = (case fst (alloc_and_open FILE_SIP_CONF v) of None \<Rightarrow> Inr None
      | Some s \<Rightarrow> map_sum id (\<lambda>c. Some (fst c)) (conf_read SIP_BUF_SIZE sip_delims (sip_set sc) (sip_empty, 0) s))" for v
    by (auto simp: value_of_def libamg_sip_parse_config_def split: prod.split option.split sum.split)
  show ?thesis
    using o same_open [OF assms(1)] assms(2,3)
    by (cases k) (simp_all cong: option.case_cong sum.case_cong add: sip dahdi_value libamg_sys_log_parse_config_def libamg_extensions_parse_config_def
        libamg_comcerto_parse_config_def parser_value [where h = "\<lambda>c. c"])
qed

text \<open>C5: The configuration a module reads is not affected by any sequence of calls of the library, as long as no call
  of it writes the files of that module (saving the configuration of the signal processor writes two) and no
  command that was started changes them.\<close>

theorem configuration_unaffected:
  assumes "run_calls sc std cs w = Inr w'" and "obeys S (shell w)" and "\<And>n. alloc_ok w n"
    and "\<And>c. c \<in> set cs \<Longrightarrow> writes c \<inter> conf_files k = {}"
    and "\<And>c. c \<in> set (drop (length (cmds w)) (cmds w')) \<Longrightarrow> S c \<inter> conf_files k = {}"
  shows "read_conf sc std k w' = read_conf sc std k w"
proof (rule same_read_conf)
  note same = calls.answers_kept [OF assms(1), unfolded same_answers_def]
  show "same_at p w w'" if "p \<in> conf_files k" for p
    unfolding same_at_def using calls.files_kept [OF assms(1,2), of p] assms(4,5) that same by auto
qed (use assms(3) calls.answers_kept [OF assms(1)] in \<open>simp_all add: same_answers_def\<close>)

text \<open>A world in which every command copies the default dial plan, and three calls on it.\<close>

definition demo_calls :: "api_call list" where
  "demo_calls = [Sys_Log_Save \<lparr>remote_enable = 0, loglevel = 3, remote_host = []\<rparr>, Ext_Reset, Ext_Flush]"

definition demo_shell :: "string \<Rightarrow> file_system \<Rightarrow> int \<times> file_system" where
  "demo_shell c fs = (0, fs(FILE_EXTENSIONS_CONF := fs (FILE_EXTENSIONS_CONF_DEFAULT_PATH @ FILE_EXTENSIONS_CONF_NAME)))"

abbreviation demo_start :: world where
  "demo_start \<equiv> demo_world\<lparr>shell := demo_shell, files := [FILE_SIP_CONF \<mapsto> ''port=5061'' @ [LF]]\<rparr>"

lemmas conf_paths = FILE_SIP_CONF_def FILE_SIP_CONF_NAME_def FILE_SIP_CONF_PATH_def FILE_SYS_LOG_CONF_def
  FILE_SYS_LOG_CONF_NAME_def FILE_SYS_LOG_CONF_PATH_def FILE_EXTENSIONS_CONF_def FILE_EXTENSIONS_CONF_NAME_def
  FILE_EXTENSIONS_CONF_PATH_def

lemma demo_calls_run: "\<exists>w'. run_calls True True demo_calls demo_start = Inr w'"
  by (simp add: demo_calls_def libamg_sys_log_save_config_def fopen_w_def demo_world_def libamg_extensions_reset_config_def
      libamg_extensions_flush_config_def c_system_def split: prod.split)

lemma demo_obeys: "obeys (\<lambda>_. {FILE_EXTENSIONS_CONF}) (shell demo_start)"
  by (simp add: obeys_def demo_shell_def)

theorem calls_confined_witness:
  "\<exists>w'. run_calls True True demo_calls demo_start = Inr w' \<and> open_files w' = 0 \<and>
     files w' FILE_SIP_CONF = Some (''port=5061'' @ [LF])"
proof -
  obtain w' where w': "run_calls True True demo_calls demo_start = Inr w'" using demo_calls_run by blast
  show ?thesis
    using w' calls_confined [OF w' demo_obeys]
    by (auto simp: demo_calls_def demo_world_def conf_paths)
qed

theorem configuration_unaffected_witness:
  "\<exists>w'. run_calls True True demo_calls demo_start = Inr w' \<and>
     read_conf True True Sip_Conf w' = read_conf True True Sip_Conf demo_start"
proof -
  obtain w' where w': "run_calls True True demo_calls demo_start = Inr w'" using demo_calls_run by blast
  have "read_conf True True Sip_Conf w' = read_conf True True Sip_Conf demo_start"
  proof (rule configuration_unaffected [OF w' demo_obeys])
    show "alloc_ok demo_start n" for n by (simp add: demo_world_def)
    show "writes c \<inter> conf_files Sip_Conf = {}" if "c \<in> set demo_calls" for c
      using that by (auto simp: demo_calls_def conf_paths)
  qed (simp add: conf_paths)
  then show ?thesis using w' by blast
qed

end
