(* ===== verification/Api_Heap.thy ===== *)
theory Api_Heap
  imports Api_Calls
begin

text \<open>
  What sequences of calls of the library leave allocated, on a machine where nothing is missing: each call that
  gives a configuration to its caller leaves that one block, and two others leak one.
\<close>

subsection \<open>A machine with the configuration files installed\<close>

definition installed :: "world \<Rightarrow> bool" where
  "installed w \<longleftrightarrow> (\<forall>n. alloc_ok w n) \<and> (\<forall>p. \<not> cannot_read w p \<and> \<not> cannot_write w p) \<and>
     (\<forall>k. \<forall>p \<in> conf_files k. files w p \<noteq> None \<and> lasting w p)"

lemma installedD:
  assumes "installed w"
  shows "alloc_ok w n" "\<not> cannot_read w p" "\<not> cannot_write w p" "p \<in> conf_files k \<Longrightarrow> \<exists>s. files w p = Some s"
  using assms unfolding installed_def by blast+

lemma installed_frame:
  assumes "frame S W d w w'" and "installed w"
  shows "installed w'"
proof -
  have same: "same_answers w w'" and keep: "\<And>p. lasting w p \<Longrightarrow> files w p \<noteq> None \<Longrightarrow> files w' p \<noteq> None"
    using assms(1) by (auto simp: frame_def)
  then have "lasting w' p \<longleftrightarrow> lasting w p" for p by (simp add: lasting_def same_answers_def)
  then show ?thesis using assms(2) keep same unfolding installed_def same_answers_def by metis
qed

lemma live_simps [simp]:
  "live (f_print p s w) = live w" "live (f_prints p ss w) = live w" "live (f_close w) = live w" "live (c_free w) = live w - 1"
proof -
  show "live (f_prints p ss w) = live w"
    by (induction ss arbitrary: w) (simp_all add: f_prints_def f_print_def)
qed (simp_all add: f_print_def f_close_def c_free_def)

lemma live_fopen_w: "fopen_w p w = (b, w') \<Longrightarrow> live w' = live w"
  by (auto simp: fopen_w_def split: if_splits)

lemma live_fopen_r: "fopen_r p w = (x, w') \<Longrightarrow> live w' = live w"
  by (auto simp: fopen_r_def split: option.splits if_splits)

subsection \<open>Reading a configuration\<close>

lemma parser_live:
  assumes "(case alloc_and_open p w of (None, w1) \<Rightarrow> Inr (None, w1)
      | (Some content, w1) \<Rightarrow> (case r content of Inl e \<Rightarrow> Inl e | Inr c \<Rightarrow> Inr (Some c, f_close w1))) = Inr (x, w')"
    and "installed w" and "p \<in> conf_files k"
  shows "x \<noteq> None \<and> live w' = live w + 1"
proof -
  obtain s where "files w p = Some s" using installedD(4) [OF assms(2,3)] by blast
  then show ?thesis
    using assms(1) installedD(1,2) [OF assms(2)] by (auto simp: alloc_and_open_ok split: sum.splits)
qed

lemma parsers_live:
  assumes "installed w"
  shows "libamg_sys_log_parse_config w = Inr (x1, w') \<Longrightarrow> x1 \<noteq> None \<and> live w' = live w + 1"
    "libamg_extensions_parse_config w = Inr (x2, w') \<Longrightarrow> x2 \<noteq> None \<and> live w' = live w + 1"
    "libamg_comcerto_parse_config w = Inr (x3, w') \<Longrightarrow> x3 \<noteq> None \<and> live w' = live w + 1"
  unfolding libamg_sys_log_parse_config_def libamg_extensions_parse_config_def libamg_comcerto_parse_config_def
  by (rule parser_live [OF _ assms, where k = Sys_Log_Conf], assumption, simp)
    (rule parser_live [OF _ assms, where k = Extensions_Conf], assumption, simp,
     rule parser_live [OF _ assms, where k = Comcerto_Conf], assumption, simp)

lemma sip_parse_live:
  assumes "libamg_sip_parse_config sc w = Inr (x, w')" and "installed w"
  shows "x \<noteq> None \<and> live w' = live w + 1"
proof (rule parser_live [where p = FILE_SIP_CONF and k = Sip_Conf
      and r = "\<lambda>content. map_sum id fst (conf_read SIP_BUF_SIZE sip_delims (sip_set sc) (sip_empty, 0) content)"])
  show "(case alloc_and_open FILE_SIP_CONF w of (None, w1) \<Rightarrow> Inr (None, w1)
      | (Some content, w1) \<Rightarrow>
        (case map_sum id fst (conf_read SIP_BUF_SIZE sip_delims (sip_set sc) (sip_empty, 0) content) of Inl e \<Rightarrow> Inl e
          | Inr c \<Rightarrow> Inr (Some c, f_close w1))) = Inr (x, w')"
    using assms(1) by (auto simp: libamg_sip_parse_config_def split: prod.splits option.splits sum.splits)
qed (use assms(2) in auto)

lemma dahdi_parse_live:
  assumes "libamg_dahdi_parse_config std w = Inr (x, w')" and "installed w"
  shows "x \<noteq> None \<and> live w' = live w + 1"
proof -
  obtain s t where "files w FILE_CHAN_DAHDI_CONF = Some s" "files w FILE_DAHDI_SYSTEM_CONF = Some t"
    using installedD(4) [OF assms(2), where k = Dahdi_Conf] by (metis conf_files.simps(5) insertCI)
  then show ?thesis
    using assms(1) installedD(1,2) [OF assms(2)]
    by (auto simp: libamg_dahdi_parse_config_def libamg_dahdi_parse_chan_dahdi_conf_def
        libamg_dahdi_parse_system_conf_def world_simps f_close_def split: sum.splits)
qed

subsection \<open>The calls\<close>

fun unfreed :: "api_call \<Rightarrow> int" where
  "unfreed Sys_Log_Parse = 1"
| "unfreed Ext_Parse = 1"
| "unfreed Comcerto_Parse = 1"
| "unfreed Sip_Parse = 1"
| "unfreed Dahdi_Parse = 1"
| "unfreed Set_Debugging = 1"
| "unfreed (Comcerto_Save c) = 1"
| "unfreed c = 0"

lemma interval_live:
  "libamg_comcerto_get_codec_packetization_interval k w = Inr (x, w') \<Longrightarrow> installed w \<Longrightarrow> live w' = live w"
  by (auto simp: libamg_comcerto_get_codec_packetization_interval_def split: sum.splits option.splits
      dest!: parsers_live(3))

lemma print_allow_live: "sip_print_allow cs w = Inr w' \<Longrightarrow> installed w \<Longrightarrow> live w' = live w"
proof (induction cs w rule: sip_print_allow.induct)
  case (2 c cs w)
  show ?case
  proof (cases "c \<le> 0")
    case False
    with 2(3) obtain v w1 nm where s: "libamg_comcerto_get_codec_packetization_interval c w = Inr (v, w1)"
        "libamg_sip_get_codec_name c = Some nm"
        "sip_print_allow cs (f_print FILE_SIP_CONF (conf_line ''allow'' (nm @ '':'' @ fmt_d v)) w1) = Inr w'"
      by (auto split: sum.splits option.splits)
    have "frame (\<lambda>_. {}) {FILE_SIP_CONF} 0 w (f_print FILE_SIP_CONF (conf_line ''allow'' (nm @ '':'' @ fmt_d v)) w1)"
      by (rule frame_zero [OF interval_frame [OF s(1)] frame_print]) simp
    from installed_frame [OF this 2(4)] 2(2) [OF False] s interval_live [OF s(1) 2(4)] show ?thesis by simp
  qed (use 2 in simp)
qed simp

lemma sip_save_live:
  assumes "libamg_sip_save_config sc c w = Inr (r, c', w')" and "installed w"
  shows "live w' = live w"
proof (cases "fopen_w FILE_SIP_CONF w")
  case (Pair b w1)
  note open_w = frame_open_w [OF Pair, of "{FILE_SIP_CONF}" "\<lambda>_. {}"] and live1 = live_fopen_w [OF Pair]
  show ?thesis
  proof (cases b)
    case True
    obtain ss cs w3 where p: "sip_print_allow cs (f_prints FILE_SIP_CONF ss w1) = Inr w3" "w' = f_close w3"
      using assms(1) True Pair by (auto simp: libamg_sip_save_config_def Let_def split: sum.splits if_splits)
    have "installed (f_prints FILE_SIP_CONF ss w1)"
      using open_w assms(2) by (blast intro: installed_frame frame_prints)
    from print_allow_live [OF p(1) this] show ?thesis using p(2) live1 by simp
  qed (use Pair assms(1) live1 in \<open>simp add: libamg_sip_save_config_def\<close>)
qed

lemma min_interval_live:
  assumes "libamg_sip_get_min_codec_intvl sc w = Inr (x, w')" and "installed w"
  shows "live w' = live w"
proof -
  obtain y w1 arr w2 where p: "libamg_sip_parse_config sc w = Inr (y, w1)" "get_codecs_intvl_array w1 = Inr (arr, w2)"
      "w' = c_free w2"
    using assms(1) by (auto simp: libamg_sip_get_min_codec_intvl_def split: sum.splits option.splits)
  obtain z w3 where q: "libamg_comcerto_parse_config w1 = Inr (z, w3)" "w2 = c_free w3"
    using p(2) by (auto simp: get_codecs_intvl_array_def Let_def split: sum.splits option.splits)
  have "installed w1" by (rule installed_frame [OF sip_parse_frame [OF p(1), of "\<lambda>_. {}" "{}"] assms(2)])
  then show ?thesis using parsers_live(3) [OF _ q(1)] sip_parse_live [OF p(1) assms(2)] p(3) q(2) by simp
qed

lemma comcerto_save_live:
  assumes "libamg_comcerto_save_config sc c w = Inr (r, w')" and "installed w"
  shows "live w' = live w + 1"
proof -
  let ?W = "{FILE_COMCERTO_CONF}"
  obtain w1 where open_w: "fopen_w FILE_COMCERTO_CONF w = (True, w1)"
    using fopen_w_ok [OF installedD(3) [OF assms(2)]] by blast
  obtain ps y w2 c' r' c'' where p:
      "libamg_sip_parse_config sc (f_close (f_prints FILE_COMCERTO_CONF ps w1)) = Inr (y, w2)"
      "libamg_sip_save_config sc c' w2 = Inr (r', c'', w')"
    using assms(1) open_w
    by (auto simp: libamg_comcerto_save_config_def split: sum.splits option.splits prod.splits if_splits)
  have "frame (\<lambda>_. {}) ?W (1 + 0) w (f_prints FILE_COMCERTO_CONF ps w1)"
    by (rule frame_trans [OF frame_open_w [OF open_w, of ?W, simplified] frame_prints]) simp
  then have i: "installed (f_close (f_prints FILE_COMCERTO_CONF ps w1))"
    using assms(2) by (intro installed_frame [OF frame_close]) simp_all
  have "installed w2" by (rule installed_frame [OF sip_parse_frame [OF p(1), of "\<lambda>_. {}" "{}"] i])
  then show ?thesis using sip_parse_live [OF p(1) i] sip_save_live [OF p(2)] live_fopen_w [OF open_w] by simp
qed

text \<open>A call leaves \<open>k\<close> more blocks allocated.\<close>

definition leaves :: "int \<Rightarrow> world \<Rightarrow> world outcome \<Rightarrow> bool" where
  "leaves k w r \<longleftrightarrow> (\<forall>w'. r = Inr w' \<longrightarrow> live w' = live w + k)"

lemma config_leaves:
  assumes "installed w"
  shows "leaves 1 w (api sc std Sys_Log_Parse w)" "leaves 1 w (api sc std Ext_Parse w)"
    "leaves 1 w (api sc std Comcerto_Parse w)" "leaves 1 w (api sc std Sip_Parse w)"
    "leaves 1 w (api sc std Dahdi_Parse w)" "leaves 1 w (api sc std (Comcerto_Save c) w)"
    "leaves 0 w (api sc std (Packet_Interval k) w)" "leaves 0 w (api sc std Min_Interval w)"
    "leaves 0 w (api sc std (Sip_Save s) w)"
  using parsers_live [OF assms] sip_parse_live dahdi_parse_live comcerto_save_live interval_live min_interval_live
    sip_save_live assms
  by (auto simp: leaves_def map_sum_def split: sum.splits)

lemma user_leaves:
  assumes "installed w"
  shows "leaves 1 w (api sc std Set_Debugging w)" "leaves 0 w (api sc std Cng_Enable w)"
    "leaves 0 w (api sc std Vad_Enable w)" "leaves 0 w (api sc std Bitrate_Name w)" "leaves 0 w (api sc std Sys_Log_Apply w)"
  by (auto simp: leaves_def libamg_comcerto_get_cng_enable_def libamg_comcerto_get_vad_enable_def Let_def
      libamg_comcerto_get_codec_g723_1_bitrate_name_def libamg_comcerto_set_debugging_def
      libamg_sys_log_daemon_apply_config_def split: sum.splits option.splits if_splits
      dest!: parsers_live(1,3) [OF assms])

lemma writer_leaves:
  "leaves 0 w (api sc std (Sys_Log_Save c1) w)" "leaves 0 w (api sc std (Ext_Save c2) w)" "leaves 0 w (api sc std Ext_Flush w)"
  "leaves 0 w (api sc std (Dahdi_Save c3) w)" "leaves 0 w (api sc std (Ais_Set b) w)"
  "leaves 0 w (api sc std (Set_Flag f) w)" "leaves 0 w (api sc std (Clear_Flag f) w)"
  by (auto simp: leaves_def libamg_sys_log_save_config_def libamg_extensions_save_config_def
      libamg_extensions_flush_config_def libamg_dahdi_save_config_def libamg_dahdi_apply_system_conf_def
      libamg_dahdi_save_chan_dahdi_conf_def libamg_ais_daemon_set_def libamg_process_set_flag_def
      libamg_process_clear_flag_def split: sum.splits if_splits prod.splits bool.splits dest!: live_fopen_w)

lemma command_leaves:
  "leaves 0 w (api sc std Sys_Log_Reset w)" "leaves 0 w (api sc std Ext_Reset w)" "leaves 0 w (api sc std Ext_Flash w)"
  "leaves 0 w (api sc std Comcerto_Reset w)" "leaves 0 w (api sc std Rtp_Reload w)" "leaves 0 w (api sc std Sip_Reset w)"
  "leaves 0 w (api sc std Sip_Flash w)" "leaves 0 w (api sc std Dahdi_Reset w)" "leaves 0 w (api sc std Dahdi_Apply w)"
  "leaves 0 w (api sc std Dahdi_Flash w)" "leaves 0 w (api sc std Ais_Apply w)"
proof -
  obtain r w1 where s: "c_system (c_snprintf DAHDI_BUF_SIZE ''cp /etc.ro/dahdi/system.conf /etc/dahdi/'') w = (r, w1)"
    by (cases "c_system (c_snprintf DAHDI_BUF_SIZE ''cp /etc.ro/dahdi/system.conf /etc/dahdi/'') w")
  have "live w1 = live w" using c_system_frame(1) [of "c_snprintf DAHDI_BUF_SIZE ''cp /etc.ro/dahdi/system.conf /etc/dahdi/''" w]
    by (simp add: s)
  then show "leaves 0 w (api sc std Dahdi_Reset w)" by (simp add: leaves_def libamg_dahdi_reset_config_def s)
qed (simp_all add: leaves_def libamg_sys_log_reset_config_def libamg_extensions_reset_config_def
    libamg_extensions_flash_save_config_def libamg_comcerto_reset_config_def libamg_comcerto_rtp_reload_def
    libamg_sip_reset_config_def libamg_sip_flash_save_config_def libamg_dahdi_apply_config_def
    libamg_dahdi_flash_save_config_def libamg_ais_daemon_apply_config_def del: run_cmds_simps)

lemma report_leaves:
  "leaves 0 w (api sc std Ext_Check w)" "leaves 0 w (api sc std (Ais_Check b) w)" "leaves 0 w (api sc std (Check_Flag f) w)"
  "leaves 0 w (api sc std Get_Version w)" "leaves 0 w (api sc std Get_Memory w)" "leaves 0 w (api sc std Get_Cpu_Info w)"
  "leaves 0 w (api sc std (Get_Serialnum junk n) w)"
proof -
  show "leaves 0 w (api sc std (Get_Serialnum junk n) w)"
    by (auto simp: leaves_def libamg_system_get_serialnum_def Let_def map_sum_def
      split: sum.splits option.splits prod.splits if_splits dest!: live_fopen_r)
qed (auto simp: leaves_def libamg_extensions_check_config_def libamg_ais_daemon_check_def libamg_system_get_version_def
    libamg_system_get_memory_def libamg_system_get_cpu_info_def map_sum_def
    split: sum.splits option.splits prod.splits if_splits dest!: live_fopen_r)

lemma api_leaves: "installed w \<Longrightarrow> leaves (unfreed c) w (api sc std c w)"
  using config_leaves user_leaves writer_leaves command_leaves report_leaves
  by (cases c) (simp_all only: unfreed.simps)

text \<open>C7: On a machine where memory and the configuration files are there, a sequence of calls leaves exactly one
  block for each configuration it gave to the caller, for each setting of the debugging options and for each
  saving of the configuration of the signal processor, and none for any other call.\<close>

theorem blocks_left:
  assumes "run_calls sc std cs w = Inr w'" and "installed w"
  shows "live w' = live w + sum_list (map unfreed cs)"
  using assms
proof (induction cs arbitrary: w)
  case (Cons c cs)
  obtain w1 where w1: "api sc std c w = Inr w1" "run_calls sc std cs w1 = Inr w'"
    using Cons.prems(1) by (auto split: sum.splits)
  have "installed w1"
    using api_confined [of "\<lambda>_. {}" c w sc std] w1(1) Cons.prems(2) installed_frame unfolding confined_def by blast
  then show ?case using Cons.IH [OF w1(2)] api_leaves [OF Cons.prems(2), of c sc std] w1(1) by (simp add: leaves_def)
qed simp

abbreviation demo_installed :: world where
  "demo_installed \<equiv> demo_world\<lparr>files := \<lambda>p. if \<exists>k. p \<in> conf_files k then Some [] else None\<rparr>"

lemma demo_is_installed: "installed demo_installed"
proof -
  have "lasting demo_installed p" if "p \<in> conf_files k" for p k
    using that by (cases k) (auto simp: lasting_def demo_world_def conf_paths FLAG_DIR_def FILE_COMCERTO_CONF_def
        FILE_COMCERTO_CONF_PATH_def FILE_COMCERTO_CONF_NAME_def FILE_DAHDI_SYSTEM_CONF_def FILE_CHAN_DAHDI_CONF_def)
  then show ?thesis by (auto simp: installed_def demo_world_def)
qed

theorem blocks_left_witness:
  "\<exists>w'. run_calls True True [Sys_Log_Parse, Ext_Reset, Ext_Parse, Set_Debugging] demo_installed = Inr w' \<and> live w' = 3"
proof -
  have some: "files demo_installed p = Some []" if "p \<in> conf_files k" for p k using that by auto
  have "\<exists>w'. run_calls True True [Sys_Log_Parse, Ext_Reset, Ext_Parse, Set_Debugging] demo_installed = Inr w'"
    using some [of FILE_SYS_LOG_CONF Sys_Log_Conf] some [of FILE_EXTENSIONS_CONF Extensions_Conf]
      some [of FILE_COMCERTO_CONF Comcerto_Conf]
    by (simp add: libamg_sys_log_parse_config_def libamg_extensions_reset_config_def libamg_extensions_parse_config_def
        libamg_comcerto_set_debugging_def libamg_comcerto_parse_config_def c_system_def demo_world_def alloc_and_open_def c_malloc_def
        fopen_r_def f_close_def conf_read_def after_def)
  then obtain w' where w': "run_calls True True [Sys_Log_Parse, Ext_Reset, Ext_Parse, Set_Debugging] demo_installed = Inr w'"
    by blast
  then show ?thesis using blocks_left [OF w' demo_is_installed] by (simp add: demo_world_def)
qed

end
