(* ===== verification/Sip_Types.thy ===== *)
theory Sip_Types
  imports Sip
begin

text \<open>
  The types of src/sip.h as a predicate on the structures of Sip, which hold texts as strings and numbers
  as integers: every text fits its array, every number its C type, every codec slot a code. Whatever the
  file holds, the parser of src/sip.c returns a structure of these types, and the printer keeps them.
\<close>

definition text_fits :: "nat \<Rightarrow> string \<Rightarrow> bool" where
  "text_fits n v \<longleftrightarrow> length v \<le> n \<and> NUL \<notin> set v"

definition sip_account_typed :: "libamg_sip_account \<Rightarrow> bool" where
  "sip_account_typed a \<longleftrightarrow> text_fits 63 (callerid a) \<and> text_fits 63 (fromuser a) \<and> text_fits 31 (insecure a) \<and>
     text_fits 63 (username a) \<and> text_fits 63 (secret a) \<and> text_fits 63 (host a) \<and>
     text_fits 7 (transport a) \<and> text_fits 31 (dtmfmode a) \<and>
     bool_int (sip_nat a) \<and> bool_int (qualify a) \<and> ushort_range (port a) \<and>
     length (allow a) = NUM_AVAILABLE_CODECS \<and> set (allow a) \<subseteq> {- 1, 0} \<union> set codec_codes"

definition sip_typed :: "libamg_sip_config \<Rightarrow> bool" where
  "sip_typed c \<longleftrightarrow> ushort_range (bindport c) \<and> bool_int (tcpenable c) \<and>
     int32 (t1min c) \<and> int32 (timert1 c) \<and> int32 (timerb c) \<and> int32 (rtptimeout c) \<and>
     int32 (rtpholdtimeout c) \<and> int32 (rtpkeepalive c) \<and> int32 (defaultexpiry c) \<and>
     session_expires c = 0 \<and> session_minse c = 0 \<and> autoframing c = 0 \<and> bool_int (register_enable c) \<and>
     bool_int (jb_enable (sip_jb_conf c)) \<and> int32 (jb_maxsize (sip_jb_conf c)) \<and> bool_int (jb_impl (sip_jb_conf c)) \<and>
     text_fits 16 (session_timers c) \<and> text_fits 8 (session_refresher c) \<and>
     text_fits 63 (register_username c) \<and> text_fits 63 (register_secret c) \<and> text_fits 63 (register_host c) \<and>
     sip_account_typed (account c)"

subsection \<open>Each field\<close>

named_theorems typed_simps \<open>the values that the dispatch stores\<close>

lemma text_fits_strncpy [typed_simps]: "NUL \<notin> set v \<Longrightarrow> text_fits n (c_strncpy n v)"
  by (auto simp: text_fits_def c_strncpy_def dest: in_set_takeD)

lemma text_fits_strip: "text_fits n v \<Longrightarrow> text_fits n (strip_array sc v)"
  using strip_ctl_subset [of sc v] strip_ctl_length [of sc v] by (auto simp: text_fits_def strip_array_eq)

lemma strip_array_no_NUL [typed_simps]: "NUL \<notin> set v \<Longrightarrow> NUL \<notin> set (strip_array sc v)"
  using strip_ctl_subset [of sc v] by (auto simp: strip_array_eq)

lemma number_types [typed_simps]:
  "int32 (c_atoi v)" "ushort_range (to_ushort x)" "bool_int (streq s t)" "bool_int 1" "bool_int 0"
  by (simp_all add: atoi_int32 streq_def bool_int_def)

lemma text_fits_empty [typed_simps]: "text_fits n []"
  by (simp add: text_fits_def)

lemma sip_empty_typed: "sip_typed sip_empty"
  by (simp add: sip_typed_def sip_account_typed_def sip_empty_def sip_account_empty_def jb_zero_def typed_simps
      ushort_range_def int32_def INT_MIN_def INT_MAX_def set_replicate_conv_if)

lemma sip_typed_if: "sip_typed c \<Longrightarrow> sip_typed d \<Longrightarrow> sip_typed (if b then c else d)"
  by simp

lemma sip_set_field_typed: "sip_typed c \<Longrightarrow> NUL \<notin> set v \<Longrightarrow> sip_typed (sip_set_field sc c k v)"
  unfolding sip_set_field_def Let_def
  by (intro sip_typed_if; simp add: sip_typed_def sip_account_typed_def typed_simps)

lemma sip_allow_typed: "sip_typed (fst st) \<Longrightarrow> sip_allow st v = Inr st' \<Longrightarrow> sip_typed (fst st')"
  using codec_code_range [of v] set_update_subset_insert [of "allow (account (fst st))" "snd st" "libamg_sip_get_codec_code v"]
  by (fastforce simp: sip_allow_def Let_def sip_typed_def sip_account_typed_def split: prod.splits if_splits)

lemma sip_set_typed:
  "sip_typed (fst st) \<Longrightarrow> NUL \<notin> set v \<Longrightarrow> sip_set sc st k v = Inr st' \<Longrightarrow> sip_typed (fst st')"
  by (auto simp: sip_set_def sip_set_field_typed intro: sip_allow_typed split: if_splits)

lemma sip_parse_result_typed:
  assumes "libamg_sip_parse_config sc w = Inr (Some c, w')"
  shows "sip_typed c"
proof -
  obtain s p where "conf_read SIP_BUF_SIZE sip_delims (sip_set sc) (sip_empty, 0) s = Inr (c, p)"
    using assms by (auto simp: libamg_sip_parse_config_def split: prod.splits option.splits sum.splits)
  from sip.read_inv [OF this, of "\<lambda>st. sip_typed (fst st)"] show ?thesis
    using sip_empty_typed sip_set_typed by auto
qed

lemma sip_strip_typed: "sip_typed c \<Longrightarrow> sip_typed (sip_strip sc c)"
  by (simp add: sip_typed_def sip_account_typed_def sip_strip_def text_fits_strip)

lemma sip_save_typed:
  assumes "sip_typed c"
  shows "case libamg_sip_save_config sc c w of
      Inl e \<Rightarrow> e = Unterminated \<and> (length (session_timers c) = 16 \<or> length (session_refresher c) = 8)
    | Inr (r, c', w') \<Rightarrow> sip_typed c' \<and> r = (if cannot_write w FILE_SIP_CONF then - 1 else 0) \<and>
        open_files w' = open_files w"
proof (cases "cannot_write w FILE_SIP_CONF \<or> 16 \<le> length (session_timers c) \<or> 8 \<le> length (session_refresher c)")
  case True
  have "length (session_timers c) \<le> 16" "length (session_refresher c) \<le> 8"
    using assms by (simp_all add: sip_typed_def text_fits_def)
  then show ?thesis
    using True assms by (auto simp: libamg_sip_save_config_def fopen_w_def)
next
  case False
  let ?c = "sip_strip sc c" and ?w1 = "w\<lparr>files := (files w)(FILE_SIP_CONF \<mapsto> []), open_files := open_files w + 1\<rparr>"
  let ?ps = "sip_general_prints ?c @ sip_timer_prints ?c @ sip_session_prints ?c @ sip_register_prints ?c @
       sip_account_prints (account ?c)"
  define w2 where "w2 = f_prints FILE_SIP_CONF ?ps ?w1"
  have w2: "w2 = ?w1\<lparr>files := (files ?w1)(FILE_SIP_CONF \<mapsto> [] @ concat ?ps)\<rparr>"
    unfolding w2_def by (rule f_prints_open) simp
  have "\<forall>x \<in> set (allow (account ?c)). x \<le> 0 \<or> x \<in> set codec_codes"
    using assms by (auto simp: sip_typed_def sip_account_typed_def sip_strip_def)
  moreover obtain t where "files w2 FILE_SIP_CONF = Some t" and o2: "open_files w2 = open_files w + 1"
    unfolding w2 by simp
  ultimately obtain w3 where "sip_print_allow (allow (account ?c)) w2 = Inr w3" "open_files w3 = open_files w2"
    using sip_print_allow_effect [of "allow (account ?c)" w2 t] by fastforce
  then have "libamg_sip_save_config sc c w = Inr (0, ?c, f_close w3) \<and> open_files (f_close w3) = open_files w"
    using False o2 by (simp add: libamg_sip_save_config_def fopen_w_def Let_def w2_def f_close_def)
  then show ?thesis using False sip_strip_typed [OF assms] by simp
qed

text \<open>C9: Whatever sip.conf holds, a structure that the parser returns is of the types of sip.h: texts within
  their arrays, numbers within their C types, flags 0 or 1, nine codec slots with codes of the table. On a
  structure of these types the printer does not fault, whatever the state of the files and of the
  memory, except that it reads beyond a session text that fills its array; what it hands back is of the
  same types, its status tells whether the file could be opened, and no stream stays open.\<close>

theorem sip_parse_typed:
  assumes "libamg_sip_parse_config sc w = Inr (Some c, w1)"
  shows "sip_typed c \<and>
    (case libamg_sip_save_config sc c w2 of
       Inl e \<Rightarrow> e = Unterminated \<and> (length (session_timers c) = 16 \<or> length (session_refresher c) = 8)
     | Inr (r, c', w3) \<Rightarrow> sip_typed c' \<and> r = (if cannot_write w2 FILE_SIP_CONF then - 1 else 0) \<and>
         open_files w3 = open_files w2)"
  using sip_parse_result_typed [OF assms] sip_save_typed by blast

theorem sip_parse_typed_witness:
  "\<exists>c w1. libamg_sip_parse_config True (comcerto_world [FILE_SIP_CONF \<mapsto> ''session-timers=0123456789abcdefgh\<newline>'']) =
      Inr (Some c, w1) \<and> sip_typed c \<and> session_timers c = ''0123456789abcdef'' \<and>
    libamg_sip_save_config True c w1 = Inl Unterminated"
proof -
  let ?w = "comcerto_world [FILE_SIP_CONF \<mapsto> ''session-timers=0123456789abcdefgh\<newline>'']"
  let ?c = "sip_empty\<lparr>session_timers := ''0123456789abcdef''\<rparr>"
  have l: "''session-timers=0123456789abcdefgh\<newline>'' = conf_line ''session-timers'' ''0123456789abcdefgh''"
    by (simp add: conf_line_def)
  let ?l = "conf_line ''session-timers'' ''0123456789abcdefgh''"
  have "conf_read SIP_BUF_SIZE sip_delims (sip_set True) (sip_empty, 0) ?l = sip_step True (sip_empty, 0) ?l"
    by (rule sip.read_one) (simp add: is_line_def conf_line_def)
  also have "\<dots> = sip_set True (sip_empty, 0) ''session-timers'' ''0123456789abcdefgh''"
    by (rule sip.step_line) (simp_all add: plain_key_simps plain_value_def)
  finally have "conf_read SIP_BUF_SIZE sip_delims (sip_set True) (sip_empty, 0) ?l = Inr (?c, 0)"
    by (simp add: sip_set_not_allow sip_set_keys c_strncpy_def)
  then have p: "libamg_sip_parse_config True ?w =
      Inr (Some ?c, ?w\<lparr>allocs := 1, live := 1\<rparr>)"
    by (simp add: libamg_sip_parse_config_def l comcerto_world_def world_simps f_close_def)
  have "length (session_timers ?c) = 16" by simp
  with sip_parse_typed [OF p, of "?w\<lparr>allocs := 1, live := 1\<rparr>"] p show ?thesis
    by (auto simp: libamg_sip_save_config_def comcerto_world_def fopen_w_def)
qed

end
