(* ===== verification/Tone_Queue.thy ===== *)
theory Tone_Queue
  imports AMG_Prelude
begin

text \<open>
  The queue of tone events of src/dsp.c: a singly linked list of heap nodes behind a static base
  node whose connection is -1. The store maps addresses to nodes, the base has address 0, and a walk
  over the list is a partial function, so that a cycle would show as a walk without a result. The
  mutex makes each operation one step. The locale \<open>tone_fifo\<close> states the contract of the two
  operations over lists of events; in it, any sequence of operations is proved to behave like one
  independent queue per connection.
\<close>

record tone_event =
  conn_id :: int
  tone :: int
  next_node :: "nat option"

record tone_store =
  cells :: "nat \<Rightarrow> tone_event option"
  brk :: nat
  tone_alloc_ok :: "nat \<Rightarrow> bool"

definition base_tone_event :: tone_event where
  "base_tone_event = \<lparr>conn_id = - 1, tone = - 1, next_node = None\<rparr>"

definition tone_init :: "(nat \<Rightarrow> bool) \<Rightarrow> tone_store" where
  "tone_init ok = \<lparr>cells = [0 \<mapsto> base_tone_event], brk = 1, tone_alloc_ok = ok\<rparr>"

subsection \<open>The code\<close>

text \<open>\<open>for (tmp = &base; tmp->next != NULL; tmp = tmp->next);\<close>\<close>

partial_function (option) find_last ::
    "(nat \<Rightarrow> tone_event option) \<Rightarrow> nat \<Rightarrow> nat outcome option" where
  "find_last h a =
     (case h a of
        None \<Rightarrow> Some (Inl Null_Deref)
      | Some n \<Rightarrow> (case next_node n of None \<Rightarrow> Some (Inr a) | Some b \<Rightarrow> find_last h b))"

definition libamg_dsp_queue_tone_event ::
    "int \<Rightarrow> int \<Rightarrow> tone_store \<Rightarrow> (int \<times> tone_store) outcome option" where
  "libamg_dsp_queue_tone_event c x s =
     (let t = brk s; s1 = s\<lparr>brk := Suc t\<rparr> in
      if \<not> tone_alloc_ok s t then Some (Inr (- 1, s1))
      else
        let h1 = (cells s)(t \<mapsto> \<lparr>conn_id = c, tone = x, next_node = None\<rparr>) in
        case find_last h1 0 of
          None \<Rightarrow> None
        | Some (Inl e) \<Rightarrow> Some (Inl e)
        | Some (Inr tmp) \<Rightarrow>
            (case h1 tmp of
               None \<Rightarrow> Some (Inl Null_Deref)
             | Some n \<Rightarrow> Some (Inr (0, s1\<lparr>cells := h1(tmp \<mapsto> n\<lparr>next_node := Some t\<rparr>)\<rparr>))))"

text \<open>The search: the node before (or the base itself) and the node with the connection.\<close>

partial_function (option) find_conn ::
    "(nat \<Rightarrow> tone_event option) \<Rightarrow> int \<Rightarrow> nat \<Rightarrow> nat \<Rightarrow> (nat \<times> nat) option outcome option" where
  "find_conn h c p t =
     (case h t of
        None \<Rightarrow> Some (Inl Null_Deref)
      | Some n \<Rightarrow>
          if conn_id n = c then Some (Inr (Some (p, t)))
          else case next_node n of None \<Rightarrow> Some (Inr None) | Some b \<Rightarrow> find_conn h c t b)"

definition libamg_dsp_dequeue_tone_event ::
    "int \<Rightarrow> tone_store \<Rightarrow> (int \<times> tone_store) outcome option" where
  "libamg_dsp_dequeue_tone_event c s =
     (case find_conn (cells s) c 0 0 of
        None \<Rightarrow> None
      | Some (Inl e) \<Rightarrow> Some (Inl e)
      | Some (Inr None) \<Rightarrow> Some (Inr (- 1, s))
      | Some (Inr (Some (p, t))) \<Rightarrow>
          (case (cells s p, cells s t) of
             (Some np, Some nt) \<Rightarrow>
               if t = 0 then Some (Inl Invalid_Free)
               else Some (Inr (tone nt,
                      s\<lparr>cells := ((cells s)(p \<mapsto> np\<lparr>next_node := next_node nt\<rparr>))(t := None)\<rparr>))
           | _ \<Rightarrow> Some (Inl Null_Deref)))"

subsection \<open>Lists of events\<close>

definition remove_conn :: "int \<Rightarrow> (int \<times> int) list \<Rightarrow> (int \<times> int) list" where
  "remove_conn c es = takeWhile (\<lambda>e. fst e \<noteq> c) es @ tl (dropWhile (\<lambda>e. fst e \<noteq> c) es)"

definition first_tone :: "int \<Rightarrow> (int \<times> int) list \<Rightarrow> int" where
  "first_tone c es = (case dropWhile (\<lambda>e. fst e \<noteq> c) es of [] \<Rightarrow> - 1 | e # _ \<Rightarrow> snd e)"

definition per_conn :: "(int \<times> int) list \<Rightarrow> int \<Rightarrow> int list" where
  "per_conn es c = map snd (filter (\<lambda>e. fst e = c) es)"

lemma per_conn_add: "per_conn (es @ [(d, x)]) = (per_conn es)(d := per_conn es d @ [x])"
  by (auto simp: per_conn_def)

lemma per_conn_remove: "per_conn (remove_conn c es) = (per_conn es)(c := tl (per_conn es c))"
proof
  fix d
  show "per_conn (remove_conn c es) d = ((per_conn es)(c := tl (per_conn es c))) d"
    by (induction es) (auto simp: per_conn_def remove_conn_def)
qed

lemma first_tone_per_conn: "first_tone c es = (case per_conn es c of [] \<Rightarrow> - 1 | x # _ \<Rightarrow> x)"
  by (induction es) (auto simp: first_tone_def per_conn_def)

subsection \<open>The contract\<close>

datatype tone_op = Queue int int | Dequeue int

text \<open>One queue per connection: what the operations mean to the callers.\<close>

fun spec_op :: "tone_op \<Rightarrow> (int \<Rightarrow> int list) \<Rightarrow> int \<times> (int \<Rightarrow> int list)" where
  "spec_op (Queue c x) q = (0, q(c := q c @ [x]))"
| "spec_op (Dequeue c) q = (case q c of [] \<Rightarrow> - 1 | x # _ \<Rightarrow> x, q(c := tl (q c)))"

fun spec_run :: "tone_op list \<Rightarrow> (int \<Rightarrow> int list) \<Rightarrow> int list" where
  "spec_run [] q = []"
| "spec_run (op # ops) q = (let (r, q') = spec_op op q in r # spec_run ops q')"

fun run_ops ::
    "(int \<Rightarrow> int \<Rightarrow> 's \<Rightarrow> (int \<times> 's) outcome option) \<Rightarrow> (int \<Rightarrow> 's \<Rightarrow> (int \<times> 's) outcome option) \<Rightarrow>
     tone_op list \<Rightarrow> 's \<Rightarrow> (int list \<times> 's) outcome option" where
  "run_ops enq deq [] s = Some (Inr ([], s))"
| "run_ops enq deq (op # ops) s =
     (case (case op of Queue c x \<Rightarrow> enq c x s | Dequeue c \<Rightarrow> deq c s) of
        None \<Rightarrow> None
      | Some (Inl e) \<Rightarrow> Some (Inl e)
      | Some (Inr (r, s')) \<Rightarrow>
          (case run_ops enq deq ops s' of
             None \<Rightarrow> None
           | Some (Inl e) \<Rightarrow> Some (Inl e)
           | Some (Inr (rs, s'')) \<Rightarrow> Some (Inr (r # rs, s''))))"

locale tone_fifo =
  fixes rep :: "'s \<Rightarrow> (int \<times> int) list \<Rightarrow> bool"
    and enq :: "int \<Rightarrow> int \<Rightarrow> 's \<Rightarrow> (int \<times> 's) outcome option"
    and deq :: "int \<Rightarrow> 's \<Rightarrow> (int \<times> 's) outcome option"
  assumes enq_law: "rep s es \<Longrightarrow> \<exists>s'. enq c x s = Some (Inr (0, s')) \<and> rep s' (es @ [(c, x)])"
    and deq_law: "rep s es \<Longrightarrow> c \<noteq> - 1 \<Longrightarrow>
      \<exists>s'. deq c s = Some (Inr (first_tone c es, s')) \<and> rep s' (remove_conn c es)"
begin

lemma run_refines:
  "rep s es \<Longrightarrow> Dequeue (- 1) \<notin> set ops \<Longrightarrow>
     \<exists>s' es'. run_ops enq deq ops s = Some (Inr (spec_run ops (per_conn es), s')) \<and> rep s' es'"
proof (induction ops arbitrary: s es)
  case Nil
  then show ?case by auto
next
  case (Cons op ops)
  show ?case
  proof (cases op)
    case (Queue c x)
    obtain s1 where s1: "enq c x s = Some (Inr (0, s1))" "rep s1 (es @ [(c, x)])"
      using enq_law [OF Cons.prems(1)] by blast
    obtain s2 es2 where "run_ops enq deq ops s1 = Some (Inr (spec_run ops (per_conn (es @ [(c, x)])), s2))" "rep s2 es2"
      using Cons.IH [OF s1(2)] Cons.prems(2) by auto
    with s1(1) Queue show ?thesis by (auto simp: per_conn_add)
  next
    case (Dequeue c)
    then have "c \<noteq> - 1" using Cons.prems(2) by auto
    then obtain s1 where s1: "deq c s = Some (Inr (first_tone c es, s1))" "rep s1 (remove_conn c es)"
      using deq_law [OF Cons.prems(1)] by blast
    obtain s2 es2 where "run_ops enq deq ops s1 = Some (Inr (spec_run ops (per_conn (remove_conn c es)), s2))" "rep s2 es2"
      using Cons.IH [OF s1(2)] Cons.prems(2) by auto
    with s1(1) Dequeue show ?thesis by (auto simp: per_conn_remove first_tone_per_conn)
  qed
qed

end

subsection \<open>The list in the store\<close>

fun links :: "(nat \<Rightarrow> tone_event option) \<Rightarrow> nat \<Rightarrow> nat list \<Rightarrow> bool" where
  "links h a [] \<longleftrightarrow> (\<exists>n. h a = Some n \<and> next_node n = None)"
| "links h a (b # bs) \<longleftrightarrow> (\<exists>n. h a = Some n \<and> next_node n = Some b) \<and> links h b bs"

definition event_at :: "(nat \<Rightarrow> tone_event option) \<Rightarrow> nat \<Rightarrow> int \<times> int" where
  "event_at h a = (conn_id (the (h a)), tone (the (h a)))"

definition tone_rep :: "tone_store \<Rightarrow> (int \<times> int) list \<Rightarrow> bool" where
  "tone_rep s es \<longleftrightarrow> (\<exists>ps. links (cells s) 0 ps \<and> distinct (0 # ps) \<and> dom (cells s) = set (0 # ps) \<and>
     (\<forall>a \<in> set (0 # ps). a < brk s) \<and> conn_id (the (cells s 0)) = - 1 \<and>
     map (event_at (cells s)) ps = es \<and> (\<forall>n. tone_alloc_ok s n))"

lemma links_frame: "links h a ps \<Longrightarrow> (\<And>b. b \<in> set (a # ps) \<Longrightarrow> h' b = h b) \<Longrightarrow> links h' a ps"
  by (induction ps arbitrary: a) auto

lemma links_defined: "links h a ps \<Longrightarrow> b \<in> set (a # ps) \<Longrightarrow> \<exists>n. h b = Some n"
  by (induction ps arbitrary: a) auto

lemma find_last_links: "links h a ps \<Longrightarrow> find_last h a = Some (Inr (last (a # ps)))"
  by (induction ps arbitrary: a) (subst find_last.simps, auto)+

lemma links_snoc:
  assumes "links h a ps" and "distinct (a # ps)" and "z \<notin> set (a # ps)"
    and "h (last (a # ps)) = Some n" and "next_node nw = None"
  shows "links (h(z \<mapsto> nw, last (a # ps) \<mapsto> n\<lparr>next_node := Some z\<rparr>)) a (ps @ [z])"
  using assms
proof (induction ps arbitrary: a)
  case Nil
  then show ?case by auto
next
  case (Cons b bs)
  then have "links (h(z \<mapsto> nw, last (b # bs) \<mapsto> n\<lparr>next_node := Some z\<rparr>)) b (bs @ [z])"
    by (intro Cons.IH) auto
  moreover have "a \<noteq> last (b # bs)"
    using Cons.prems(2) by (metis distinct.simps(2) last_in_set list.distinct(1))
  moreover have "(h(z \<mapsto> nw, last (b # bs) \<mapsto> n\<lparr>next_node := Some z\<rparr>)) a = h a"
    using \<open>a \<noteq> last (b # bs)\<close> Cons.prems(3) by auto
  ultimately show ?case using Cons.prems(1) by (simp del: fun_upd_apply)
qed

lemma find_conn_none:
  "links h t ps \<Longrightarrow> (\<And>a. a \<in> set (t # ps) \<Longrightarrow> conn_id (the (h a)) \<noteq> c) \<Longrightarrow>
     find_conn h c p t = Some (Inr None)"
proof (induction ps arbitrary: p t)
  case Nil
  then obtain n where "h t = Some n" "next_node n = None" by auto
  with Nil.prems(2) [of t] show ?case by (subst find_conn.simps) simp
next
  case (Cons b bs)
  then obtain n where n: "h t = Some n" "next_node n = Some b" "links h b bs" by auto
  have "conn_id n \<noteq> c" using Cons.prems(2) [of t] n(1) by simp
  moreover have "find_conn h c t b = Some (Inr None)" using Cons n(3) by simp
  ultimately show ?case using n by (subst find_conn.simps) simp
qed

lemma find_conn_some:
  "links h t ps \<Longrightarrow> t # ps = xs @ a # ys \<Longrightarrow> (\<And>b. b \<in> set xs \<Longrightarrow> conn_id (the (h b)) \<noteq> c) \<Longrightarrow>
     conn_id (the (h a)) = c \<Longrightarrow> find_conn h c p t = Some (Inr (Some (last (p # xs), a)))"
proof (induction xs arbitrary: p t ps)
  case Nil
  then have "t = a" by simp
  obtain n where "h t = Some n" using links_defined [OF Nil.prems(1)] by auto
  with \<open>t = a\<close> Nil.prems(4) show ?case by (subst find_conn.simps) simp
next
  case (Cons b xs)
  then have tb: "t = b" and ps: "ps = xs @ a # ys" by auto
  obtain b' bs where b': "ps = b' # bs" using ps by (cases xs) auto
  then obtain n where n: "h t = Some n" "next_node n = Some b'" "links h b' bs" using Cons.prems(1) by auto
  have "conn_id n \<noteq> c" using Cons.prems(3) [of b] n(1) tb by simp
  then have "find_conn h c p t = find_conn h c t b'" using n by (subst find_conn.simps) simp
  also have "\<dots> = Some (Inr (Some (last (t # xs), a)))"
    using Cons.prems ps b' n(3) by (intro Cons.IH [of b' bs]) auto
  finally show ?case using tb by simp
qed

lemma links_remove:
  assumes "links h q (xs @ a # ys)" and "distinct (q # xs @ a # ys)"
    and "h (last (q # xs)) = Some np" and "h a = Some na"
  shows "links (h(last (q # xs) \<mapsto> np\<lparr>next_node := next_node na\<rparr>, a := None)) q (xs @ ys)"
  using assms
proof (induction xs arbitrary: q)
  case Nil
  then show ?case by (cases ys) (auto intro: links_frame)
next
  case (Cons b xs)
  then have "links (h(last (b # xs) \<mapsto> np\<lparr>next_node := next_node na\<rparr>, a := None)) b (xs @ ys)"
    by (intro Cons.IH) auto
  moreover have "q \<noteq> last (b # xs)" using Cons.prems(2) last_in_set [of "b # xs"] by auto
  moreover have "(h(last (b # xs) \<mapsto> np\<lparr>next_node := next_node na\<rparr>, a := None)) q = h q"
    using \<open>q \<noteq> last (b # xs)\<close> Cons.prems(2) by auto
  ultimately show ?case using Cons.prems(1) by (simp del: fun_upd_apply)
qed

lemma tone_rep_init: "(\<And>n. ok n) \<Longrightarrow> tone_rep (tone_init ok) []"
  by (auto simp: tone_rep_def tone_init_def base_tone_event_def intro!: exI [of _ "[]"])

lemma tone_enq_law:
  assumes "tone_rep s es"
  shows "\<exists>s'. libamg_dsp_queue_tone_event c x s = Some (Inr (0, s')) \<and> tone_rep s' (es @ [(c, x)])"
proof -
  obtain ps where ps: "links (cells s) 0 ps" "distinct (0 # ps)" "dom (cells s) = set (0 # ps)"
      "\<forall>a \<in> set (0 # ps). a < brk s" "conn_id (the (cells s 0)) = - 1"
      "map (event_at (cells s)) ps = es" "\<forall>n. tone_alloc_ok s n"
    using assms by (auto simp: tone_rep_def)
  let ?t = "brk s" and ?l = "last (0 # ps)"
  let ?nw = "\<lparr>conn_id = c, tone = x, next_node = None\<rparr>"
  have t: "?t \<notin> set (0 # ps)" using ps(4) by blast
  have l: "?l \<in> set (0 # ps)" by (rule last_in_set) simp
  then obtain n where n: "cells s ?l = Some n" using links_defined [OF ps(1)] by blast
  have lt: "?l \<noteq> ?t" using l t by metis
  have "links ((cells s)(?t \<mapsto> ?nw)) 0 ps" using ps(1) t by (intro links_frame [OF ps(1)]) auto
  then have fl: "find_last ((cells s)(?t \<mapsto> ?nw)) 0 = Some (Inr ?l)" by (rule find_last_links)
  let ?h = "(cells s)(?t \<mapsto> ?nw, ?l \<mapsto> n\<lparr>next_node := Some ?t\<rparr>)"
  let ?s = "s\<lparr>brk := Suc ?t, cells := ?h\<rparr>"
  have run: "libamg_dsp_queue_tone_event c x s = Some (Inr (0, ?s))"
    using ps(7) fl n lt by (simp add: libamg_dsp_queue_tone_event_def Let_def)
  have lk: "links ?h 0 (ps @ [?t])" using ps(1,2) t n by (intro links_snoc) auto
  have same: "event_at ?h a = event_at (cells s) a" if "a \<in> set (0 # ps)" for a
    using that t n by (auto simp: event_at_def)
  have new: "event_at ?h ?t = (c, x)" using lt by (simp add: event_at_def)
  have "tone_rep ?s (es @ [(c, x)])"
    unfolding tone_rep_def
  proof (intro exI [of _ "ps @ [?t]"] conjI)
    show "links (cells ?s) 0 (ps @ [?t])" using lk by simp
    show "distinct (0 # ps @ [?t])" using ps(2) t by auto
    show "dom (cells ?s) = set (0 # ps @ [?t])" using ps(3) l by (auto simp del: last.simps)
    show "\<forall>a \<in> set (0 # ps @ [?t]). a < brk ?s" using ps(4) by (auto simp: less_SucI)
    show "conn_id (the (cells ?s 0)) = - 1"
      using ps(5) same [of 0] by (simp add: event_at_def del: fun_upd_apply)
    have "map (event_at ?h) ps = es" using same ps(6) by (auto simp del: fun_upd_apply)
    then show "map (event_at (cells ?s)) (ps @ [?t]) = es @ [(c, x)]" using new by (simp del: fun_upd_apply)
    show "\<forall>n. tone_alloc_ok ?s n" using ps(7) by simp
  qed
  with run show ?thesis by blast
qed

lemma dropWhile_takeWhile_split:
  "\<exists>a \<in> set ps. \<not> P a \<Longrightarrow> \<exists>xs a ys. ps = xs @ a # ys \<and> (\<forall>b \<in> set xs. P b) \<and> \<not> P a"
  using split_list_first_prop [of ps "\<lambda>a. \<not> P a"] by auto

lemma first_of_conn:
  assumes "\<forall>b \<in> set xs. fst b \<noteq> c"
  shows "first_tone c (xs @ (c, x) # ys) = x" and "remove_conn c (xs @ (c, x) # ys) = xs @ ys"
  using assms by (simp_all add: first_tone_def remove_conn_def)

lemma no_conn:
  assumes "\<forall>e \<in> set es. fst e \<noteq> c"
  shows "first_tone c es = - 1" and "remove_conn c es = es"
  using assms by (simp_all add: first_tone_def remove_conn_def dropWhile_eq_Nil_conv [THEN iffD2] takeWhile_all)

text \<open>The queue without the event of node \<open>a\<close>.\<close>

lemma tone_rep_unlink:
  assumes "links (cells s) 0 (xs @ a # ys)" and "distinct (0 # xs @ a # ys)" and "dom (cells s) = set (0 # xs @ a # ys)"
    and "\<forall>b \<in> set (0 # xs @ a # ys). b < brk s" and "conn_id (the (cells s 0)) = - 1" and "\<forall>n. tone_alloc_ok s n"
    and "cells s (last (0 # xs)) = Some np" and "cells s a = Some na"
  shows "tone_rep (s\<lparr>cells := (cells s)(last (0 # xs) \<mapsto> np\<lparr>next_node := next_node na\<rparr>, a := None)\<rparr>)
    (map (event_at (cells s)) (xs @ ys))"
proof -
  let ?p = "last (0 # xs)"
  let ?h' = "(cells s)(?p \<mapsto> np\<lparr>next_node := next_node na\<rparr>, a := None)"
  let ?s = "s\<lparr>cells := ?h'\<rparr>"
  have pin: "?p \<in> set (0 # xs)" by (rule last_in_set) simp
  then have pa: "?p \<noteq> a" using assms(2) by auto
  have same: "event_at ?h' b = event_at (cells s) b" if "b \<noteq> a" for b using that assms(7) by (auto simp: event_at_def)
  show ?thesis
    unfolding tone_rep_def
  proof (intro exI [of _ "xs @ ys"] conjI)
    show "links (cells ?s) 0 (xs @ ys)" using links_remove [OF assms(1,2,7,8)] by simp
    show "distinct (0 # xs @ ys)" using assms(2) by auto
    show "dom (cells ?s) = set (0 # xs @ ys)" using assms(2,3) pin pa by (auto simp del: last.simps)
    show "\<forall>b \<in> set (0 # xs @ ys). b < brk ?s" using assms(4) by auto
    show "conn_id (the (cells ?s 0)) = - 1"
      using assms(2,5) same [of 0] by (simp add: event_at_def del: fun_upd_apply)
    have "a \<notin> set (xs @ ys)" using assms(2) by auto
    then have "map (event_at ?h') (xs @ ys) = map (event_at (cells s)) (xs @ ys)" by (intro map_cong refl same) auto
    then show "map (event_at (cells ?s)) (xs @ ys) = map (event_at (cells s)) (xs @ ys)" by (simp del: fun_upd_apply)
    show "\<forall>n. tone_alloc_ok ?s n" using assms(6) by simp
  qed
qed

lemma tone_deq_law:
  assumes "tone_rep s es" and "c \<noteq> - 1"
  shows "\<exists>s'. libamg_dsp_dequeue_tone_event c s = Some (Inr (first_tone c es, s')) \<and>
    tone_rep s' (remove_conn c es)"
proof -
  let ?h = "cells s"
  obtain ps where ps: "links ?h 0 ps" "distinct (0 # ps)" "dom ?h = set (0 # ps)"
      "\<forall>a \<in> set (0 # ps). a < brk s" "conn_id (the (?h 0)) = - 1"
      "map (event_at ?h) ps = es" "\<forall>n. tone_alloc_ok s n"
    using assms(1) by (auto simp: tone_rep_def)
  show ?thesis
  proof (cases "\<exists>a \<in> set ps. conn_id (the (?h a)) = c")
    case False
    then have "find_conn ?h c 0 0 = Some (Inr None)"
      using ps(1,5) assms(2) by (intro find_conn_none [OF ps(1)]) auto
    moreover have "\<forall>e \<in> set es. fst e \<noteq> c" using False ps(6) by (auto simp: event_at_def)
    ultimately show ?thesis using assms(1) no_conn [of es c] by (simp add: libamg_dsp_dequeue_tone_event_def)
  next
    case True
    then obtain xs a ys where sp: "ps = xs @ a # ys" "\<forall>b \<in> set xs. conn_id (the (?h b)) \<noteq> c"
        "conn_id (the (?h a)) = c"
      using dropWhile_takeWhile_split [of ps "\<lambda>a. conn_id (the (?h a)) \<noteq> c"] by auto
    note p = ps(1-5) [unfolded sp(1)]
    have "find_conn ?h c 0 0 = Some (Inr (Some (last (0 # 0 # xs), a)))"
      using sp ps(5) assms(2) by (intro find_conn_some [OF ps(1), of _ _ ys]) auto
    then have find: "find_conn ?h c 0 0 = Some (Inr (Some (last (0 # xs), a)))" by simp
    have "last (0 # xs) \<in> set (0 # xs)" by (rule last_in_set) simp
    then obtain np where np: "?h (last (0 # xs)) = Some np" using links_defined [OF p(1), of "last (0 # xs)"] by auto
    obtain na where na: "?h a = Some na" using links_defined [OF p(1), of a] by auto
    have run: "libamg_dsp_dequeue_tone_event c s = Some (Inr (tone na,
        s\<lparr>cells := ?h(last (0 # xs) \<mapsto> np\<lparr>next_node := next_node na\<rparr>, a := None)\<rparr>))"
      unfolding libamg_dsp_dequeue_tone_event_def find using np na p(2) by simp
    have "es = map (event_at ?h) xs @ (c, tone na) # map (event_at ?h) ys"
      using ps(6) sp(1,3) na by (auto simp: event_at_def)
    moreover have "\<forall>b \<in> set (map (event_at ?h) xs). fst b \<noteq> c" using sp(2) by (auto simp: event_at_def)
    ultimately have "first_tone c es = tone na" "remove_conn c es = map (event_at ?h) (xs @ ys)"
      by (simp_all add: first_of_conn)
    then show ?thesis using run tone_rep_unlink [OF p ps(7) np na] by simp
  qed
qed

interpretation tone_queue: tone_fifo tone_rep libamg_dsp_queue_tone_event libamg_dsp_dequeue_tone_event
  by unfold_locales (rule tone_enq_law tone_deq_law; assumption)+

text \<open>C11: Any sequence of queue and dequeue operations on the linked list, for connections other than
  -1 and with memory available, ends and gives the results of one first-in first-out queue per
  connection: events of different connections never overtake or lose one another, and a connection
  without events gets -1.\<close>

theorem tone_queue_refines:
  assumes "Dequeue (- 1) \<notin> set ops" and "\<And>n. ok n"
  shows "\<exists>s'. run_ops libamg_dsp_queue_tone_event libamg_dsp_dequeue_tone_event ops (tone_init ok) =
    Some (Inr (spec_run ops (\<lambda>_. []), s'))"
proof -
  have "per_conn [] = (\<lambda>_. [])" by (simp add: per_conn_def fun_eq_iff)
  then show ?thesis
    using tone_queue.run_refines [OF tone_rep_init assms(1), of ok] assms(2) by auto
qed

theorem tone_queue_refines_witness:
  "\<exists>s'. run_ops libamg_dsp_queue_tone_event libamg_dsp_dequeue_tone_event
      [Queue 3 7, Queue 4 1, Queue 3 9, Dequeue 3, Dequeue 4, Dequeue 4, Dequeue 3] (tone_init (\<lambda>_. True)) =
    Some (Inr ([0, 0, 0, 7, 1, - 1, 9], s'))"
  using tone_queue_refines [of "[Queue 3 7, Queue 4 1, Queue 3 9, Dequeue 3, Dequeue 4, Dequeue 4, Dequeue 3]"
      "\<lambda>_. True"] by simp

text \<open>Dequeuing for connection -1 finds the static base node itself and hands it to \<open>free\<close>, in
  every state that the two operations can reach.\<close>

theorem tone_dequeue_base:
  assumes "tone_rep s es"
  shows "libamg_dsp_dequeue_tone_event (- 1) s = Some (Inl Invalid_Free)"
proof -
  obtain ps where ps: "links (cells s) 0 ps" "conn_id (the (cells s 0)) = - 1"
    using assms by (auto simp: tone_rep_def)
  obtain n where n: "cells s 0 = Some n" using links_defined [OF ps(1)] by auto
  then have "find_conn (cells s) (- 1) 0 0 = Some (Inr (Some (0, 0)))"
    using ps(2) by (subst find_conn.simps) simp
  then show ?thesis using n by (simp add: libamg_dsp_dequeue_tone_event_def)
qed

theorem tone_dequeue_base_witness:
  "libamg_dsp_dequeue_tone_event (- 1) (tone_init (\<lambda>_. True)) = Some (Inl Invalid_Free)"
  by (rule tone_dequeue_base [OF tone_rep_init]) simp

end
