(* ===== verification/Tone_Threads.thy ===== *)
theory Tone_Threads
  imports Tone_Queue "HOL-Library.Sublist"
begin

text \<open>
  The queue of tone events of src/dsp.c with many threads. Here the operations of Tone_Queue are not steps:
  a thread allocates its node, waits for \<open>tone_mutex\<close>, follows one link, writes one pointer, frees, or
  releases the mutex, and the steps of the threads come in any order. Every thread works off a list of
  operations. \<open>hist\<close> records the operations where they take effect; it is not read by any step.
\<close>

datatype tone_pc = Idle
  | Enq_Start int int
  | Enq_Lock int int nat
  | Enq_Walk int int nat nat
  | Enq_Unlock int int
  | Deq_Lock int
  | Deq_Walk int nat nat
  | Deq_Free int nat int
  | Deq_Unlock int int
  | Crashed fault

record tone_conc =
  mem :: tone_store
  tone_mutex :: "nat option"
  pc :: "nat \<Rightarrow> tone_pc"
  todo :: "nat \<Rightarrow> tone_op list"
  results :: "nat \<Rightarrow> (tone_op \<times> int) list"
  hist :: "(nat \<times> tone_op \<times> int) list"

subsection \<open>The steps\<close>

definition goto :: "nat \<Rightarrow> tone_pc \<Rightarrow> tone_conc \<Rightarrow> tone_conc" where
  "goto i p s = s\<lparr>pc := (pc s)(i := p)\<rparr>"

definition set_cells :: "(nat \<Rightarrow> tone_event option) \<Rightarrow> tone_conc \<Rightarrow> tone_conc" where
  "set_cells h s = s\<lparr>mem := (mem s)\<lparr>cells := h\<rparr>\<rparr>"

definition takes_effect :: "nat \<Rightarrow> tone_op \<Rightarrow> int \<Rightarrow> tone_conc \<Rightarrow> tone_conc" where
  "takes_effect i op r s = s\<lparr>hist := hist s @ [(i, op, r)]\<rparr>"

definition return_op :: "nat \<Rightarrow> tone_op \<Rightarrow> int \<Rightarrow> tone_conc \<Rightarrow> tone_conc" where
  "return_op i op r s = goto i Idle (s\<lparr>results := (results s)(i := results s i @ [(op, r)])\<rparr>)"

definition lock :: "nat \<Rightarrow> tone_pc \<Rightarrow> tone_conc \<Rightarrow> tone_conc option" where
  "lock i p s = (case tone_mutex s of None \<Rightarrow> Some (goto i p (s\<lparr>tone_mutex := Some i\<rparr>)) | Some j \<Rightarrow> None)"

definition unlock :: "tone_conc \<Rightarrow> tone_conc" where
  "unlock s = s\<lparr>tone_mutex := None\<rparr>"

text \<open>A thread begins the next operation of its list.\<close>

definition begin_op :: "nat \<Rightarrow> tone_conc \<Rightarrow> tone_conc option" where
  "begin_op i s =
     (case todo s i of
        [] \<Rightarrow> None
      | op # ops \<Rightarrow> Some (goto i (case op of Queue c x \<Rightarrow> Enq_Start c x | Dequeue c \<Rightarrow> Deq_Lock c)
          (s\<lparr>todo := (todo s)(i := ops)\<rparr>)))"

text \<open>The steps of \<open>libamg_dsp_queue_tone_event\<close>: allocation, and one link of the search for the end.\<close>

definition enq_alloc :: "nat \<Rightarrow> int \<Rightarrow> int \<Rightarrow> tone_conc \<Rightarrow> tone_conc" where
  "enq_alloc i c x s =
     (let t = brk (mem s); s1 = s\<lparr>mem := (mem s)\<lparr>brk := Suc t\<rparr>\<rparr> in
      if \<not> tone_alloc_ok (mem s) t then return_op i (Queue c x) (- 1) (takes_effect i (Queue c x) (- 1) s1)
      else goto i (Enq_Lock c x t) (set_cells ((cells (mem s))(t \<mapsto> \<lparr>conn_id = c, tone = x, next_node = None\<rparr>)) s1))"

definition enq_walk :: "nat \<Rightarrow> int \<Rightarrow> int \<Rightarrow> nat \<Rightarrow> nat \<Rightarrow> tone_conc \<Rightarrow> tone_conc" where
  "enq_walk i c x t tmp s =
     (case cells (mem s) tmp of
        None \<Rightarrow> goto i (Crashed Null_Deref) s
      | Some n \<Rightarrow>
          (case next_node n of
             Some b \<Rightarrow> goto i (Enq_Walk c x t b) s
           | None \<Rightarrow> goto i (Enq_Unlock c x) (takes_effect i (Queue c x) 0
               (set_cells ((cells (mem s))(tmp \<mapsto> n\<lparr>next_node := Some t\<rparr>)) s))))"

text \<open>The steps of \<open>libamg_dsp_dequeue_tone_event\<close>: one node of the search, and \<open>free\<close>.\<close>

definition deq_walk :: "nat \<Rightarrow> int \<Rightarrow> nat \<Rightarrow> nat \<Rightarrow> tone_conc \<Rightarrow> tone_conc" where
  "deq_walk i c p t s =
     (case cells (mem s) t of
        None \<Rightarrow> goto i (Crashed Null_Deref) s
      | Some n \<Rightarrow>
          if conn_id n \<noteq> c then
            (case next_node n of
               Some b \<Rightarrow> goto i (Deq_Walk c t b) s
             | None \<Rightarrow> goto i (Deq_Unlock c (- 1)) (takes_effect i (Dequeue c) (- 1) s))
          else case cells (mem s) p of
              None \<Rightarrow> goto i (Crashed Null_Deref) s
            | Some q \<Rightarrow> goto i (Deq_Free c t (tone n)) (takes_effect i (Dequeue c) (tone n)
                (set_cells ((cells (mem s))(p \<mapsto> q\<lparr>next_node := next_node n\<rparr>)) s)))"

definition deq_free :: "nat \<Rightarrow> int \<Rightarrow> nat \<Rightarrow> int \<Rightarrow> tone_conc \<Rightarrow> tone_conc" where
  "deq_free i c t x s =
     (if t = 0 \<or> cells (mem s) t = None then goto i (Crashed Invalid_Free) s
      else goto i (Deq_Unlock c x) (set_cells ((cells (mem s))(t := None)) s))"

definition thread_step :: "nat \<Rightarrow> tone_conc \<Rightarrow> tone_conc option" where
  "thread_step i s =
     (case pc s i of
        Idle \<Rightarrow> begin_op i s
      | Enq_Start c x \<Rightarrow> Some (enq_alloc i c x s)
      | Enq_Lock c x t \<Rightarrow> lock i (Enq_Walk c x t 0) s
      | Enq_Walk c x t tmp \<Rightarrow> Some (enq_walk i c x t tmp s)
      | Enq_Unlock c x \<Rightarrow> Some (return_op i (Queue c x) 0 (unlock s))
      | Deq_Lock c \<Rightarrow> lock i (Deq_Walk c 0 0) s
      | Deq_Walk c p t \<Rightarrow> Some (deq_walk i c p t s)
      | Deq_Free c t x \<Rightarrow> Some (deq_free i c t x s)
      | Deq_Unlock c x \<Rightarrow> Some (return_op i (Dequeue c) x (unlock s))
      | Crashed e \<Rightarrow> None)"

inductive tone_step :: "tone_conc \<Rightarrow> tone_conc \<Rightarrow> bool" where
  thread: "thread_step i s = Some s' \<Longrightarrow> tone_step s s'"

definition conc_init :: "(nat \<Rightarrow> bool) \<Rightarrow> (nat \<Rightarrow> tone_op list) \<Rightarrow> tone_conc" where
  "conc_init ok prog = \<lparr>mem = tone_init ok, tone_mutex = None, pc = (\<lambda>_. Idle), todo = prog,
     results = (\<lambda>_. []), hist = []\<rparr>"

subsection \<open>What a history means\<close>

text \<open>
  The operations of the history one after the other on one queue per connection: an operation that could not
  allocate changes nothing, every other one must have the result of the queue. \<open>None\<close> is a history with a
  wrong result.
\<close>

fun is_queue :: "tone_op \<Rightarrow> bool" where
  "is_queue (Queue c x) = True"
| "is_queue (Dequeue c) = False"

fun replay :: "(nat \<times> tone_op \<times> int) list \<Rightarrow> (int \<Rightarrow> int list) \<Rightarrow> (int \<Rightarrow> int list) option" where
  "replay [] q = Some q"
| "replay ((i, op, r) # l) q =
     (let (r', q') = spec_op op q in
      if r = r' then replay l q' else if is_queue op \<and> r = - 1 then replay l q else None)"

definition history_of :: "nat \<Rightarrow> (nat \<times> tone_op \<times> int) list \<Rightarrow> (tone_op \<times> int) list" where
  "history_of i l = map snd (filter (\<lambda>e. fst e = i) l)"

lemma replay_append: "replay (l @ l') q = (case replay l q of None \<Rightarrow> None | Some q' \<Rightarrow> replay l' q')"
  by (induction l q rule: replay.induct) (auto simp: Let_def split: prod.splits)

lemma history_of_snoc [simp]:
  "history_of i (l @ [(j, op, r)]) = history_of i l @ (if i = j then [(op, r)] else [])"
  by (simp add: history_of_def)

subsection \<open>The invariant\<close>

text \<open>Where a thread is: in the critical section; with a node of its own; with an operation that has not
  taken effect; with one that has, but has not returned.\<close>

fun critical :: "tone_pc \<Rightarrow> bool" where
  "critical (Enq_Walk c x t tmp) = True" | "critical (Enq_Unlock c x) = True"
| "critical (Deq_Walk c p t) = True" | "critical (Deq_Free c t x) = True" | "critical (Deq_Unlock c x) = True"
| "critical p = False"

fun own :: "tone_pc \<Rightarrow> nat option" where
  "own (Enq_Lock c x t) = Some t" | "own (Enq_Walk c x t tmp) = Some t" | "own (Deq_Free c t x) = Some t"
| "own p = None"

fun pending :: "tone_pc \<Rightarrow> tone_op list" where
  "pending (Enq_Start c x) = [Queue c x]" | "pending (Enq_Lock c x t) = [Queue c x]"
| "pending (Enq_Walk c x t tmp) = [Queue c x]" | "pending (Deq_Lock c) = [Dequeue c]"
| "pending (Deq_Walk c p t) = [Dequeue c]" | "pending p = []"

fun effected :: "tone_pc \<Rightarrow> (tone_op \<times> int) list" where
  "effected (Enq_Unlock c x) = [(Queue c x, 0)]" | "effected (Deq_Free c t x) = [(Dequeue c, x)]"
| "effected (Deq_Unlock c x) = [(Dequeue c, x)]" | "effected p = []"

definition mutex_ok :: "tone_conc \<Rightarrow> bool" where
  "mutex_ok s \<longleftrightarrow> (\<forall>i. critical (pc s i) \<longleftrightarrow> tone_mutex s = Some i)"

definition progs_ok :: "(nat \<Rightarrow> tone_op list) \<Rightarrow> tone_conc \<Rightarrow> bool" where
  "progs_ok prog s \<longleftrightarrow> (\<forall>i. history_of i (hist s) = results s i @ effected (pc s i) \<and>
     map fst (results s i @ effected (pc s i)) @ pending (pc s i) @ todo s i = prog i)"

text \<open>The queued nodes \<open>ps\<close> behind the base; every other node belongs to one thread.\<close>

definition list_ok :: "tone_store \<Rightarrow> nat list \<Rightarrow> bool" where
  "list_ok m ps \<longleftrightarrow> links (cells m) 0 ps \<and> distinct (0 # ps) \<and> conn_id (the (cells m 0)) = - 1 \<and>
     (\<forall>a \<in> dom (cells m). a < brk m)"

definition owned_ok :: "tone_conc \<Rightarrow> nat list \<Rightarrow> bool" where
  "owned_ok s ps \<longleftrightarrow> dom (cells (mem s)) = set (0 # ps) \<union> {t. \<exists>i. own (pc s i) = Some t} \<and>
     (\<forall>i t. own (pc s i) = Some t \<longrightarrow> t \<notin> set (0 # ps)) \<and>
     (\<forall>i j t. own (pc s i) = Some t \<longrightarrow> own (pc s j) = Some t \<longrightarrow> i = j)"

fun pc_ok :: "(nat \<Rightarrow> tone_event option) \<Rightarrow> nat list \<Rightarrow> tone_pc \<Rightarrow> bool" where
  "pc_ok h ps (Enq_Lock c x t) \<longleftrightarrow> h t = Some \<lparr>conn_id = c, tone = x, next_node = None\<rparr>"
| "pc_ok h ps (Enq_Walk c x t tmp) \<longleftrightarrow>
     h t = Some \<lparr>conn_id = c, tone = x, next_node = None\<rparr> \<and> tmp \<in> set (0 # ps)"
| "pc_ok h ps (Deq_Walk c p t) \<longleftrightarrow>
     (\<exists>xs ys. 0 # ps = xs @ t # ys \<and> p = last (0 # xs) \<and> (\<forall>b \<in> set xs. conn_id (the (h b)) \<noteq> c))"
| "pc_ok h ps (Crashed e) \<longleftrightarrow> False"
| "pc_ok h ps p \<longleftrightarrow> True"

definition conc_ok :: "(nat \<Rightarrow> tone_op list) \<Rightarrow> tone_conc \<Rightarrow> nat list \<Rightarrow> bool" where
  "conc_ok prog s ps \<longleftrightarrow> mutex_ok s \<and> progs_ok prog s \<and> list_ok (mem s) ps \<and> owned_ok s ps \<and>
     (\<forall>i. pc_ok (cells (mem s)) ps (pc s i)) \<and>
     replay (hist s) (\<lambda>_. []) = Some (per_conn (map (event_at (cells (mem s))) ps))"

lemmas move_defs = goto_def set_cells_def takes_effect_def return_op_def unlock_def

lemma pc_ok_frame:
  assumes "pc_ok h ps p" and "\<not> critical p" and "\<And>t. own p = Some t \<Longrightarrow> h' t = h t"
  shows "pc_ok h' ps' p"
  using assms by (cases p) auto

lemma links_next: "links h a ps \<Longrightarrow> a # ps = xs @ t # ys \<Longrightarrow>
    \<exists>n. h t = Some n \<and> next_node n = (case ys of [] \<Rightarrow> None | b # bs \<Rightarrow> Some b)"
proof (induction xs arbitrary: a ps)
  case Nil
  then show ?case by (cases ys) auto
next
  case (Cons z zs)
  then obtain b bs where b: "ps = b # bs" by (cases ps) auto
  with Cons.prems have "links h b bs" "b # bs = zs @ t # ys" by auto
  then show ?case by (rule Cons.IH)
qed

subsection \<open>Steps that leave the list alone\<close>

lemma local_step:
  assumes "conc_ok prog s ps" and "cells (mem s') = cells (mem s)" and "brk (mem s) \<le> brk (mem s')"
    and "pc s' = (pc s)(i := p)" and "own p = own (pc s i)" and "pc_ok (cells (mem s)) ps p"
    and "mutex_ok s'" and "progs_ok prog s'" and "replay (hist s') (\<lambda>_. []) = replay (hist s) (\<lambda>_. [])"
  shows "conc_ok prog s' ps"
proof -
  have "own (pc s' j) = own (pc s j)" for j using assms(4,5) by simp
  then have "owned_ok s' ps" using assms(1,2) by (simp add: conc_ok_def owned_ok_def)
  moreover have "list_ok (mem s') ps" using assms(1-3) by (auto simp: conc_ok_def list_ok_def intro: less_le_trans)
  ultimately show ?thesis using assms(1,2,4,6-9) by (simp add: conc_ok_def)
qed

lemma progs_okD:
  "progs_ok prog s \<Longrightarrow> history_of i (hist s) = results s i @ effected (pc s i) \<and>
     map fst (results s i @ effected (pc s i)) @ pending (pc s i) @ todo s i = prog i"
  unfolding progs_ok_def by blast

lemma mutex_same:
  "mutex_ok s \<Longrightarrow> tone_mutex s' = tone_mutex s \<Longrightarrow> pc s' = (pc s)(i := p) \<Longrightarrow> critical p = critical (pc s i) \<Longrightarrow> mutex_ok s'"
  by (simp add: mutex_ok_def)

lemma progs_same:
  assumes "progs_ok prog s" and "pc s' = (pc s)(i := p)" and "todo s' = todo s" and "results s' = results s"
    and "hist s' = hist s @ map (Pair i) es" and "effected p = effected (pc s i) @ es" and "map fst es @ pending p = pending (pc s i)"
  shows "progs_ok prog s'"
proof -
  have "history_of j (hist s') = history_of j (hist s) @ (if i = j then es else [])" for j
    unfolding assms(5) by (auto simp: history_of_def filter_map o_def)
  then show ?thesis
    using assms(1-4,6) progs_okD [OF assms(1), of i] assms(7) [symmetric] by (auto simp: progs_ok_def)
qed

lemma begin_op_ok:
  assumes "conc_ok prog s ps" and "pc s i = Idle" and "begin_op i s = Some s'"
  shows "conc_ok prog s' ps"
proof -
  obtain op ops where td: "todo s i = op # ops" using assms(3) by (auto simp: begin_op_def split: list.splits)
  let ?p = "case op of Queue c x \<Rightarrow> Enq_Start c x | Dequeue c \<Rightarrow> Deq_Lock c"
  have s': "s' = goto i ?p (s\<lparr>todo := (todo s)(i := ops)\<rparr>)" using assms(3) td by (simp add: begin_op_def)
  have p: "own ?p = None" "\<not> critical ?p" "effected ?p = []" "pending ?p = [op]" "pc_ok h ps ?p" for h
    by (cases op; simp)+
  have m: "mutex_ok s" "progs_ok prog s" using assms(1) by (simp_all add: conc_ok_def)
  have "mutex_ok s'" by (rule mutex_same [OF m(1), of _ i ?p]) (simp_all add: assms(2) p s' goto_def)
  moreover have "progs_ok prog s'"
    using m(2) progs_okD [OF m(2), of i] assms(2) td p by (auto simp: progs_ok_def s' goto_def)
  ultimately show ?thesis
    using assms(1,2) p by (intro local_step [of prog s ps s' i ?p]) (simp_all add: s' goto_def)
qed

lemma lock_ok:
  assumes "conc_ok prog s ps" and "lock i p s = Some s'" and "\<not> critical (pc s i)" and "critical p"
    and "own p = own (pc s i)" and "effected p = effected (pc s i)" and "pending p = pending (pc s i)"
    and "pc_ok (cells (mem s)) ps p"
  shows "conc_ok prog s' ps"
proof -
  have s': "s' = goto i p (s\<lparr>tone_mutex := Some i\<rparr>)" and free: "tone_mutex s = None"
    using assms(2) by (auto simp: lock_def split: option.splits)
  have m: "mutex_ok s" "progs_ok prog s" using assms(1) by (simp_all add: conc_ok_def)
  have "mutex_ok s'" using m(1) free assms(4) by (auto simp: mutex_ok_def s' goto_def)
  moreover have "progs_ok prog s'" using m(2) assms(6,7) by (simp add: progs_ok_def s' goto_def)
  ultimately show ?thesis using assms(1,5,8) by (intro local_step [of prog s ps s' i p]) (simp_all add: s' goto_def)
qed

lemma return_ok:
  assumes "conc_ok prog s ps" and "effected (pc s i) = [(op, r)]" and "critical (pc s i)" and "own (pc s i) = None"
    and "pending (pc s i) = []"
  shows "conc_ok prog (return_op i op r (unlock s)) ps"
proof -
  let ?s = "return_op i op r (unlock s)"
  have m: "mutex_ok s" "progs_ok prog s" using assms(1) by (simp_all add: conc_ok_def)
  have "tone_mutex s = Some i" using m(1) assms(3) by (simp add: mutex_ok_def)
  then have "mutex_ok ?s" using m(1) by (simp add: mutex_ok_def move_defs)
  moreover have "progs_ok prog ?s" using m(2) progs_okD [OF m(2), of i] assms(2,5) by (simp add: progs_ok_def move_defs)
  ultimately show ?thesis using assms(1,4) by (intro local_step [of prog s ps ?s i Idle]) (simp_all add: move_defs)
qed

text \<open>A thread that stays in its operation, or finishes it without touching the list.\<close>

lemma stay_ok:
  assumes "conc_ok prog s ps" and "critical p = critical (pc s i)" and "own p = own (pc s i)"
    and "effected p = effected (pc s i)" and "pending p = pending (pc s i)" and "pc_ok (cells (mem s)) ps p"
  shows "conc_ok prog (goto i p s) ps"
proof -
  have m: "mutex_ok s" "progs_ok prog s" using assms(1) by (simp_all add: conc_ok_def)
  have "mutex_ok (goto i p s)" by (rule mutex_same [OF m(1), of _ i p]) (simp_all add: assms(2) goto_def)
  moreover have "progs_ok prog (goto i p s)" by (rule progs_same [OF m(2), of _ i p "[]"]) (simp_all add: assms(4,5) goto_def)
  ultimately show ?thesis
    using assms(1,3,6) by (intro local_step [of prog s ps "goto i p s" i p]) (simp_all add: goto_def)
qed

subsection \<open>Steps of the search\<close>

lemma conc_okD:
  assumes "conc_ok prog s ps"
  shows "mutex_ok s" "progs_ok prog s" "list_ok (mem s) ps" "owned_ok s ps" "pc_ok (cells (mem s)) ps (pc s i)"
    "replay (hist s) (\<lambda>_. []) = Some (per_conn (map (event_at (cells (mem s))) ps))"
  using assms by (simp_all add: conc_ok_def)

lemma list_node:
  assumes "list_ok m ps" and "0 # ps = xs @ t # ys"
  shows "\<exists>n. cells m t = Some n \<and> next_node n = (case ys of [] \<Rightarrow> None | b # bs \<Rightarrow> Some b)"
  using assms links_next by (auto simp: list_ok_def)

lemma list_defined: "list_ok m ps \<Longrightarrow> a \<in> set (0 # ps) \<Longrightarrow> \<exists>n. cells m a = Some n"
  unfolding list_ok_def using links_defined by blast

lemma enq_move_ok:
  assumes "conc_ok prog s ps" and "pc s i = Enq_Walk c x t tmp" and "cells (mem s) tmp = Some n" and "next_node n = Some b"
  shows "conc_ok prog (goto i (Enq_Walk c x t b) s) ps"
proof -
  have ok: "pc_ok (cells (mem s)) ps (Enq_Walk c x t tmp)" using conc_okD(5) [OF assms(1), of i] assms(2) by simp
  then obtain xs ys where sp: "0 # ps = xs @ tmp # ys" by (auto dest: split_list simp del: set_simps)
  from list_node [OF conc_okD(3) [OF assms(1)] this] assms(3,4) have "b \<in> set ys" by (cases ys) auto
  then have "b \<in> set (0 # ps)" unfolding sp by simp
  with ok show ?thesis using assms(1,2) by (intro stay_ok) auto
qed

lemma deq_move_ok:
  assumes "conc_ok prog s ps" and "pc s i = Deq_Walk c p t" and "cells (mem s) t = Some n" and "conn_id n \<noteq> c"
    and "next_node n = Some b"
  shows "conc_ok prog (goto i (Deq_Walk c t b) s) ps"
proof -
  obtain xs ys where sp: "0 # ps = xs @ t # ys" and xs: "\<forall>b \<in> set xs. conn_id (the (cells (mem s) b)) \<noteq> c"
    using conc_okD(5) [OF assms(1), of i] assms(2) by auto
  from list_node [OF conc_okD(3) [OF assms(1)] sp] assms(3,5) obtain bs where "ys = b # bs" by (cases ys) auto
  with sp xs have "pc_ok (cells (mem s)) ps (Deq_Walk c t b)"
    unfolding pc_ok.simps using assms(3,4) by (intro exI [of _ "xs @ [t]"] exI [of _ bs]) simp
  then show ?thesis using assms(1,2) by (intro stay_ok) auto
qed

lemma deq_missing_ok:
  assumes "conc_ok prog s ps" and "pc s i = Deq_Walk c p t" and "cells (mem s) t = Some n" and "conn_id n \<noteq> c"
    and "next_node n = None"
  shows "conc_ok prog (goto i (Deq_Unlock c (- 1)) (takes_effect i (Dequeue c) (- 1) s)) ps"
proof -
  let ?s = "goto i (Deq_Unlock c (- 1)) (takes_effect i (Dequeue c) (- 1) s)"
  note ok = conc_okD [OF assms(1)]
  obtain xs ys where sp: "0 # ps = xs @ t # ys" and xs: "\<forall>b \<in> set xs. conn_id (the (cells (mem s) b)) \<noteq> c"
    using ok(5) [of i] assms(2) by auto
  from list_node [OF ok(3) sp] assms(3,5) have "ys = []" by (cases ys) auto
  then have "\<forall>b \<in> set (0 # ps). conn_id (the (cells (mem s) b)) \<noteq> c" unfolding sp using xs assms(3,4) by auto
  then have "per_conn (map (event_at (cells (mem s))) ps) c = []"
    by (auto simp: per_conn_def event_at_def filter_empty_conv)
  then have "replay (hist ?s) (\<lambda>_. []) = replay (hist s) (\<lambda>_. [])"
    using ok(6) by (auto simp: replay_append move_defs)
  moreover have "mutex_ok ?s" by (rule mutex_same [OF ok(1), of _ i "Deq_Unlock c (- 1)"]) (simp_all add: assms(2) move_defs)
  moreover have "progs_ok prog ?s"
    by (rule progs_same [OF ok(2), of _ i "Deq_Unlock c (- 1)" "[(Dequeue c, - 1)]"]) (simp_all add: assms(2) move_defs)
  ultimately show ?thesis
    using assms(1,2) by (intro local_step [of prog s ps ?s i "Deq_Unlock c (- 1)"]) (simp_all add: move_defs)
qed

subsection \<open>Steps that write\<close>

text \<open>The other threads when the list changes: none of them is in the critical section.\<close>

lemma not_critical: "mutex_ok s \<Longrightarrow> critical (pc s i) \<Longrightarrow> j \<noteq> i \<Longrightarrow> \<not> critical (pc s j)"
  by (simp add: mutex_ok_def)

lemma pc_ok_others:
  assumes "conc_ok prog s ps" and "critical (pc s i)" and "j \<noteq> i"
    and "\<And>t. own (pc s j) = Some t \<Longrightarrow> h' t = cells (mem s) t"
  shows "pc_ok h' ps' (pc s j)"
  by (rule pc_ok_frame [OF conc_okD(5) [OF assms(1)] not_critical [OF conc_okD(1) [OF assms(1)] assms(2,3)]]) (rule assms(4))

lemma owned:
  assumes "conc_ok prog s ps" and "own (pc s i) = Some t"
  shows "t \<notin> set (0 # ps)" "t \<noteq> 0" "\<exists>n. cells (mem s) t = Some n" "own (pc s j) = Some t \<Longrightarrow> j = i"
proof -
  have o: "owned_ok s ps" using assms(1) by (rule conc_okD)
  show n: "t \<notin> set (0 # ps)" using o assms(2) unfolding owned_ok_def by blast
  then show "t \<noteq> 0" by simp
  have "t \<in> dom (cells (mem s))" using o assms(2) unfolding owned_ok_def by blast
  then show "\<exists>n. cells (mem s) t = Some n" by blast
  show "own (pc s j) = Some t \<Longrightarrow> j = i" using o assms(2) unfolding owned_ok_def by blast
qed

lemma pc_ok_extend:
  assumes "pc_ok h ps p" and "\<And>a. a \<in> dom h \<Longrightarrow> h' a = h a" and "set (0 # ps) \<subseteq> dom h"
  shows "pc_ok h' ps p"
proof -
  have keep: "h a = Some v \<Longrightarrow> h' a = Some v" for a v using assms(2) [of a] by auto
  show ?thesis
  proof (cases p)
    case (Deq_Walk c q t)
    then obtain xs ys where sp: "0 # ps = xs @ t # ys" "q = last (0 # xs)" "\<forall>b \<in> set xs. conn_id (the (h b)) \<noteq> c"
      using assms(1) by auto
    moreover have "h' b = h b" if "b \<in> set xs" for b
    proof -
      have "b \<in> set (0 # ps)" unfolding sp(1) using that by simp
      then show ?thesis using assms(2,3) by blast
    qed
    ultimately show ?thesis unfolding Deq_Walk pc_ok.simps by (intro exI [of _ xs] exI [of _ ys]) simp
  qed (use assms(1) keep in simp_all)
qed

text \<open>A thread takes a node (allocated, or unlinked) and gives one away (linked, or freed).\<close>

lemma owned_take:
  assumes "owned_ok s ps" and "pc s' = (pc s)(i := p)" and "own (pc s i) = None" and "own p = Some t"
    and "\<And>j. own (pc s j) \<noteq> Some t" and "set (0 # ps') = set (0 # ps) - {t}"
    and "dom (cells (mem s')) = insert t (dom (cells (mem s)))"
  shows "owned_ok s' ps'"
proof -
  have eq: "(own (pc s' j) = Some a) = (j = i \<and> a = t \<or> own (pc s j) = Some a)" for j a
    using assms(3,4) by (auto simp: assms(2))
  have "dom (cells (mem s)) = set (0 # ps) \<union> {a. \<exists>j. own (pc s j) = Some a}" using assms(1) by (simp only: owned_ok_def)
  then have "dom (cells (mem s')) = set (0 # ps') \<union> {a. \<exists>j. own (pc s' j) = Some a}"
    unfolding eq assms(6,7) by blast
  then show ?thesis using assms(1,5) unfolding owned_ok_def eq assms(6) by blast
qed

lemma owned_give:
  assumes "owned_ok s ps" and "pc s' = (pc s)(i := p)" and "own (pc s i) = Some t" and "own p = None"
    and "set (0 # ps) \<subseteq> set (0 # ps')" and "set (0 # ps') \<subseteq> insert t (set (0 # ps))"
    and "dom (cells (mem s')) = set (0 # ps') \<union> (dom (cells (mem s)) - {t})"
  shows "owned_ok s' ps'"
proof -
  have one: "j \<noteq> i \<Longrightarrow> own (pc s j) \<noteq> Some t" for j using assms(1,3) unfolding owned_ok_def by blast
  have eq: "(own (pc s' j) = Some a) = (own (pc s j) = Some a \<and> a \<noteq> t)" for j a
    using assms(3,4) one [of j] by (cases "j = i") (auto simp: assms(2))
  have "dom (cells (mem s)) = set (0 # ps) \<union> {a. \<exists>j. own (pc s j) = Some a}" using assms(1) by (simp only: owned_ok_def)
  moreover have "{a. \<exists>j. own (pc s' j) = Some a} = {a. \<exists>j. own (pc s j) = Some a} - {t}" unfolding eq by auto
  ultimately have "dom (cells (mem s')) = set (0 # ps') \<union> {a. \<exists>j. own (pc s' j) = Some a}"
    using assms(5,7) by (simp only:) blast
  then show ?thesis using assms(1,6) unfolding owned_ok_def eq by blast
qed

text \<open>A thread in the critical section that changes the list, and leaves the nodes of the others alone.\<close>

lemma list_step:
  assumes "conc_ok prog s ps" and "critical (pc s i)" and "critical p" and "pc s' = (pc s)(i := p)"
    and "tone_mutex s' = tone_mutex s" and "todo s' = todo s" and "results s' = results s"
    and "hist s' = hist s @ map (Pair i) es" and "effected p = effected (pc s i) @ es"
    and "map fst es @ pending p = pending (pc s i)"
    and "list_ok (mem s') ps'" and "owned_ok s' ps'" and "pc_ok (cells (mem s')) ps' p"
    and "\<And>j a. j \<noteq> i \<Longrightarrow> own (pc s j) = Some a \<Longrightarrow> cells (mem s') a = cells (mem s) a"
    and "replay (hist s') (\<lambda>_. []) = Some (per_conn (map (event_at (cells (mem s'))) ps'))"
  shows "conc_ok prog s' ps'"
proof -
  note ok = conc_okD [OF assms(1)]
  have "mutex_ok s'" using mutex_same [OF ok(1) assms(5,4)] assms(2,3) by simp
  moreover have "progs_ok prog s'" by (rule progs_same [OF ok(2) assms(4,6,7,8,9,10)])
  moreover have "pc_ok (cells (mem s')) ps' (pc s' j)" for j
    using assms(13) pc_ok_others [OF assms(1,2) _ assms(14), where ps' = ps'] by (cases "j = i") (simp_all add: assms(4))
  ultimately show ?thesis using assms(11,12,15) unfolding conc_ok_def by blast
qed

lemma event_at_link: "h a = Some n \<Longrightarrow> event_at (h(a \<mapsto> n\<lparr>next_node := z\<rparr>)) = event_at h"
  by (auto simp: event_at_def)

lemma base_link: "h a = Some n \<Longrightarrow> conn_id (the ((h(a \<mapsto> n\<lparr>next_node := z\<rparr>)) b)) = conn_id (the (h b))"
  by simp

lemma list_link:
  assumes "list_ok m ps" and "cells m t = Some nw" and "next_node nw = None" and "t \<notin> set (0 # ps)"
    and "cells m (last (0 # ps)) = Some n"
  shows "list_ok (m\<lparr>cells := (cells m)(last (0 # ps) \<mapsto> n\<lparr>next_node := Some t\<rparr>)\<rparr>) (ps @ [t])"
proof -
  have l: "links (cells m) 0 ps" "distinct (0 # ps)" using assms(1) by (simp_all add: list_ok_def)
  have "links ((cells m)(t \<mapsto> nw, last (0 # ps) \<mapsto> n\<lparr>next_node := Some t\<rparr>)) 0 (ps @ [t])"
    by (rule links_snoc [OF l assms(4,5,3)])
  then have "links ((cells m)(last (0 # ps) \<mapsto> n\<lparr>next_node := Some t\<rparr>)) 0 (ps @ [t])"
    using assms(2) by (simp add: fun_upd_idem)
  then show ?thesis using assms(1,4,5) base_link [of "cells m" "last (0 # ps)" n "Some t" 0]
    unfolding list_ok_def by (auto simp del: fun_upd_apply)
qed

lemma list_unlink:
  assumes "list_ok m (zs @ t # ys)" and "cells m t = Some n" and "cells m (last (0 # zs)) = Some q"
  shows "list_ok (m\<lparr>cells := (cells m)(last (0 # zs) \<mapsto> q\<lparr>next_node := next_node n\<rparr>)\<rparr>) (zs @ ys)"
proof -
  let ?h = "(cells m)(last (0 # zs) \<mapsto> q\<lparr>next_node := next_node n\<rparr>)"
  have l: "links (cells m) 0 (zs @ t # ys)" "distinct (0 # zs @ t # ys)" using assms(1) by (simp_all add: list_ok_def)
  have "links (?h(t := None)) 0 (zs @ ys)" by (rule links_remove [OF l assms(3,2)])
  then have "links ?h 0 (zs @ ys)" by (rule links_frame) (use l(2) in auto)
  then show ?thesis using assms(1,3) l(2) base_link [of "cells m" "last (0 # zs)" q "next_node n" 0]
    unfolding list_ok_def by (auto simp del: fun_upd_apply)
qed

lemma enq_fail_ok:
  assumes "conc_ok prog s ps" and "pc s i = Enq_Start c x"
  shows "conc_ok prog (return_op i (Queue c x) (- 1) (takes_effect i (Queue c x) (- 1)
      (s\<lparr>mem := (mem s)\<lparr>brk := Suc (brk (mem s))\<rparr>\<rparr>))) ps" (is "conc_ok prog ?s ps")
proof -
  note ok = conc_okD [OF assms(1)]
  have "mutex_ok ?s" by (rule mutex_same [OF ok(1), of _ i Idle]) (simp_all add: assms(2) move_defs)
  moreover have "progs_ok prog ?s" using ok(2) progs_okD [OF ok(2), of i] assms(2) by (auto simp: progs_ok_def move_defs)
  moreover have "replay (hist ?s) (\<lambda>_. []) = replay (hist s) (\<lambda>_. [])"
    using ok(6) by (simp add: replay_append move_defs)
  ultimately show ?thesis using assms by (intro local_step [of prog s ps ?s i Idle]) (simp_all add: move_defs)
qed

lemma enq_alloc_ok:
  assumes "conc_ok prog s ps" and "pc s i = Enq_Start c x"
  shows "conc_ok prog (enq_alloc i c x s) ps"
proof (cases "tone_alloc_ok (mem s) (brk (mem s))")
  case False
  then show ?thesis using enq_fail_ok [OF assms] by (simp add: enq_alloc_def)
next
  case True
  let ?h = "cells (mem s)" and ?t = "brk (mem s)"
  let ?h' = "?h(?t \<mapsto> \<lparr>conn_id = c, tone = x, next_node = None\<rparr>)"
  define s' where "s' = enq_alloc i c x s"
  have s': "mem s' = (mem s)\<lparr>brk := Suc ?t, cells := ?h'\<rparr>" "pc s' = (pc s)(i := Enq_Lock c x ?t)"
    "tone_mutex s' = tone_mutex s" "todo s' = todo s" "results s' = results s" "hist s' = hist s"
    using True by (simp_all add: s'_def enq_alloc_def Let_def move_defs)
  note ok = conc_okD [OF assms(1)]
  have t: "?t \<notin> dom ?h" using ok(3) by (auto simp: list_ok_def)
  have dom: "dom ?h = set (0 # ps) \<union> {t. \<exists>i. own (pc s i) = Some t}" using ok(4) by (simp add: owned_ok_def)
  then have sub: "set (0 # ps) \<subseteq> dom ?h" by blast
  have same: "?h' a = ?h a" if "a \<in> dom ?h" for a using that t by auto
  have "mutex_ok s'" by (rule mutex_same [OF ok(1) s'(3,2)]) (simp add: assms(2))
  moreover have "progs_ok prog s'"
    by (rule progs_same [OF ok(2) s'(2,4,5), of "[]"]) (simp_all add: assms(2) s')
  moreover have "links ?h' 0 ps"
    by (rule links_frame [of ?h]) (use ok(3) same sub in \<open>simp add: list_ok_def\<close>, use same sub in blast)
  then have "list_ok (mem s') ps" using ok(3) t sub by (auto simp: list_ok_def s' less_Suc_eq)
  moreover have "owned_ok s' ps"
    by (rule owned_take [OF ok(4) s'(2)]) (use assms(2) t dom sub in \<open>auto simp: s'(1)\<close>)
  moreover have "pc_ok ?h' ps (pc s j)" for j by (rule pc_ok_extend [OF ok(5) same sub])
  then have "pc_ok (cells (mem s')) ps (pc s' j)" for j by (cases "j = i") (simp_all add: s')
  moreover have "event_at ?h' a = event_at ?h a" if "a \<in> set ps" for a
  proof -
    have "a \<in> dom ?h" using sub that by auto
    then show ?thesis by (simp only: event_at_def same)
  qed
  then have "map (event_at (cells (mem s'))) ps = map (event_at ?h) ps" by (simp add: s'(1))
  then have "replay (hist s') (\<lambda>_. []) = Some (per_conn (map (event_at (cells (mem s'))) ps))"
    by (simp only: s'(6) ok(6))
  ultimately show ?thesis unfolding conc_ok_def s'_def [symmetric] by blast
qed

lemma enq_link_ok:
  assumes "conc_ok prog s ps" and "pc s i = Enq_Walk c x t tmp" and "cells (mem s) tmp = Some n" and "next_node n = None"
  shows "conc_ok prog (goto i (Enq_Unlock c x) (takes_effect i (Queue c x) 0
      (set_cells ((cells (mem s))(tmp \<mapsto> n\<lparr>next_node := Some t\<rparr>)) s))) (ps @ [t])"
    (is "conc_ok prog ?s _")
proof -
  let ?h = "cells (mem s)"
  let ?h' = "?h(tmp \<mapsto> n\<lparr>next_node := Some t\<rparr>)"
  note ok = conc_okD [OF assms(1)]
  have s': "pc ?s = (pc s)(i := Enq_Unlock c x)" "mem ?s = (mem s)\<lparr>cells := ?h'\<rparr>"
    "hist ?s = hist s @ [(i, Queue c x, 0)]" by (simp_all add: move_defs)
  have node: "?h t = Some \<lparr>conn_id = c, tone = x, next_node = None\<rparr>" and "tmp \<in> set (0 # ps)"
    using ok(5) [of i] assms(2) by simp_all
  then obtain xs ys where sp: "0 # ps = xs @ tmp # ys" by (auto dest: split_list simp del: set_simps)
  from list_node [OF ok(3) this] assms(3,4) have "ys = []" by (cases ys) auto
  then have tmp: "tmp = last (0 # ps)" unfolding sp by simp
  have t: "t \<notin> set (0 # ps)" using owned(1) [OF assms(1), of i t] assms(2) by simp
  have "list_ok ((mem s)\<lparr>cells := ?h'\<rparr>) (ps @ [t])"
    unfolding tmp by (rule list_link [OF ok(3) node _ t]) (use assms(3) tmp in simp_all)
  then have list: "list_ok (mem ?s) (ps @ [t])" by (simp only: s'(2))
  have "dom ?h' = set (0 # ps @ [t]) \<union> (dom ?h - {t})"
  proof -
    have "dom ?h' = dom ?h" using assms(3) by auto
    moreover have "set (0 # ps) \<subseteq> dom ?h" using ok(4) unfolding owned_ok_def by blast
    ultimately show ?thesis using node by auto
  qed
  then have owns: "owned_ok ?s (ps @ [t])"
    by (intro owned_give [OF ok(4) s'(1)]) (use assms(2) in \<open>auto simp: s'(2)\<close>)
  have "event_at ?h t = (c, x)" using node by (simp add: event_at_def)
  then have "replay (hist ?s) (\<lambda>_. []) = Some (per_conn (map (event_at (cells (mem ?s))) (ps @ [t])))"
    using ok(6) by (simp add: s' replay_append event_at_link [of ?h tmp n, OF assms(3)] per_conn_add del: fun_upd_apply)
  then show ?thesis
  proof (intro list_step [OF assms(1) _ _ s'(1) _ _ _ _ _ _ list owns, of "[(Queue c x, 0)]"])
    show "cells (mem ?s) a = ?h a" if "own (pc s j) = Some a" for j a
      using owned(1) [OF assms(1) that] \<open>tmp \<in> set (0 # ps)\<close> by (auto simp: s'(2))
  qed (simp_all add: assms(2) move_defs)
qed

lemma per_conn_split:
  assumes "\<forall>e \<in> set es. fst e \<noteq> c"
  shows "per_conn (es @ (c, x) # es') = (per_conn (es @ es'))(c := x # per_conn (es @ es') c)"
proof -
  have "filter (\<lambda>e. fst e = c) es = []" using assms by (auto simp: filter_empty_conv)
  then show ?thesis by (auto simp: per_conn_def fun_eq_iff)
qed

lemma deq_unlink_ok:
  assumes "conc_ok prog s ps" and "pc s i = Deq_Walk c p t" and "cells (mem s) t = Some n" and "conn_id n = c"
    and "cells (mem s) p = Some q" and "c \<noteq> - 1"
  shows "\<exists>ps'. conc_ok prog (goto i (Deq_Free c t (tone n)) (takes_effect i (Dequeue c) (tone n)
      (set_cells ((cells (mem s))(p \<mapsto> q\<lparr>next_node := next_node n\<rparr>)) s))) ps'"
    (is "\<exists>ps'. conc_ok prog ?s ps'")
proof -
  let ?h = "cells (mem s)"
  let ?h' = "?h(p \<mapsto> q\<lparr>next_node := next_node n\<rparr>)"
  note ok = conc_okD [OF assms(1)]
  have s': "pc ?s = (pc s)(i := Deq_Free c t (tone n))" "mem ?s = (mem s)\<lparr>cells := ?h'\<rparr>"
    "hist ?s = hist s @ [(i, Dequeue c, tone n)]" "cells (mem ?s) = ?h'" by (simp_all add: move_defs)
  have l: "distinct (0 # ps)" "conn_id (the (?h 0)) = - 1" using ok(3) by (simp_all add: list_ok_def)
  obtain xs ys where sp: "0 # ps = xs @ t # ys" "p = last (0 # xs)" and xs: "\<forall>b \<in> set xs. conn_id (the (?h b)) \<noteq> c"
    using ok(5) [of i] assms(2) by auto
  have "t \<noteq> 0" using assms(3,4,6) l(2) by (cases "t = 0") auto
  then obtain zs where zs: "xs = 0 # zs" "ps = zs @ t # ys" using sp(1) by (cases xs) auto
  let ?ps = "zs @ ys"
  have p: "p = last (0 # zs)" using sp(2) zs(1) by simp
  have pin: "p \<in> set (0 # zs)" unfolding p by (rule last_in_set) simp
  have tn: "t \<notin> set (0 # ?ps)" using l(1) zs(2) by auto
  have "list_ok ((mem s)\<lparr>cells := ?h'\<rparr>) ?ps"
    unfolding p by (rule list_unlink [OF _ assms(3)]) (use ok(3) zs(2) assms(5) p in simp_all)
  then have list: "list_ok (mem ?s) ?ps" by (simp only: s'(2))
  have free: "own (pc s j) \<noteq> Some t" for j using owned(1) [OF assms(1), of j t] zs(2) by auto
  have owns: "owned_ok ?s ?ps"
    by (rule owned_take [OF ok(4) s'(1) _ _ free]) (use assms(2,3,5) tn zs(2) in \<open>auto simp: s'(2)\<close>)
  have e: "event_at ?h t = (c, tone n)" using assms(3,4) by (simp add: event_at_def)
  have "\<forall>e \<in> set (map (event_at ?h) zs). fst e \<noteq> c" using xs zs(1) by (auto simp: event_at_def)
  then have "per_conn (map (event_at ?h) ps) = (per_conn (map (event_at ?h) ?ps))
      (c := tone n # per_conn (map (event_at ?h) ?ps) c)"
    unfolding zs(2) map_append list.map e by (rule per_conn_split)
  then have "replay (hist ?s) (\<lambda>_. []) = Some (per_conn (map (event_at (cells (mem ?s))) ?ps))"
    using ok(6) by (simp only: s'(3,4) replay_append event_at_link [of ?h p q, OF assms(5)]) simp
  then have "conc_ok prog ?s ?ps"
  proof (intro list_step [OF assms(1) _ _ s'(1) _ _ _ _ _ _ list owns, of "[(Dequeue c, tone n)]"])
    show "cells (mem ?s) a = ?h a" if "own (pc s j) = Some a" for j a
      using owned(1) [OF assms(1) that] pin zs(2) by (auto simp: s'(2))
  qed (simp_all add: assms(2) move_defs)
  then show ?thesis by blast
qed

lemma deq_free_ok:
  assumes "conc_ok prog s ps" and "pc s i = Deq_Free c t x"
  shows "conc_ok prog (deq_free i c t x s) ps"
proof -
  let ?h = "cells (mem s)"
  note ok = conc_okD [OF assms(1)]
  note t = owned [OF assms(1), of i t, simplified assms(2) own.simps, OF refl]
  have s: "deq_free i c t x s = goto i (Deq_Unlock c x) (set_cells (?h(t := None)) s)" (is "_ = ?s")
    using t(2,3) by (auto simp: deq_free_def)
  have s': "pc ?s = (pc s)(i := Deq_Unlock c x)" "mem ?s = (mem s)\<lparr>cells := ?h(t := None)\<rparr>"
    "hist ?s = hist s" "cells (mem ?s) = ?h(t := None)" by (simp_all add: move_defs)
  have same: "(?h(t := None)) a = ?h a" if "a \<in> set (0 # ps)" for a using that t(1) by auto
  have "links (?h(t := None)) 0 ps" by (rule links_frame [of ?h]) (use ok(3) in \<open>simp add: list_ok_def\<close>, rule same)
  then have list: "list_ok (mem ?s) ps" using ok(3) t(2) unfolding list_ok_def s' by simp
  have "set (0 # ps) \<subseteq> dom ?h" using ok(4) unfolding owned_ok_def by blast
  then have owns: "owned_ok ?s ps" by (intro owned_give [OF ok(4) s'(1)]) (use assms(2) t(1) in \<open>auto simp: s'(2)\<close>)
  have "map (event_at (?h(t := None))) ps = map (event_at ?h) ps"
    by (rule map_cong [OF refl]) (use same in \<open>simp add: event_at_def del: fun_upd_apply\<close>)
  then have "replay (hist ?s) (\<lambda>_. []) = Some (per_conn (map (event_at (cells (mem ?s))) ps))" using ok(6) by (simp only: s'(3,4))
  then show ?thesis unfolding s
  proof (intro list_step [OF assms(1) _ _ s'(1) _ _ _ _ _ _ list owns, of "[]"])
    show "cells (mem ?s) a = ?h a" if "j \<noteq> i" "own (pc s j) = Some a" for j a
      using t(4) [of j] that by (auto simp: s'(2))
  qed (simp_all add: assms(2) move_defs)
qed

subsection \<open>All steps\<close>

lemma pending_in_prog: "progs_ok prog s \<Longrightarrow> set (pending (pc s i)) \<subseteq> set (prog i)"
  using progs_okD [of prog s i] by (metis Un_iff set_append subsetI)

lemma enq_walk_ok:
  assumes "conc_ok prog s ps" and "pc s i = Enq_Walk c x t tmp"
  shows "\<exists>ps'. conc_ok prog (enq_walk i c x t tmp s) ps'"
proof -
  note ok = conc_okD [OF assms(1)]
  have "tmp \<in> set (0 # ps)" using ok(5) [of i] assms(2) by simp
  then obtain n where n: "cells (mem s) tmp = Some n" using list_defined [OF ok(3)] by blast
  show ?thesis
    using n enq_move_ok [OF assms n] enq_link_ok [OF assms n] by (cases "next_node n") (auto simp: enq_walk_def)
qed

lemma deq_walk_ok:
  assumes "conc_ok prog s ps" and "pc s i = Deq_Walk c p t" and "c \<noteq> - 1"
  shows "\<exists>ps'. conc_ok prog (deq_walk i c p t s) ps'"
proof -
  note ok = conc_okD [OF assms(1)]
  obtain xs ys where sp: "0 # ps = xs @ t # ys" "p = last (0 # xs)" using ok(5) [of i] assms(2) by auto
  obtain n where n: "cells (mem s) t = Some n" using list_node [OF ok(3) sp(1)] by blast
  have "p \<in> set (0 # ps)" using sp by (cases xs) (auto split: if_splits)
  then obtain q where q: "cells (mem s) p = Some q" using list_defined [OF ok(3)] by blast
  show ?thesis
  proof (cases "conn_id n = c")
    case True
    then show ?thesis using deq_unlink_ok [OF assms(1,2) n True q assms(3)] n q by (simp add: deq_walk_def)
  next
    case False
    then show ?thesis
      using n deq_move_ok [OF assms(1,2) n False] deq_missing_ok [OF assms(1,2) n False]
      by (cases "next_node n") (auto simp: deq_walk_def)
  qed
qed

lemma thread_step_ok:
  assumes "conc_ok prog s ps" and "thread_step i s = Some s'" and "Dequeue (- 1) \<notin> set (prog i)"
  shows "\<exists>ps'. conc_ok prog s' ps'"
proof (cases "pc s i")
  case Idle
  then show ?thesis using begin_op_ok [OF assms(1) Idle] assms(2) by (auto simp: thread_step_def)
next
  case (Enq_Start c x)
  then show ?thesis using enq_alloc_ok [OF assms(1)] assms(2) by (auto simp: thread_step_def)
next
  case (Enq_Lock c x t)
  then have "pc_ok (cells (mem s)) ps (Enq_Walk c x t 0)" using conc_okD(5) [OF assms(1), of i] by simp
  then show ?thesis using lock_ok [OF assms(1), of i "Enq_Walk c x t 0" s'] Enq_Lock assms(2) by (auto simp: thread_step_def)
next
  case (Enq_Walk c x t tmp)
  then show ?thesis using enq_walk_ok [OF assms(1)] assms(2) by (auto simp: thread_step_def)
next
  case (Enq_Unlock c x)
  then show ?thesis using return_ok [OF assms(1), of i "Queue c x" 0] assms(2) by (auto simp: thread_step_def)
next
  case (Deq_Lock c)
  have "pc_ok (cells (mem s)) ps (Deq_Walk c 0 0)" unfolding pc_ok.simps by (intro exI [of _ "[]"] exI [of _ ps]) simp
  then show ?thesis using lock_ok [OF assms(1), of i "Deq_Walk c 0 0" s'] Deq_Lock assms(2) by (auto simp: thread_step_def)
next
  case (Deq_Walk c p t)
  then have "c \<noteq> - 1" using pending_in_prog [OF conc_okD(2) [OF assms(1)], of i] assms(3) by auto
  then show ?thesis using deq_walk_ok [OF assms(1) Deq_Walk] Deq_Walk assms(2) by (auto simp: thread_step_def)
next
  case (Deq_Free c t x)
  then show ?thesis using deq_free_ok [OF assms(1) Deq_Free] assms(2) by (auto simp: thread_step_def)
next
  case (Deq_Unlock c x)
  then show ?thesis using return_ok [OF assms(1), of i "Dequeue c" x] assms(2) by (auto simp: thread_step_def)
next
  case (Crashed e)
  then show ?thesis using assms(2) by (simp add: thread_step_def)
qed

lemma conc_init_ok: "conc_ok prog (conc_init ok prog) []"
  by (auto simp: conc_ok_def conc_init_def mutex_ok_def progs_ok_def history_of_def list_ok_def owned_ok_def
      tone_init_def base_tone_event_def per_conn_def fun_eq_iff)

lemma conc_reachable_ok:
  assumes "tone_step\<^sup>*\<^sup>* (conc_init ok prog) s" and "\<And>i. Dequeue (- 1) \<notin> set (prog i)"
  shows "\<exists>ps. conc_ok prog s ps"
  using assms(1)
proof induction
  case base
  show ?case using conc_init_ok by blast
next
  case (step s s')
  then show ?case using thread_step_ok assms(2) by (auto elim!: tone_step.cases)
qed

text \<open>Some thread can go on unless all are done: a thread in the critical section is never blocked.\<close>

lemma conc_progress:
  assumes "conc_ok prog s ps" and "pc s i \<noteq> Idle \<or> todo s i \<noteq> []"
  shows "\<exists>s'. tone_step s s'"
proof (cases "tone_mutex s")
  case None
  have "pc s i \<noteq> Crashed e" for e using conc_okD(5) [OF assms(1), of i] by (cases "pc s i") auto
  then have "thread_step i s \<noteq> None"
    using None assms(2) by (auto simp: thread_step_def begin_op_def lock_def split: tone_pc.splits list.splits)
  then show ?thesis using thread by blast
next
  case (Some j)
  then have "critical (pc s j)" using conc_okD(1) [OF assms(1)] by (simp add: mutex_ok_def)
  then have "thread_step j s \<noteq> None" by (cases "pc s j") (simp_all add: thread_step_def)
  then show ?thesis using thread by blast
qed

subsection \<open>Properties\<close>

text \<open>C12: However the steps of the threads interleave, the history of effects is that of one first-in first-out
  queue per connection run sequentially: every result in it is the result of the queue at that point (or -1
  for an event that could not be allocated). Each thread's operations appear in the order of its program,
  with the results it got. When no operation is under way, the list holds what the history left, in
  order, and every other node has been freed.\<close>

theorem tone_threads_linearizable:
  assumes "tone_step\<^sup>*\<^sup>* (conc_init ok prog) s" and "\<And>i. Dequeue (- 1) \<notin> set (prog i)"
  shows "\<exists>q. replay (hist s) (\<lambda>_. []) = Some q \<and>
    (\<forall>i. prefix (results s i) (history_of i (hist s)) \<and> prefix (map fst (history_of i (hist s))) (prog i)) \<and>
    ((\<forall>i. pc s i = Idle) \<longrightarrow>
       (\<exists>ps. links (cells (mem s)) 0 ps \<and> dom (cells (mem s)) = set (0 # ps) \<and>
          q = per_conn (map (event_at (cells (mem s))) ps) \<and> (\<forall>i. results s i = history_of i (hist s))))"
proof -
  obtain ps where ok: "conc_ok prog s ps" using conc_reachable_ok [OF assms] by blast
  note c = conc_okD [OF ok]
  have "prefix (results s i) (history_of i (hist s)) \<and> prefix (map fst (history_of i (hist s))) (prog i)" for i
    using progs_okD [OF c(2), of i] by (metis append.assoc prefixI)
  moreover have "links (cells (mem s)) 0 ps" using c(3) by (simp add: list_ok_def)
  moreover have "dom (cells (mem s)) = set (0 # ps)" if "\<forall>i. pc s i = Idle" using c(4) that by (simp add: owned_ok_def)
  moreover have "results s i = history_of i (hist s)" if "\<forall>i. pc s i = Idle" for i using progs_okD [OF c(2), of i] that by simp
  ultimately show ?thesis using c(6) by blast
qed

text \<open>C13: No interleaving follows a dangling pointer or frees a node twice, at most one thread is inside the
  critical sections, and as long as a thread has something to do some thread can take a step.\<close>

theorem tone_threads_safe:
  assumes "tone_step\<^sup>*\<^sup>* (conc_init ok prog) s" and "\<And>i. Dequeue (- 1) \<notin> set (prog i)"
  shows "pc s i \<noteq> Crashed e \<and> (critical (pc s i) \<longrightarrow> critical (pc s j) \<longrightarrow> i = j) \<and>
    (pc s i \<noteq> Idle \<or> todo s i \<noteq> [] \<longrightarrow> (\<exists>s'. tone_step s s'))"
proof -
  obtain ps where ok: "conc_ok prog s ps" using conc_reachable_ok [OF assms] by blast
  have "pc s i \<noteq> Crashed e" using conc_okD(5) [OF ok, of i] by (cases "pc s i") auto
  moreover have "critical (pc s i) \<longrightarrow> critical (pc s j) \<longrightarrow> i = j"
    using conc_okD(1) [OF ok] by (simp add: mutex_ok_def)
  ultimately show ?thesis using conc_progress [OF ok] by blast
qed

subsection \<open>An instance\<close>

text \<open>A schedule: the thread of each step.\<close>

fun run_schedule :: "nat list \<Rightarrow> tone_conc \<Rightarrow> tone_conc option" where
  "run_schedule [] s = Some s"
| "run_schedule (i # is) s = (case thread_step i s of None \<Rightarrow> None | Some s' \<Rightarrow> run_schedule is s')"

lemma run_schedule_reaches: "run_schedule is s = Some s' \<Longrightarrow> tone_step\<^sup>*\<^sup>* s s'"
proof (induction "is" arbitrary: s)
  case (Cons i "is")
  then obtain u where "thread_step i s = Some u" "run_schedule is u = Some s'" by (auto split: option.splits)
  then show ?case using Cons.IH [of u] tone_step.thread converse_rtranclp_into_rtranclp by metis
qed simp

definition demo_prog :: "nat \<Rightarrow> tone_op list" where
  "demo_prog i = (if i = 0 then [Queue 3 7, Dequeue 5] else if i = 1 then [Queue 5 9, Dequeue 3] else [])"

lemma demo_prog_ok: "Dequeue (- 1) \<notin> set (demo_prog i)"
  by (simp add: demo_prog_def)

text \<open>Thread 1 allocates before thread 0 has linked its node, and waits for the mutex.\<close>

definition demo_schedule :: "nat list" where
  "demo_schedule = [0, 1, 0, 1, 0, 0, 0, 1, 1, 1, 1, 1, 1, 1, 1, 1, 1]"

lemmas run_simps = demo_schedule_def demo_prog_def conc_init_def tone_init_def base_tone_event_def thread_step_def
  begin_op_def enq_alloc_def enq_walk_def deq_walk_def deq_free_def lock_def move_defs Let_def

lemma demo_run: "\<exists>s. run_schedule demo_schedule (conc_init (\<lambda>_. True) demo_prog) = Some s \<and>
    results s 1 = [(Queue 5 9, 0), (Dequeue 3, 7)] \<and> todo s 0 \<noteq> []"
  by (simp add: run_simps)

theorem tone_threads_linearizable_witness:
  "\<exists>s q. run_schedule demo_schedule (conc_init (\<lambda>_. True) demo_prog) = Some s \<and>
     results s 1 = [(Queue 5 9, 0), (Dequeue 3, 7)] \<and> replay (hist s) (\<lambda>_. []) = Some q \<and>
     prefix (results s 1) (history_of 1 (hist s))"
proof -
  obtain s where s: "run_schedule demo_schedule (conc_init (\<lambda>_. True) demo_prog) = Some s"
      "results s 1 = [(Queue 5 9, 0), (Dequeue 3, 7)]" using demo_run by blast
  with tone_threads_linearizable [OF run_schedule_reaches [OF s(1)] demo_prog_ok] show ?thesis by blast
qed

theorem tone_threads_safe_witness:
  "\<exists>s. run_schedule demo_schedule (conc_init (\<lambda>_. True) demo_prog) = Some s \<and> pc s 1 \<noteq> Crashed Null_Deref \<and>
     (\<exists>s'. tone_step s s')"
proof -
  obtain s where s: "run_schedule demo_schedule (conc_init (\<lambda>_. True) demo_prog) = Some s" "todo s 0 \<noteq> []"
    using demo_run by blast
  with tone_threads_safe [OF run_schedule_reaches [OF s(1)] demo_prog_ok] show ?thesis by blast
qed

end
