(* ===== verification/Tone_Finish.thy ===== *)
theory Tone_Finish
  imports Tone_Threads
begin

text \<open>
  The threads of Tone_Threads finish: finitely many threads with finite programs take finitely many steps,
  in any order, and a run that cannot go on has completed every operation. The measure counts the phases
  that are left of the operations, and the nodes that are left of the walks under way.
\<close>

fun phase :: "tone_pc \<Rightarrow> nat" where
  "phase Idle = 0" | "phase (Enq_Start c x) = 5" | "phase (Enq_Lock c x t) = 4" | "phase (Enq_Walk c x t tmp) = 3"
| "phase (Enq_Unlock c x) = 1" | "phase (Deq_Lock c) = 4" | "phase (Deq_Walk c p t) = 3"
| "phase (Deq_Free c t x) = 2" | "phase (Deq_Unlock c x) = 1" | "phase (Crashed e) = 0"

definition weight :: "tone_conc \<Rightarrow> nat \<Rightarrow> nat" where
  "weight s i = 6 * length (todo s i) + phase (pc s i)"

fun place :: "tone_pc \<Rightarrow> nat option" where
  "place (Enq_Walk c x t tmp) = Some tmp" | "place (Deq_Walk c p t) = Some t" | "place p = None"

definition nodes_left :: "(nat \<Rightarrow> tone_event option) \<Rightarrow> nat \<Rightarrow> nat" where
  "nodes_left h a = length (THE ps. links h a ps)"

definition walk_left :: "tone_conc \<Rightarrow> nat \<Rightarrow> nat" where
  "walk_left s i = (case place (pc s i) of None \<Rightarrow> 0 | Some a \<Rightarrow> nodes_left (cells (mem s)) a)"

lemma links_unique: "links h a ps \<Longrightarrow> links h a qs \<Longrightarrow> ps = qs"
proof (induction ps arbitrary: a qs)
  case Nil
  then show ?case by (cases qs) auto
next
  case (Cons b bs)
  then show ?case by (cases qs) auto
qed

lemma nodes_left_links: "links h a ps \<Longrightarrow> nodes_left h a = length ps"
  using links_unique by (simp add: nodes_left_def the_equality)

lemma links_suffix: "links h a ps \<Longrightarrow> a # ps = xs @ t # ys \<Longrightarrow> links h t ys"
proof (induction xs arbitrary: a ps)
  case (Cons z zs)
  then obtain b bs where "ps = b # bs" by (cases ps) auto
  with Cons show ?case by auto
qed simp

lemma nodes_left_next:
  assumes "list_ok m ps" and "a \<in> set (0 # ps)" and "cells m a = Some n" and "next_node n = Some b"
  shows "nodes_left (cells m) a = Suc (nodes_left (cells m) b)"
proof -
  obtain xs ys where sp: "0 # ps = xs @ a # ys" using assms(2) by (auto dest: split_list simp del: set_simps)
  have l: "links (cells m) a ys" using links_suffix [OF _ sp] assms(1) by (simp add: list_ok_def)
  then obtain bs where "ys = b # bs" "links (cells m) b bs" using assms(3,4) by (cases ys) auto
  then show ?thesis using nodes_left_links [OF l] nodes_left_links [of "cells m" b bs] by simp
qed

subsection \<open>Every step counts down\<close>

lemma step_others:
  assumes "thread_step i s = Some s'" and "j \<noteq> i"
  shows "pc s' j = pc s j" "todo s' j = todo s j"
  using assms
  by (auto simp: thread_step_def begin_op_def lock_def enq_alloc_def enq_walk_def deq_walk_def deq_free_def Let_def move_defs
      split: tone_pc.splits list.splits option.splits if_splits)

definition walks :: "nat \<Rightarrow> tone_conc \<Rightarrow> tone_conc \<Rightarrow> bool" where
  "walks i s s' \<longleftrightarrow> (\<exists>a n b. place (pc s i) = Some a \<and> cells (mem s) a = Some n \<and> next_node n = Some b \<and>
     place (pc s' i) = Some b \<and> phase (pc s' i) = phase (pc s i) \<and> todo s' = todo s \<and> mem s' = mem s)"

lemma step_weight:
  assumes "thread_step i s = Some s'"
  shows "weight s' i < weight s i \<or> walks i s s'"
  using assms
  by (auto simp: weight_def walks_def thread_step_def begin_op_def lock_def enq_alloc_def enq_walk_def deq_walk_def deq_free_def
      Let_def move_defs split: tone_pc.splits tone_op.splits list.splits option.splits if_splits)

lemma place_in_list:
  assumes "conc_ok prog s ps" and "place (pc s i) = Some a"
  shows "a \<in> set (0 # ps)"
proof (cases "pc s i")
  case (Deq_Walk c p t)
  then obtain xs ys where "0 # ps = xs @ a # ys" using conc_okD(5) [OF assms(1), of i] assms(2) by auto
  then show ?thesis by (metis in_set_conv_decomp)
qed (use assms(2) conc_okD(5) [OF assms(1), of i] in simp_all)

lemma walks_left:
  assumes "conc_ok prog s ps" and "walks i s s'"
  shows "weight s' i = weight s i" and "walk_left s' i < walk_left s i"
  using assms nodes_left_next [OF conc_okD(3) [OF assms(1)] place_in_list [OF assms(1)]]
  by (auto simp: walks_def weight_def walk_left_def)

definition total :: "nat \<Rightarrow> (nat \<Rightarrow> nat) \<Rightarrow> nat" where
  "total N f = (\<Sum>i<N. f i)"

lemma total_less: "i < N \<Longrightarrow> (f i :: nat) < g i \<Longrightarrow> (\<And>j. j \<noteq> i \<Longrightarrow> f j = g j) \<Longrightarrow> total N f < total N g"
  unfolding total_def by (rule sum_strict_mono_ex1) (auto intro: order.strict_implies_order, metis order_refl order.strict_implies_order)

definition steps_left :: "nat \<Rightarrow> tone_conc \<Rightarrow> nat \<times> nat" where
  "steps_left N s = (total N (weight s), total N (walk_left s))"

definition countdown :: "((nat \<times> nat) \<times> nat \<times> nat) set" where
  "countdown = less_than <*lex*> less_than"

lemma step_counts_down:
  assumes "conc_ok prog s ps" and "thread_step i s = Some s'" and "i < N"
  shows "(steps_left N s', steps_left N s) \<in> countdown"
proof -
  note others = step_others [OF assms(2)]
  have w: "weight s' j = weight s j" if "j \<noteq> i" for j using others [OF that] by (simp add: weight_def)
  show ?thesis
  proof (cases "walks i s s'")
    case True
    have "weight s' = weight s" using w walks_left(1) [OF assms(1) True] by (metis ext)
    moreover have m: "mem s' = mem s" using True by (auto simp: walks_def)
    have "walk_left s' j = walk_left s j" if "j \<noteq> i" for j
      by (simp only: walk_left_def others(1) [OF that] m)
    then have "total N (walk_left s') < total N (walk_left s)"
      using total_less [OF assms(3), of "walk_left s'" "walk_left s"] walks_left(2) [OF assms(1) True] by blast
    ultimately show ?thesis by (simp add: steps_left_def countdown_def)
  next
    case False
    then have "total N (weight s') < total N (weight s)"
      using total_less [OF assms(3), of "weight s'" "weight s"] step_weight [OF assms(2)] w by blast
    then show ?thesis by (simp add: steps_left_def countdown_def)
  qed
qed

lemma idle_without_program:
  assumes "conc_ok prog s ps" and "prog i = []"
  shows "thread_step i s = None"
proof -
  have p: "pending (pc s i) = [] \<and> effected (pc s i) = [] \<and> todo s i = []"
    using progs_okD [OF conc_okD(2) [OF assms(1)], of i] assms(2) by simp
  then have "pc s i = Idle" using conc_okD(5) [OF assms(1), of i] by (cases "pc s i") auto
  then show ?thesis using p by (simp add: thread_step_def begin_op_def)
qed

text \<open>C14: However the scheduler chooses, finitely many threads with finite programs stop after finitely many steps, and a
  run that can take no further step has completed every operation of every thread: nobody waits for the mutex
  forever.\<close>

theorem tone_threads_finish:
  assumes "\<And>i. Dequeue (- 1) \<notin> set (prog i)" and "\<And>i. N \<le> i \<Longrightarrow> prog i = []"
  shows "(\<nexists>f. f 0 = conc_init ok prog \<and> (\<forall>n. tone_step (f n) (f (Suc n)))) \<and>
    (\<forall>s. tone_step\<^sup>*\<^sup>* (conc_init ok prog) s \<and> (\<nexists>s'. tone_step s s') \<longrightarrow>
      (\<forall>i. pc s i = Idle \<and> map fst (results s i) = prog i))"
proof (intro conjI notI allI impI)
  assume "\<exists>f. f 0 = conc_init ok prog \<and> (\<forall>n. tone_step (f n) (f (Suc n)))"
  then obtain f where f: "f 0 = conc_init ok prog" "\<And>n. tone_step (f n) (f (Suc n))" by blast
  have reach: "tone_step\<^sup>*\<^sup>* (conc_init ok prog) (f n)" for n
    by (induction n) (use f in \<open>auto intro: rtranclp.rtrancl_into_rtrancl\<close>)
  have "(steps_left N (f (Suc n)), steps_left N (f n)) \<in> countdown" for n
  proof -
    obtain i where i: "thread_step i (f n) = Some (f (Suc n))" using f(2) [of n] by (auto elim: tone_step.cases)
    obtain ps where ok: "conc_ok prog (f n) ps" using conc_reachable_ok [OF reach assms(1)] by blast
    have "i < N" using idle_without_program [OF ok, of i] assms(2) [of i] i by (cases "i < N") auto
    then show ?thesis by (rule step_counts_down [OF ok i])
  qed
  then have "\<exists>g. \<forall>n. (g (Suc n), g n) \<in> countdown" by (intro exI [of _ "\<lambda>n. steps_left N (f n)"]) simp
  moreover have "wf countdown" by (simp add: countdown_def wf_lex_prod)
  ultimately show False by (simp add: wf_iff_no_infinite_down_chain)
next
  fix s i
  assume s: "tone_step\<^sup>*\<^sup>* (conc_init ok prog) s \<and> (\<nexists>s'. tone_step s s')"
  then obtain ps where ok: "conc_ok prog s ps" using conc_reachable_ok [of ok prog s] assms(1) by blast
  have i: "pc s i = Idle" "todo s i = []" using conc_progress [OF ok] s by blast+
  then show "pc s i = Idle" by simp
  show "map fst (results s i) = prog i" using progs_okD [OF conc_okD(2) [OF ok], of i] i by simp
qed

theorem tone_threads_finish_witness:
  "\<nexists>f. f 0 = conc_init (\<lambda>_. True) demo_prog \<and> (\<forall>n. tone_step (f n) (f (Suc n)))"
proof -
  have "demo_prog i = []" if "2 \<le> i" for i using that by (simp add: demo_prog_def)
  then show ?thesis using tone_threads_finish [of demo_prog 2 "\<lambda>_. True", OF demo_prog_ok] by blast
qed

end
