(* ===== verification/Dsp.thy ===== *)
theory Dsp
  imports C_Library
begin

text \<open>
  The commands that src/dsp.c sends to the signal processor through the VAPI library. VAPI is not
  part of the sources, so it is a parameter: the state logs the calls made, in order, and
  \<open>answers k\<close> is what the k-th call returns (0 is SUCCESS; for an allocation any other value stands
  for a null pointer). The constants, member widths and sizes of its headers are the parameter
  \<open>hdr\<close>; an option structure is the function from the members the sources touch to their values.
\<close>

datatype conn_mode = EInactive | ETdmActive | EInbandToneDetActive

datatype vapi_fc = FC_VOIP_VCEOPT | FC_VOIP_DTMFOPT | FC_VOIP_ECHOCAN | FC_VOIP_JBOPT | FC_VOIP_DGAIN
  | FC_VOIP_SIGDET | FC_VOIP_MFDPAR | FC_VOIP_MFTUNE | FC_VOIP_PTSET | FC_SET_PASSTHRU_AUTOSWITCH

datatype vopt_field = Packet_Interval | Vadtype | Vad_Tune | G723_Rate | Cng | Pcm_To_Packet_Gain
  | Packet_To_Pcm_Gain | Ecenb | Dtmf_Voice | Dtmf_Rtp | Regeneration | Redundancy | Delay_Init | Delay_Max
  | Delay_Min | Deletion_Threshold | Pt_Index | Pt_Value | Mf_Selector | Minimum_Off_Time | Minimum_On_Time
  | Maximum_Dropout_Time | Frequency_Deviation | Negative_Twist | Positive_Twist | Snr_Threshold
  | Minimum_Level_Threshold | Param_9_Word | Sigdet_Mode | Pt_Autoswitch | Sw_Ind | Ptchng | Rfc2833 | Delay

type_synonym vopt = "vopt_field \<Rightarrow> int"

datatype vapi_const = VADTYPE_ENABLE | VADTYPE_DISABLE | G_723_RATE_HIGH | G_723_RATE_LOW | CNG_ENABLE
  | CNG_DISABLE | ECENB_ENABLE | ECENB_DISABLE | DTMF_VOICE_ENABLE | DTMF_VOICE_DISABLE | DTMF_RTP_ENABLE
  | DTMF_RTP_DISABLE | REGENERATION_ENABLE | REDUNDANCY_AAL2 | EMFCR2_FTONE char | EMFCR2_BTONE char
  | EDTMFTONE char | FAILURE_CODE

record vapi_hdr =
  api_hdr_len :: nat
  padding_size :: nat
  fit :: "vopt_field \<Rightarrow> int \<Rightarrow> int"
  konst :: "vapi_const \<Rightarrow> int"
  opt_len :: "vapi_fc \<Rightarrow> nat"

datatype vapi_call = Set_State int conn_mode | Alloc_Msg nat | Fill_Msg vapi_fc nat vopt | Set_Msg int
  | Send_Msg int | Free_Msg | Play_Tone int int | Stop_Tone int | Get_Chnl_Info int | Lock_Init int | Lock int | Unlock int

record chnl_params =
  stVoiceOpt :: vopt
  stDgain :: vopt
  stEchoCan :: vopt
  stDtmfOpt :: vopt
  stJbopt :: vopt
  stSigdet :: vopt

record dsp_state =
  answers :: "nat \<Rightarrow> int"
  calls :: "vapi_call list"
  chnl_info :: "int \<Rightarrow> chnl_params"
  rx_voice_packets :: "nat \<Rightarrow> int"

definition vapi :: "vapi_call \<Rightarrow> dsp_state \<Rightarrow> int \<times> dsp_state" where
  "vapi c d = (answers d (length (calls d)), d\<lparr>calls := calls d @ [c]\<rparr>)"

definition put :: "vapi_hdr \<Rightarrow> vopt_field \<Rightarrow> int \<Rightarrow> vopt \<Rightarrow> vopt" where
  "put hdr f x opt = opt(f := fit hdr f x)"

subsection \<open>Writing options\<close>

text \<open>The connection number is passed as a \<open>U16\<close>.\<close>

definition write_to_device :: "int \<Rightarrow> dsp_state \<Rightarrow> int \<times> dsp_state" where
  "write_to_device conn_id d =
     (let c = to_ushort conn_id;
          (s1, d1) = vapi (Set_State c EInactive) d in
      if s1 \<noteq> 0 then (- 1, d1)
      else
        let (s2, d2) = vapi (Send_Msg c) d1 in
        if s2 \<noteq> 0 then (- 1, d2)
        else
          let (s3, d3) = vapi (Set_State c ETdmActive) d2 in
          if s3 \<noteq> 0 then (- 1, d3) else (0, d3))"

definition write_opts :: "vapi_hdr \<Rightarrow> int \<Rightarrow> vapi_fc \<Rightarrow> vopt \<Rightarrow> dsp_state \<Rightarrow> int \<times> dsp_state" where
  "write_opts hdr conn_id opt_type opt d =
     (let param_size = opt_len hdr opt_type;
          (config, d1) = vapi (Alloc_Msg (api_hdr_len hdr + padding_size hdr * 2 + param_size)) d in
      if config \<noteq> 0 then (- 1, d1)
      else
        let (status, d2) = vapi (Fill_Msg opt_type (param_size div 2) opt) d1;
            (status', d3) = (if status = 0 then write_to_device conn_id d2 else (status, d2))
        in (status', snd (vapi Free_Msg d3)))"

definition write_vceopt :: "vapi_hdr \<Rightarrow> int \<Rightarrow> vopt \<Rightarrow> dsp_state \<Rightarrow> int \<times> dsp_state" where
  "write_vceopt hdr conn_id opt d = write_opts hdr conn_id FC_VOIP_VCEOPT opt d"

definition write_dtmfopt :: "vapi_hdr \<Rightarrow> int \<Rightarrow> vopt \<Rightarrow> dsp_state \<Rightarrow> int \<times> dsp_state" where
  "write_dtmfopt hdr conn_id opt d = write_opts hdr conn_id FC_VOIP_DTMFOPT opt d"

definition write_echocan_opt :: "vapi_hdr \<Rightarrow> int \<Rightarrow> vopt \<Rightarrow> dsp_state \<Rightarrow> int \<times> dsp_state" where
  "write_echocan_opt hdr conn_id opt d = write_opts hdr conn_id FC_VOIP_ECHOCAN opt d"

definition write_jb_opt :: "vapi_hdr \<Rightarrow> int \<Rightarrow> vopt \<Rightarrow> dsp_state \<Rightarrow> int \<times> dsp_state" where
  "write_jb_opt hdr conn_id opt d = write_opts hdr conn_id FC_VOIP_JBOPT opt d"

definition write_dgain :: "vapi_hdr \<Rightarrow> int \<Rightarrow> vopt \<Rightarrow> dsp_state \<Rightarrow> int \<times> dsp_state" where
  "write_dgain hdr conn_id opt d = write_opts hdr conn_id FC_VOIP_DGAIN opt d"

definition write_sigdet :: "vapi_hdr \<Rightarrow> int \<Rightarrow> vopt \<Rightarrow> dsp_state \<Rightarrow> int \<times> dsp_state" where
  "write_sigdet hdr conn_id opt d = write_opts hdr conn_id FC_VOIP_SIGDET opt d"

definition write_mfdpar :: "vapi_hdr \<Rightarrow> int \<Rightarrow> vopt \<Rightarrow> dsp_state \<Rightarrow> int \<times> dsp_state" where
  "write_mfdpar hdr conn_id opt d = write_opts hdr conn_id FC_VOIP_MFDPAR opt d"

definition write_mftune :: "vapi_hdr \<Rightarrow> int \<Rightarrow> vopt \<Rightarrow> dsp_state \<Rightarrow> int \<times> dsp_state" where
  "write_mftune hdr conn_id opt d = write_opts hdr conn_id FC_VOIP_MFTUNE opt d"

definition write_ptset :: "vapi_hdr \<Rightarrow> int \<Rightarrow> vopt \<Rightarrow> dsp_state \<Rightarrow> int \<times> dsp_state" where
  "write_ptset hdr conn_id opt d = write_opts hdr conn_id FC_VOIP_PTSET opt d"

definition write_autoswitch :: "vapi_hdr \<Rightarrow> int \<Rightarrow> vopt \<Rightarrow> dsp_state \<Rightarrow> int \<times> dsp_state" where
  "write_autoswitch hdr conn_id opt d = write_opts hdr conn_id FC_SET_PASSTHRU_AUTOSWITCH opt d"

lemmas write_defs = write_vceopt_def write_dtmfopt_def write_echocan_opt_def write_jb_opt_def write_dgain_def
  write_sigdet_def write_mfdpar_def write_mftune_def write_ptset_def write_autoswitch_def

subsection \<open>Setting the options of a channel\<close>

text \<open>
  The setters change the structure that the caller passes and send it; they return the status, the
  changed structure and the state.
\<close>

definition libamg_dsp_set_rtp_interval ::
    "vapi_hdr \<Rightarrow> int \<Rightarrow> chnl_params \<Rightarrow> int \<Rightarrow> dsp_state \<Rightarrow> int \<times> chnl_params \<times> dsp_state" where
  "libamg_dsp_set_rtp_interval hdr conn_id parms interval d =
     (let opt = put hdr Packet_Interval interval (stVoiceOpt parms);
          (r, d') = write_vceopt hdr conn_id opt d
      in (r, parms\<lparr>stVoiceOpt := opt\<rparr>, d'))"

definition vad_tune_of :: "int \<Rightarrow> int" where
  "vad_tune_of tune =
     (if tune = 5 then 1 else if tune = 10 then 2 else if tune = 20 then 3 else if tune = 30 then 4 else 0)"

definition libamg_dsp_set_vad ::
    "vapi_hdr \<Rightarrow> int \<Rightarrow> chnl_params \<Rightarrow> int \<Rightarrow> int \<Rightarrow> dsp_state \<Rightarrow> int \<times> chnl_params \<times> dsp_state" where
  "libamg_dsp_set_vad hdr conn_id parms enable tune d =
     (let vad_tune = vad_tune_of tune in
      if vad_tune < 0 \<or> vad_tune > 4 then (- 1, parms, d)
      else
        let opt = put hdr Vadtype (konst hdr (if enable \<noteq> 0 then VADTYPE_ENABLE else VADTYPE_DISABLE))
                    (stVoiceOpt parms);
            opt' = put hdr Vad_Tune vad_tune opt;
            (r, d') = write_vceopt hdr conn_id opt' d
        in (r, parms\<lparr>stVoiceOpt := opt'\<rparr>, d'))"

definition libamg_dsp_set_g723_rate ::
    "vapi_hdr \<Rightarrow> int \<Rightarrow> chnl_params \<Rightarrow> int \<Rightarrow> dsp_state \<Rightarrow> int \<times> chnl_params \<times> dsp_state" where
  "libamg_dsp_set_g723_rate hdr conn_id parms high d =
     (let opt = put hdr G723_Rate (konst hdr (if high \<noteq> 0 then G_723_RATE_HIGH else G_723_RATE_LOW))
                  (stVoiceOpt parms);
          (r, d') = write_vceopt hdr conn_id opt d
      in (r, parms\<lparr>stVoiceOpt := opt\<rparr>, d'))"

definition libamg_dsp_set_gain ::
    "vapi_hdr \<Rightarrow> int \<Rightarrow> chnl_params \<Rightarrow> int \<Rightarrow> int \<Rightarrow> dsp_state \<Rightarrow> int \<times> chnl_params \<times> dsp_state" where
  "libamg_dsp_set_gain hdr conn_id parms txgain rxgain d =
     (let opt = put hdr Packet_To_Pcm_Gain rxgain (put hdr Pcm_To_Packet_Gain txgain (stDgain parms));
          (r, d') = write_dgain hdr conn_id opt d
      in (r, parms\<lparr>stDgain := opt\<rparr>, d'))"

definition libamg_dsp_set_cng ::
    "vapi_hdr \<Rightarrow> int \<Rightarrow> chnl_params \<Rightarrow> int \<Rightarrow> dsp_state \<Rightarrow> int \<times> chnl_params \<times> dsp_state" where
  "libamg_dsp_set_cng hdr conn_id parms enable d =
     (let opt = put hdr Cng (konst hdr (if enable \<noteq> 0 then CNG_ENABLE else CNG_DISABLE)) (stVoiceOpt parms);
          (r, d') = write_vceopt hdr conn_id opt d
      in (r, parms\<lparr>stVoiceOpt := opt\<rparr>, d'))"

definition libamg_dsp_set_echocan ::
    "vapi_hdr \<Rightarrow> int \<Rightarrow> chnl_params \<Rightarrow> int \<Rightarrow> int \<Rightarrow> dsp_state \<Rightarrow> int \<times> chnl_params \<times> dsp_state" where
  "libamg_dsp_set_echocan hdr conn_id parms enable tail_size d =
     (let opt = put hdr Ecenb (konst hdr (if enable \<noteq> 0 then ECENB_ENABLE else ECENB_DISABLE))
                  (stEchoCan parms);
          (r, d') = write_echocan_opt hdr conn_id opt d
      in (r, parms\<lparr>stEchoCan := opt\<rparr>, d'))"

text \<open>\<open>enum _dtmf_mode\<close>: none is 0, RFC 2833 is 1, inband is 2; any other value counts as RFC 2833.\<close>

definition libamg_dsp_set_dtmf_mode ::
    "vapi_hdr \<Rightarrow> int \<Rightarrow> chnl_params \<Rightarrow> int \<Rightarrow> dsp_state \<Rightarrow> int \<times> chnl_params \<times> dsp_state" where
  "libamg_dsp_set_dtmf_mode hdr conn_id parms dtmf_mode d =
     (let opt0 = put hdr Dtmf_Rtp (konst hdr DTMF_RTP_DISABLE)
                   (put hdr Dtmf_Voice (konst hdr DTMF_VOICE_DISABLE) (stDtmfOpt parms));
          opt = (if dtmf_mode = 0 then opt0
                 else if dtmf_mode = 2 then put hdr Dtmf_Voice (konst hdr DTMF_VOICE_ENABLE) opt0
                 else put hdr Redundancy (konst hdr REDUNDANCY_AAL2)
                        (put hdr Regeneration (konst hdr REGENERATION_ENABLE)
                          (put hdr Dtmf_Rtp (konst hdr DTMF_RTP_ENABLE) opt0)));
          (r, d') = write_dtmfopt hdr conn_id opt d
      in (r, parms\<lparr>stDtmfOpt := opt\<rparr>, d'))"

record jb_params =
  jbmin :: int
  jbinit :: int
  jbmax :: int
  deletion_threshold :: int

definition libamg_dsp_set_jitter_buffer ::
    "vapi_hdr \<Rightarrow> int \<Rightarrow> chnl_params \<Rightarrow> jb_params \<Rightarrow> dsp_state \<Rightarrow> int \<times> chnl_params \<times> dsp_state" where
  "libamg_dsp_set_jitter_buffer hdr conn_id parms jb d =
     (let opt = put hdr Deletion_Threshold (deletion_threshold jb)
                  (put hdr Delay_Min (jbmin jb)
                    (put hdr Delay_Max (jbmax jb)
                      (put hdr Delay_Init (jbinit jb) (stJbopt parms))));
          (r, d') = write_jb_opt hdr conn_id opt d
      in (r, parms\<lparr>stJbopt := opt\<rparr>, d'))"

text \<open>The structures that follow are local variables; \<open>junk\<close> is what their memory held before.\<close>

definition libamg_dsp_set_codec_payload_type ::
    "vapi_hdr \<Rightarrow> vopt \<Rightarrow> int \<Rightarrow> int \<Rightarrow> int \<Rightarrow> dsp_state \<Rightarrow> int \<times> dsp_state" where
  "libamg_dsp_set_codec_payload_type hdr junk conn_id codec pt d =
     write_ptset hdr conn_id (put hdr Pt_Value pt (put hdr Pt_Index codec junk)) d"

definition libamg_dsp_set_mf_r2_timings ::
    "vapi_hdr \<Rightarrow> vopt \<Rightarrow> vopt \<Rightarrow> int \<Rightarrow> dsp_state \<Rightarrow> int \<times> dsp_state" where
  "libamg_dsp_set_mf_r2_timings hdr par_junk tune_junk conn_id d =
     (let par_opt = put hdr Maximum_Dropout_Time 80 (put hdr Minimum_On_Time 200
                      (put hdr Minimum_Off_Time 200 (put hdr Mf_Selector 1 par_junk)));
          (r1, d1) = write_mfdpar hdr conn_id par_opt d in
      if r1 < 0 then (- 1, d1)
      else
        let tune_opt = put hdr Mf_Selector 1 (put hdr Param_9_Word 2 (put hdr Minimum_Level_Threshold 350
                         (put hdr Snr_Threshold 0 (put hdr Positive_Twist 100 (put hdr Negative_Twist 100
                           (put hdr Frequency_Deviation 12 tune_junk))))));
            (r2, d2) = write_mftune hdr conn_id tune_opt d1 in
        if r2 \<noteq> 0 then (- 1, d2) else (0, d2))"

definition libamg_dsp_fax_autoswitch_set :: "vapi_hdr \<Rightarrow> int \<Rightarrow> dsp_state \<Rightarrow> int \<times> dsp_state" where
  "libamg_dsp_fax_autoswitch_set hdr conn_id d =
     write_autoswitch hdr conn_id
       (put hdr Delay 60 (put hdr Rfc2833 1 (put hdr Ptchng 1 (put hdr Sw_Ind 1
         (put hdr Pt_Autoswitch 1 (\<lambda>_. 0)))))) d"

subsection \<open>Inband signalling\<close>

definition libamg_dsp_get_inband_signaling :: "int \<Rightarrow> dsp_state \<Rightarrow> int \<times> dsp_state" where
  "libamg_dsp_get_inband_signaling conn_id d =
     (let (s, d1) = vapi (Get_Chnl_Info conn_id) d in
      if s \<noteq> 0 then (- 1, d1) else (stSigdet (chnl_info d1 conn_id) Sigdet_Mode, d1))"

definition libamg_dsp_set_inband_signaling :: "vapi_hdr \<Rightarrow> int \<Rightarrow> int \<Rightarrow> dsp_state \<Rightarrow> int \<times> dsp_state" where
  "libamg_dsp_set_inband_signaling hdr conn_id mode d =
     (let (s, d1) = vapi (Get_Chnl_Info conn_id) d in
      if s \<noteq> 0 then (- 1, d1)
      else
        let parms = chnl_info d1 conn_id;
            sigdet_opt = put hdr Sigdet_Mode mode (stSigdet parms);
            d2 = d1\<lparr>chnl_info := (chnl_info d1)(conn_id := parms\<lparr>stSigdet := sigdet_opt\<rparr>)\<rparr>;
            (r, d3) = write_sigdet hdr conn_id sigdet_opt d2 in
        if r < 0 then (- 1, d3)
        else
          let conn_state = (if mode = 0 then ETdmActive else EInbandToneDetActive);
              (s', d4) = vapi (Set_State conn_id conn_state) d3 in
          if s' < 0 then (- 1, d4) else (0, d4))"

subsection \<open>Tones\<close>

definition libamg_dsp_channel_lock_init :: "dsp_state \<Rightarrow> int \<times> dsp_state" where
  "libamg_dsp_channel_lock_init d = (0, foldl (\<lambda>d i. snd (vapi (Lock_Init i) d)) d [0..31])"

definition channel_lock :: "int \<Rightarrow> dsp_state \<Rightarrow> dsp_state outcome" where
  "channel_lock conn_id d =
     (if 0 \<le> conn_id \<and> conn_id < 32 then Inr (snd (vapi (Lock conn_id) d)) else Inl Out_Of_Bounds)"

definition channel_unlock :: "int \<Rightarrow> dsp_state \<Rightarrow> dsp_state outcome" where
  "channel_unlock conn_id d =
     (if 0 \<le> conn_id \<and> conn_id < 32 then Inr (snd (vapi (Unlock conn_id) d)) else Inl Out_Of_Bounds)"

text \<open>A call of the library under the lock of the channel.\<close>

definition locked_call :: "int \<Rightarrow> vapi_call \<Rightarrow> dsp_state \<Rightarrow> (int \<times> dsp_state) outcome" where
  "locked_call conn_id c d =
     (case channel_lock conn_id d of
        Inl e \<Rightarrow> Inl e
      | Inr d1 \<Rightarrow>
          (let (ret, d2) = vapi c d1 in
           case channel_unlock conn_id d2 of Inl e \<Rightarrow> Inl e | Inr d3 \<Rightarrow> Inr (ret, d3)))"

definition r2_mf_tone_codes :: string where "r2_mf_tone_codes = ''1234567890BCDEF''"

text \<open>The array has a NUL after the fifteen codes.\<close>

definition libamg_dsp_mfcr2_tone_int_to_char :: "int \<Rightarrow> char outcome" where
  "libamg_dsp_mfcr2_tone_int_to_char tone =
     (if tone = 255 then Inr (CHR 0x00)
      else if 1 \<le> tone \<and> tone \<le> 16 then Inr ((r2_mf_tone_codes @ [CHR 0x00]) ! nat (tone - 1))
      else Inl Out_Of_Bounds)"

type_synonym tone_map = "(char \<times> int) list"

definition mfcr2_map :: "vapi_hdr \<Rightarrow> int \<Rightarrow> tone_map" where
  "mfcr2_map hdr fwd =
     map (\<lambda>c. (c, konst hdr (if fwd \<noteq> 0 then EMFCR2_FTONE c else EMFCR2_BTONE c))) ''1234567890BCDEF''"

definition dtmf_map :: "vapi_hdr \<Rightarrow> tone_map" where
  "dtmf_map hdr = map (\<lambda>c. (c, konst hdr (EDTMFTONE c))) ''1234567890*#ABCD''"

fun find_tone :: "tone_map \<Rightarrow> char \<Rightarrow> int \<Rightarrow> int" where
  "find_tone [] tone tone_id = tone_id"
| "find_tone ((c, i) # m) tone tone_id = find_tone m tone (if tone = c then i else tone_id)"

definition libamg_dsp_mfcr2_start_tone ::
    "vapi_hdr \<Rightarrow> int \<Rightarrow> int \<Rightarrow> char \<Rightarrow> dsp_state \<Rightarrow> (int \<times> dsp_state) outcome" where
  "libamg_dsp_mfcr2_start_tone hdr conn_id fwd tone d =
     (let tone_id = find_tone (mfcr2_map hdr fwd) tone (- 1) in
      if tone_id < 0 then Inr (- 1, d) else locked_call conn_id (Play_Tone conn_id tone_id) d)"

definition libamg_dsp_mfcr2_stop_tone :: "int \<Rightarrow> dsp_state \<Rightarrow> (int \<times> dsp_state) outcome" where
  "libamg_dsp_mfcr2_stop_tone conn_id d = locked_call conn_id (Stop_Tone conn_id) d"

definition libamg_dsp_dtmf_start_tone ::
    "vapi_hdr \<Rightarrow> int \<Rightarrow> char \<Rightarrow> dsp_state \<Rightarrow> (int \<times> dsp_state) outcome" where
  "libamg_dsp_dtmf_start_tone hdr conn_id tone d =
     (let tone_id = find_tone (dtmf_map hdr) tone (- 1) in
      if tone_id < 0 then Inr (- 1, d) else locked_call conn_id (Play_Tone conn_id tone_id) d)"

definition libamg_dsp_dtmf_stop_tone :: "int \<Rightarrow> dsp_state \<Rightarrow> (int \<times> dsp_state) outcome" where
  "libamg_dsp_dtmf_stop_tone conn_id d = locked_call conn_id (Stop_Tone conn_id) d"

subsection \<open>Statistics\<close>

text \<open>
  The third component is the member \<open>rx_voice_packets\<close> copied out of the response, if there was one.
\<close>

definition get_channel_stats ::
    "vapi_hdr \<Rightarrow> int \<Rightarrow> int \<Rightarrow> dsp_state \<Rightarrow> int \<times> int option \<times> dsp_state" where
  "get_channel_stats hdr conn_id reset d =
     (let (message, d1) = vapi (Alloc_Msg 512) d in
      if message \<noteq> 0 then (konst hdr FAILURE_CODE, None, d1)
      else
        let (r, d2) = vapi (Set_Msg reset) d1 in
        if r \<noteq> 0 then (r, None, snd (vapi Free_Msg d2))
        else
          let (r', d3) = vapi (Send_Msg conn_id) d2 in
          if r' \<noteq> 0 then (r', None, snd (vapi Free_Msg d3))
          else (r', Some (rx_voice_packets d (length (calls d2))), snd (vapi Free_Msg d3)))"

definition libamg_dsp_rtp_reset_channel_stats ::
    "vapi_hdr \<Rightarrow> int \<Rightarrow> dsp_state \<Rightarrow> int \<times> dsp_state" where
  "libamg_dsp_rtp_reset_channel_stats hdr conn_id d =
     (let (r, st, d') = get_channel_stats hdr conn_id 1 d in (if r \<noteq> 0 then - 1 else 0, d'))"

definition libamg_dsp_rtp_get_rxpkts :: "vapi_hdr \<Rightarrow> int \<Rightarrow> dsp_state \<Rightarrow> (int \<times> dsp_state) outcome" where
  "libamg_dsp_rtp_get_rxpkts hdr conn_id d =
     (let (r, st, d') = get_channel_stats hdr conn_id 0 d in
      if r \<noteq> 0 then Inr (- 1, d')
      else case st of None \<Rightarrow> Inl Uninitialised | Some n \<Rightarrow> Inr (n, d'))"

subsection \<open>Logs of calls\<close>

text \<open>
  The log pairs each call with what it returned. \<open>proto_step\<close> is the protocol that the library expects:
  one message at a time, sent only once it is filled, freed exactly once; tones only under the lock of
  their channel, and the lock released by the one who took it.
\<close>

definition dsp_log :: "dsp_state \<Rightarrow> (vapi_call \<times> int) list" where
  "dsp_log d = zip (calls d) (map (answers d) [0..<length (calls d)])"

datatype proto = Idle | Fresh | Filled | Locked int

fun proto_step :: "proto \<Rightarrow> vapi_call \<times> int \<Rightarrow> proto option" where
  "proto_step Idle (Alloc_Msg n, a) = Some (if a = 0 then Fresh else Idle)"
| "proto_step Idle (Lock c, a) = Some (Locked c)"
| "proto_step Idle (Lock_Init c, a) = Some Idle"
| "proto_step Idle (Get_Chnl_Info c, a) = Some Idle"
| "proto_step Idle (Set_State c m, a) = Some Idle"
| "proto_step Fresh (Fill_Msg fc n opt, a) = Some (if a = 0 then Filled else Fresh)"
| "proto_step Fresh (Set_Msg reset, a) = Some (if a = 0 then Filled else Fresh)"
| "proto_step Fresh (Free_Msg, a) = Some Idle"
| "proto_step Filled (Set_State c m, a) = Some Filled"
| "proto_step Filled (Send_Msg c, a) = Some Filled"
| "proto_step Filled (Free_Msg, a) = Some Idle"
| "proto_step (Locked c) (Play_Tone c' t, a) = (if c' = c then Some (Locked c) else None)"
| "proto_step (Locked c) (Stop_Tone c', a) = (if c' = c then Some (Locked c) else None)"
| "proto_step (Locked c) (Unlock c', a) = (if c' = c then Some Idle else None)"
| "proto_step _ _ = None"

definition proto_of :: "dsp_state \<Rightarrow> proto option" where
  "proto_of d = foldl (\<lambda>s e. case s of None \<Rightarrow> None | Some p \<Rightarrow> proto_step p e) (Some Idle) (dsp_log d)"

text \<open>The mode in which the successful requests have left a connection.\<close>

fun conn_step :: "int \<Rightarrow> conn_mode option \<Rightarrow> vapi_call \<times> int \<Rightarrow> conn_mode option" where
  "conn_step c s (Set_State c' m, a) = (if c' = c \<and> a = 0 then Some m else s)"
| "conn_step c s (_, a) = s"

definition conn_of :: "int \<Rightarrow> dsp_state \<Rightarrow> conn_mode option" where
  "conn_of c d = foldl (conn_step c) None (dsp_log d)"

abbreviation reply :: "dsp_state \<Rightarrow> nat \<Rightarrow> int" where
  "reply d k \<equiv> answers d (length (calls d) + k)"

named_theorems dsp_simps \<open>effect of one call on the state and on the log\<close>

lemma fst_vapi [dsp_simps]: "fst (vapi c d) = answers d (length (calls d))"
  by (simp add: vapi_def)

lemma snd_vapi [dsp_simps]: "calls (snd (vapi c d)) = calls d @ [c]" "answers (snd (vapi c d)) = answers d"
  "chnl_info (snd (vapi c d)) = chnl_info d" "rx_voice_packets (snd (vapi c d)) = rx_voice_packets d"
  by (simp_all add: vapi_def)

lemma dsp_log_vapi: "dsp_log (snd (vapi c d)) = dsp_log d @ [(c, answers d (length (calls d)))]"
  by (simp add: dsp_log_def vapi_def)

lemma proto_vapi [dsp_simps]:
  "proto_of (snd (vapi c d)) =
     (case proto_of d of None \<Rightarrow> None | Some p \<Rightarrow> proto_step p (c, answers d (length (calls d))))"
  by (simp add: proto_of_def dsp_log_vapi)

lemma conn_vapi [dsp_simps]:
  "conn_of c' (snd (vapi c d)) = conn_step c' (conn_of c' d) (c, answers d (length (calls d)))"
  by (simp add: conn_of_def dsp_log_vapi)

lemma log_chnl_info [dsp_simps]: "proto_of (d\<lparr>chnl_info := f\<rparr>) = proto_of d"
  "conn_of c (d\<lparr>chnl_info := f\<rparr>) = conn_of c d"
  by (simp_all add: proto_of_def conn_of_def dsp_log_def)

lemma chnl_info_write_opts [dsp_simps]: "chnl_info (snd (write_opts hdr c fc opt d)) = chnl_info d"
  "answers (snd (write_opts hdr c fc opt d)) = answers d"
  by (simp_all add: write_opts_def write_to_device_def Let_def split_beta dsp_simps)

lemma proto_write_to_device:
  "proto_of d = Some Filled \<Longrightarrow> proto_of (snd (write_to_device c d)) = Some Filled"
  by (simp add: write_to_device_def Let_def split_beta dsp_simps)

lemma proto_write_opts:
  "proto_of d = Some Idle \<Longrightarrow> proto_of (snd (write_opts hdr c fc opt d)) = Some Idle"
  by (simp add: write_opts_def Let_def split_beta dsp_simps proto_write_to_device)

lemma proto_locked_call:
  assumes "proto_of d = Some Idle" and "locked_call c cmd d = Inr (r, d')"
    and "cmd = Stop_Tone c \<or> cmd = Play_Tone c t"
  shows "proto_of d' = Some Idle"
  using assms by (auto simp: locked_call_def channel_lock_def channel_unlock_def split_beta dsp_simps
      split: if_splits)

lemma locked_call_exact:
  "locked_call c cmd d =
     (if 0 \<le> c \<and> c < 32 then Inr (reply d 1, d\<lparr>calls := calls d @ [Lock c, cmd, Unlock c]\<rparr>)
      else Inl Out_Of_Bounds)"
  by (simp add: locked_call_def channel_lock_def channel_unlock_def vapi_def)

lemma proto_get_channel_stats:
  "proto_of d = Some Idle \<Longrightarrow> get_channel_stats hdr c reset d = (r, st, d') \<Longrightarrow> proto_of d' = Some Idle"
  by (auto simp: get_channel_stats_def Let_def split_beta dsp_simps split: if_splits)

lemma get_channel_stats_copied:
  "get_channel_stats hdr c reset d = (r, st, d') \<Longrightarrow> konst hdr FAILURE_CODE \<noteq> 0 \<Longrightarrow> r = 0 \<Longrightarrow> st \<noteq> None"
  by (auto simp: get_channel_stats_def Let_def split_beta split: if_splits)

lemma proto_lock_init: "proto_of d = Some Idle \<Longrightarrow> proto_of (snd (libamg_dsp_channel_lock_init d)) = Some Idle"
  unfolding libamg_dsp_channel_lock_init_def snd_conv
  by (rule foldl_inv[where P = "\<lambda>d. proto_of d = Some Idle"]) (simp_all add: dsp_simps)

subsection \<open>Sequences of commands\<close>

datatype dsp_cmd =
    Rtp_Interval int chnl_params int
  | Vad int chnl_params int int
  | G723_Rate_Cmd int chnl_params int
  | Gain int chnl_params int int
  | Cng_Cmd int chnl_params int
  | Echocan int chnl_params int int
  | Dtmf_Mode int chnl_params int
  | Jitter_Buffer int chnl_params jb_params
  | Payload_Type vopt int int int
  | Mf_R2_Timings vopt vopt int
  | Fax_Autoswitch int
  | Get_Inband int
  | Set_Inband int int
  | Lock_Init_Cmd
  | Mfcr2_Start int int char
  | Mfcr2_Stop int
  | Dtmf_Start int char
  | Dtmf_Stop int
  | Reset_Stats int
  | Get_Rxpkts int

definition no_parms :: "int \<times> chnl_params \<times> dsp_state \<Rightarrow> (int \<times> dsp_state) outcome" where
  "no_parms x = Inr (fst x, snd (snd x))"

fun run_cmd :: "vapi_hdr \<Rightarrow> dsp_cmd \<Rightarrow> dsp_state \<Rightarrow> (int \<times> dsp_state) outcome" where
  "run_cmd hdr (Rtp_Interval c p i) d = no_parms (libamg_dsp_set_rtp_interval hdr c p i d)"
| "run_cmd hdr (Vad c p e t) d = no_parms (libamg_dsp_set_vad hdr c p e t d)"
| "run_cmd hdr (G723_Rate_Cmd c p h) d = no_parms (libamg_dsp_set_g723_rate hdr c p h d)"
| "run_cmd hdr (Gain c p tx rx) d = no_parms (libamg_dsp_set_gain hdr c p tx rx d)"
| "run_cmd hdr (Cng_Cmd c p e) d = no_parms (libamg_dsp_set_cng hdr c p e d)"
| "run_cmd hdr (Echocan c p e t) d = no_parms (libamg_dsp_set_echocan hdr c p e t d)"
| "run_cmd hdr (Dtmf_Mode c p m) d = no_parms (libamg_dsp_set_dtmf_mode hdr c p m d)"
| "run_cmd hdr (Jitter_Buffer c p jb) d = no_parms (libamg_dsp_set_jitter_buffer hdr c p jb d)"
| "run_cmd hdr (Payload_Type junk c codec pt) d = Inr (libamg_dsp_set_codec_payload_type hdr junk c codec pt d)"
| "run_cmd hdr (Mf_R2_Timings j1 j2 c) d = Inr (libamg_dsp_set_mf_r2_timings hdr j1 j2 c d)"
| "run_cmd hdr (Fax_Autoswitch c) d = Inr (libamg_dsp_fax_autoswitch_set hdr c d)"
| "run_cmd hdr (Get_Inband c) d = Inr (libamg_dsp_get_inband_signaling c d)"
| "run_cmd hdr (Set_Inband c m) d = Inr (libamg_dsp_set_inband_signaling hdr c m d)"
| "run_cmd hdr Lock_Init_Cmd d = Inr (libamg_dsp_channel_lock_init d)"
| "run_cmd hdr (Mfcr2_Start c f t) d = libamg_dsp_mfcr2_start_tone hdr c f t d"
| "run_cmd hdr (Mfcr2_Stop c) d = libamg_dsp_mfcr2_stop_tone c d"
| "run_cmd hdr (Dtmf_Start c t) d = libamg_dsp_dtmf_start_tone hdr c t d"
| "run_cmd hdr (Dtmf_Stop c) d = libamg_dsp_dtmf_stop_tone c d"
| "run_cmd hdr (Reset_Stats c) d = Inr (libamg_dsp_rtp_reset_channel_stats hdr c d)"
| "run_cmd hdr (Get_Rxpkts c) d = libamg_dsp_rtp_get_rxpkts hdr c d"

fun run_dsp_cmds :: "vapi_hdr \<Rightarrow> dsp_cmd list \<Rightarrow> dsp_state \<Rightarrow> (int list \<times> dsp_state) outcome" where
  "run_dsp_cmds hdr [] d = Inr ([], d)"
| "run_dsp_cmds hdr (x # xs) d =
     (case run_cmd hdr x d of
        Inl e \<Rightarrow> Inl e
      | Inr (r, d1) \<Rightarrow> (case run_dsp_cmds hdr xs d1 of Inl e \<Rightarrow> Inl e | Inr (rs, d2) \<Rightarrow> Inr (r # rs, d2)))"

text \<open>The commands that index the array of 32 mutexes outside its bounds.\<close>

fun bad_channel :: "dsp_cmd \<Rightarrow> bool" where
  "bad_channel (Mfcr2_Start c f t) = (\<not> (0 \<le> c \<and> c < 32))"
| "bad_channel (Mfcr2_Stop c) = (\<not> (0 \<le> c \<and> c < 32))"
| "bad_channel (Dtmf_Start c t) = (\<not> (0 \<le> c \<and> c < 32))"
| "bad_channel (Dtmf_Stop c) = (\<not> (0 \<le> c \<and> c < 32))"
| "bad_channel _ = False"

lemmas cmd_defs = libamg_dsp_set_rtp_interval_def libamg_dsp_set_vad_def libamg_dsp_set_g723_rate_def
  libamg_dsp_set_gain_def libamg_dsp_set_cng_def libamg_dsp_set_echocan_def libamg_dsp_set_dtmf_mode_def
  libamg_dsp_set_jitter_buffer_def libamg_dsp_set_codec_payload_type_def libamg_dsp_set_mf_r2_timings_def
  libamg_dsp_fax_autoswitch_set_def libamg_dsp_get_inband_signaling_def
  libamg_dsp_set_inband_signaling_def no_parms_def

lemmas tone_defs = libamg_dsp_mfcr2_start_tone_def libamg_dsp_mfcr2_stop_tone_def
  libamg_dsp_dtmf_start_tone_def libamg_dsp_dtmf_stop_tone_def

text \<open>\<open>no_leak x\<close>: if \<open>x\<close> returned, then with no message allocated and no lock held.\<close>

definition no_leak :: "(int \<times> dsp_state) outcome \<Rightarrow> bool" where
  "no_leak x = (case x of Inl e \<Rightarrow> True | Inr (r, d) \<Rightarrow> proto_of d = Some Idle)"

lemma no_leak_locked_call [simp]:
  "proto_of d = Some Idle \<Longrightarrow> no_leak (locked_call c (Stop_Tone c) d)"
  "proto_of d = Some Idle \<Longrightarrow> no_leak (locked_call c (Play_Tone c t) d)"
  by (auto simp: no_leak_def split: sum.splits prod.splits dest: proto_locked_call)

lemma no_leak_Inr [simp]: "no_leak (Inr x) = (proto_of (snd x) = Some Idle)"
  by (simp add: no_leak_def split: prod.splits)

lemma no_leak_stats:
  assumes "proto_of d = Some Idle"
  shows "proto_of (snd (libamg_dsp_rtp_reset_channel_stats hdr c d)) = Some Idle"
    and "no_leak (libamg_dsp_rtp_get_rxpkts hdr c d)"
  using proto_get_channel_stats[OF assms]
  by (auto simp: libamg_dsp_rtp_reset_channel_stats_def libamg_dsp_rtp_get_rxpkts_def no_leak_def
      split: prod.splits option.splits)

lemma no_leak_cmd: "proto_of d = Some Idle \<Longrightarrow> no_leak (run_cmd hdr x d)"
  by (cases x) (simp_all add: cmd_defs tone_defs write_defs Let_def split_beta proto_write_opts
      proto_lock_init no_leak_stats dsp_simps)

lemma cmd_fault:
  "run_cmd hdr x d = Inl e \<Longrightarrow> konst hdr FAILURE_CODE \<noteq> 0 \<Longrightarrow> e = Out_Of_Bounds \<and> bad_channel x"
  by (cases x) (auto simp: no_parms_def tone_defs locked_call_exact libamg_dsp_rtp_get_rxpkts_def Let_def
      dest: get_channel_stats_copied split: if_splits prod.splits option.splits)


lemma run_cmds_balanced:
  assumes "konst hdr FAILURE_CODE \<noteq> 0" and "proto_of d = Some Idle"
  shows "case run_dsp_cmds hdr cmds d of
           Inl e \<Rightarrow> e = Out_Of_Bounds \<and> list_ex bad_channel cmds
         | Inr (rs, d') \<Rightarrow> proto_of d' = Some Idle \<and> length rs = length cmds"
  using assms(2)
proof (induction cmds arbitrary: d)
  case Nil
  then show ?case by simp
next
  case (Cons x xs)
  show ?case
  proof (cases "run_cmd hdr x d")
    case (Inl e)
    then show ?thesis using cmd_fault[OF Inl assms(1)] by simp
  next
    case (Inr rd)
    obtain r d1 where rd: "rd = (r, d1)" by (cases rd)
    then have "proto_of d1 = Some Idle"
      using no_leak_cmd[OF Cons.prems, of hdr x] Inr by simp
    from Cons.IH[OF this] show ?thesis
      using Inr rd by (auto split: sum.splits)
  qed
qed

definition demo_hdr :: vapi_hdr where
  "demo_hdr = \<lparr>api_hdr_len = 8, padding_size = 4, fit = \<lambda>f x. x mod 65536,
     konst = \<lambda>k. case k of FAILURE_CODE \<Rightarrow> - 1 | EMFCR2_FTONE c \<Rightarrow> 100 + of_char c | _ \<Rightarrow> 1,
     opt_len = \<lambda>_. 12\<rparr>"

definition demo_dsp :: "(nat \<Rightarrow> int) \<Rightarrow> dsp_state" where
  "demo_dsp f = \<lparr>answers = f, calls = [],
     chnl_info = \<lambda>_. \<lparr>stVoiceOpt = \<lambda>_. 0, stDgain = \<lambda>_. 0, stEchoCan = \<lambda>_. 0, stDtmfOpt = \<lambda>_. 0, stJbopt = \<lambda>_. 0,
       stSigdet = \<lambda>_. 0\<rparr>, rx_voice_packets = \<lambda>_. 0\<rparr>"

text \<open>C15: Starting without calls, any sequence of commands follows the protocol of the library and ends
  with no message allocated and no channel locked, whatever the library answers. The only fault is a tone
  command for a channel outside the 32 mutexes. The constant FAILURE of the library is not SUCCESS.\<close>

theorem dsp_commands_balanced:
  assumes "konst hdr FAILURE_CODE \<noteq> 0"
  shows "case run_dsp_cmds hdr cmds (d\<lparr>calls := []\<rparr>) of
           Inl e \<Rightarrow> e = Out_Of_Bounds \<and> list_ex bad_channel cmds
         | Inr (rs, d') \<Rightarrow> proto_of d' = Some Idle \<and> length rs = length cmds"
  by (rule run_cmds_balanced[OF assms]) (simp add: proto_of_def dsp_log_def)

theorem dsp_commands_balanced_witness:
  "case run_dsp_cmds demo_hdr [Set_Inband 3 1, Mfcr2_Start 3 1 CHR ''5'', Get_Rxpkts 3]
      ((demo_dsp (\<lambda>k. if k = 4 then 7 else 0))\<lparr>calls := []\<rparr>) of
     Inl e \<Rightarrow> e = Out_Of_Bounds \<and>
       list_ex bad_channel [Set_Inband 3 1, Mfcr2_Start 3 1 CHR ''5'', Get_Rxpkts 3]
   | Inr (rs, d') \<Rightarrow> proto_of d' = Some Idle \<and>
       length rs = length [Set_Inband 3 1, Mfcr2_Start 3 1 CHR ''5'', Get_Rxpkts 3]"
  by (rule dsp_commands_balanced) (simp add: demo_hdr_def)

text \<open>C16: Sending options leaves every other connection as it was. The connection itself keeps its mode
  if the message could not be allocated or filled or the connection could not be deactivated, is left
  inactive if the message could not be sent or the connection not activated again, and is active in the
  end exactly when the call returns 0. The comment of the function promises 0 or -1; the code returns something
  else exactly when the message was allocated and its fill failed with an error other than -1, which is then
  the result.\<close>

theorem dsp_write_opts_connection:
  "fst (write_opts hdr c fc opt d) =
     (if reply d 0 \<noteq> 0 then - 1 else if reply d 1 \<noteq> 0 then reply d 1
      else if reply d 2 = 0 \<and> reply d 3 = 0 \<and> reply d 4 = 0 then 0 else - 1)
   \<and> (fst (write_opts hdr c fc opt d) \<notin> {0, - 1} \<longleftrightarrow> reply d 0 = 0 \<and> reply d 1 \<notin> {0, - 1})
   \<and> conn_of c' (snd (write_opts hdr c fc opt d)) =
     (if c' = to_ushort c \<and> reply d 0 = 0 \<and> reply d 1 = 0 \<and> reply d 2 = 0
      then (if reply d 3 = 0 \<and> reply d 4 = 0 then Some ETdmActive else Some EInactive)
      else conn_of c' d)"
  by (simp add: write_opts_def write_to_device_def Let_def split_beta dsp_simps eval_nat_numeral)

lemma to_ushort_id: "0 \<le> c \<Longrightarrow> c < 65536 \<Longrightarrow> to_ushort c = c"
  by (simp add: to_ushort_def)

definition inband_run :: "vapi_hdr \<Rightarrow> int \<Rightarrow> int \<Rightarrow> dsp_state \<Rightarrow> int \<times> int \<times> conn_mode option" where
  "inband_run hdr c mode d =
     (let (r, d1) = libamg_dsp_set_inband_signaling hdr c mode d;
          (m, d2) = libamg_dsp_get_inband_signaling c d1 in (r, m, conn_of c d2))"

text \<open>If every call of the library succeeds, setting the inband signalling returns 0, the mode is the
  one that is read back, and the connection is in the detecting mode, or active when it was turned off.\<close>

theorem dsp_inband_success:
  assumes "0 \<le> c" and "c < 65536" and "\<And>k. answers d k = 0"
  shows "inband_run hdr c mode d =
     (0, fit hdr Sigdet_Mode mode, Some (if mode = 0 then ETdmActive else EInbandToneDetActive))"
  by (simp add: inband_run_def cmd_defs write_sigdet_def write_opts_def write_to_device_def Let_def split_beta
      dsp_simps put_def to_ushort_id assms)

theorem dsp_inband_success_witness:
  "inband_run demo_hdr 3 2 (demo_dsp (\<lambda>_. 0)) = (0, 2, Some EInbandToneDetActive)"
  using dsp_inband_success[of 3 "demo_dsp (\<lambda>_. 0)" demo_hdr 2]
  by (simp add: demo_dsp_def demo_hdr_def)

text \<open>If the message is rejected, setting the inband signalling returns -1 and the connection is left
  inactive, but the mode that is read back is the one that was not set.\<close>

theorem dsp_inband_send_failure:
  assumes "0 \<le> c" and "c < 65536" and "reply d 0 = 0" and "reply d 1 = 0" and "reply d 2 = 0" and "reply d 3 = 0"
    and "reply d 4 \<noteq> 0" and "reply d 6 = 0"
  shows "inband_run hdr c mode d = (- 1, fit hdr Sigdet_Mode mode, Some EInactive)"
  using assms
  by (simp add: inband_run_def cmd_defs write_sigdet_def write_opts_def write_to_device_def Let_def split_beta
      dsp_simps put_def to_ushort_id eval_nat_numeral)

theorem dsp_inband_send_failure_witness:
  "inband_run demo_hdr 3 2 (demo_dsp (\<lambda>k. if k = 4 then 7 else 0)) = (- 1, 2, Some EInactive)"
  using dsp_inband_send_failure[of 3 "demo_dsp (\<lambda>k. if k = 4 then 7 else 0)" demo_hdr 2]
  by (simp add: demo_dsp_def demo_hdr_def)

lemma find_tone_map:
  "find_tone (map (\<lambda>c. (c, f c)) cs) x i = (if x \<in> set cs then f x else i)"
  by (induction cs arbitrary: i) auto

text \<open>A tone event with number 1 to 15 is translated to a character for which exactly the tone of
  that digit, forward or backward, is started under the lock of the channel, and nothing is played for a
  character without a tone. A channel outside 0 to 31 is out of bounds.\<close>

theorem mfcr2_start_tone_of_event:
  assumes "1 \<le> n" and "n \<le> 15" and "\<And>c. 0 \<le> konst hdr (EMFCR2_FTONE c)" and "\<And>c. 0 \<le> konst hdr (EMFCR2_BTONE c)"
  shows "case libamg_dsp_mfcr2_tone_int_to_char n of
       Inl e \<Rightarrow> False
     | Inr x \<Rightarrow> x = (''1234567890BCDEF'' ! nat (n - 1)) \<and>
         libamg_dsp_mfcr2_start_tone hdr ch fwd x d =
           (if 0 \<le> ch \<and> ch < 32
            then Inr (reply d 1, d\<lparr>calls := calls d @ [Lock ch,
                   Play_Tone ch (konst hdr ((if fwd \<noteq> 0 then EMFCR2_FTONE else EMFCR2_BTONE) x)), Unlock ch]\<rparr>)
            else Inl Out_Of_Bounds)"
proof -
  define x where "x = ''1234567890BCDEF'' ! nat (n - 1)"
  have len: "nat (n - 1) < length ''1234567890BCDEF''" using assms by simp
  then have "x \<in> set ''1234567890BCDEF''"
    unfolding x_def by (rule nth_mem)
  moreover have "libamg_dsp_mfcr2_tone_int_to_char n = Inr x"
    using assms len by (simp only: libamg_dsp_mfcr2_tone_int_to_char_def r2_mf_tone_codes_def x_def nth_append) simp
  ultimately show ?thesis
    by (simp add: leD[OF assms(3)] leD[OF assms(4)] libamg_dsp_mfcr2_start_tone_def mfcr2_map_def find_tone_map locked_call_exact
        x_def[symmetric] Let_def del: list.map set_simps)
qed

theorem mfcr2_start_tone_of_event_witness:
  "case libamg_dsp_mfcr2_tone_int_to_char 10 of
       Inl e \<Rightarrow> False
     | Inr x \<Rightarrow> x = (''1234567890BCDEF'' ! nat (10 - 1)) \<and>
         libamg_dsp_mfcr2_start_tone (demo_hdr\<lparr>konst := \<lambda>_. 7\<rparr>) 31 1 x (demo_dsp (\<lambda>_. 0)) =
           (if 0 \<le> (31::int) \<and> (31::int) < 32
            then Inr (reply (demo_dsp (\<lambda>_. 0)) 1, (demo_dsp (\<lambda>_. 0))\<lparr>calls := calls (demo_dsp (\<lambda>_. 0)) @ [Lock 31,
                   Play_Tone 31 (konst (demo_hdr\<lparr>konst := \<lambda>_. 7\<rparr>) ((if (1::int) \<noteq> 0 then EMFCR2_FTONE else EMFCR2_BTONE) x)),
                   Unlock 31]\<rparr>)
            else Inl Out_Of_Bounds)"
  by (rule mfcr2_start_tone_of_event) simp_all

end
