(* ===== verification/Netlink_Attr.thy ===== *)
theory Netlink_Attr
  imports AMG_Prelude
begin

text \<open>
  The attributes of netlink messages: the builders \<open>addattr_l\<close>, \<open>addattr32\<close>, \<open>addraw_l\<close>, the nesting and
  \<open>rta_\<close> variants and the parsers \<open>parse_rtattr\<close> of src/libnetlink/libnetlink.c, on a buffer of bytes in
  which pointers are offsets. The byte order of the machine is the parameter \<open>be\<close>. The layout of
  \<open>nlmsghdr\<close> (length, type, flags, sequence number, port; 16 bytes) and \<open>rtattr\<close> (length, type; 4 bytes)
  and the alignment macros to 4 bytes are those of the netlink ABI; \<open>unsigned\<close> has 32 bits.
\<close>

type_synonym byte = "8 word"

definition obind :: "'a outcome \<Rightarrow> ('a \<Rightarrow> 'b outcome) \<Rightarrow> 'b outcome" where
  "obind x f = (case x of Inl e \<Rightarrow> Inl e | Inr y \<Rightarrow> f y)"

lemma obind_simps [simp]: "obind (Inl e) f = Inl e" "obind (Inr y) f = f y"
  by (simp_all add: obind_def)

lemma obind_Inr_iff: "obind x f = Inr z \<longleftrightarrow> (\<exists>y. x = Inr y \<and> f y = Inr z)"
  by (cases x) auto

subsection \<open>Bytes\<close>

fun le_bytes :: "nat \<Rightarrow> nat \<Rightarrow> byte list" where
  "le_bytes 0 v = []"
| "le_bytes (Suc n) v = word_of_nat v # le_bytes n (v div 256)"

fun le_val :: "byte list \<Rightarrow> nat" where
  "le_val [] = 0"
| "le_val (b # bs) = unat b + 256 * le_val bs"

definition enc :: "bool \<Rightarrow> nat \<Rightarrow> nat \<Rightarrow> byte list" where
  "enc be n v = (if be then rev (le_bytes n v) else le_bytes n v)"

definition dec :: "bool \<Rightarrow> byte list \<Rightarrow> nat" where
  "dec be bs = le_val (if be then rev bs else bs)"

definition load :: "bool \<Rightarrow> nat \<Rightarrow> byte list \<Rightarrow> nat \<Rightarrow> nat outcome" where
  "load be n m p = (if p + n \<le> length m then Inr (dec be (take n (drop p m))) else Inl Out_Of_Bounds)"

definition put_bytes :: "byte list \<Rightarrow> nat \<Rightarrow> byte list \<Rightarrow> byte list outcome" where
  "put_bytes m p bs =
     (if p + length bs \<le> length m then Inr (take p m @ bs @ drop (p + length bs) m) else Inl Out_Of_Bounds)"

definition store :: "bool \<Rightarrow> nat \<Rightarrow> nat \<Rightarrow> byte list \<Rightarrow> nat \<Rightarrow> byte list outcome" where
  "store be n v m p = put_bytes m p (enc be n v)"

lemma length_le_bytes [simp]: "length (le_bytes n v) = n"
  by (induction n v rule: le_bytes.induct) auto

lemma length_enc [simp]: "length (enc be n v) = n"
  by (simp add: enc_def)

lemma le_val_bytes: "le_val (le_bytes n v) = v mod 256 ^ n"
proof (induction n arbitrary: v)
  case 0
  then show ?case by simp
next
  case (Suc n)
  have "unat (word_of_nat v :: byte) = v mod 256" by (simp add: unat_of_nat)
  then show ?case using Suc by (simp add: mod_mult2_eq add.commute)
qed

lemma dec_enc: "dec be (enc be n v) = v mod 256 ^ n"
  by (simp add: dec_def enc_def le_val_bytes)

lemma le_val_less: "le_val bs < 256 ^ length bs"
proof (induction bs)
  case (Cons b bs)
  have "unat b < 256" by (rule order.strict_trans2 [OF unsigned_less]) simp
  then show ?case using Cons by simp
qed simp

lemma dec_less: "length bs = n \<Longrightarrow> dec be bs < 256 ^ n"
  using le_val_less [of "if be then rev bs else bs"] by (auto simp: dec_def split: if_splits)

lemma load_less: "load be n m p = Inr v \<Longrightarrow> v < 256 ^ n"
  by (auto simp: load_def split: if_splits intro!: dec_less)

lemma put_bytes_length: "put_bytes m p bs = Inr m' \<Longrightarrow> length m' = length m"
  by (auto simp: put_bytes_def split: if_splits)

lemma put_bytes_nth:
  "put_bytes m p bs = Inr m' \<Longrightarrow> i < p \<or> p + length bs \<le> i \<Longrightarrow> i < length m \<Longrightarrow> m' ! i = m ! i"
  by (auto simp: put_bytes_def nth_append split: if_splits)

lemma put_bytes_read: "put_bytes m p bs = Inr m' \<Longrightarrow> take (length bs) (drop p m') = bs"
  by (auto simp: put_bytes_def split: if_splits)

lemma take_drop_cong:
  assumes "length m' = length m" and "\<And>i. p \<le> i \<Longrightarrow> i < p + n \<Longrightarrow> i < length m \<Longrightarrow> m' ! i = m ! i"
  shows "take n (drop p m') = take n (drop p m)"
  using assms by (intro nth_equalityI) auto

lemma load_cong:
  assumes "length m' = length m" and "\<And>i. p \<le> i \<Longrightarrow> i < p + n \<Longrightarrow> i < length m \<Longrightarrow> m' ! i = m ! i"
  shows "load be n m' p = load be n m p"
  using take_drop_cong [OF assms] assms(1) by (simp add: load_def)

lemma store_load: "store be n v m p = Inr m' \<Longrightarrow> load be n m' p = Inr (v mod 256 ^ n)"
  using put_bytes_read [of m p "enc be n v" m'] put_bytes_length [of m p "enc be n v" m']
  by (auto simp: store_def load_def dec_enc) (auto simp: put_bytes_def split: if_splits)

subsection \<open>Alignment\<close>

definition u32 :: "int \<Rightarrow> nat" where
  "u32 x = nat (x mod 2 ^ 32)"

text \<open>\<open>NLMSG_ALIGN\<close> and \<open>RTA_ALIGN\<close>: \<open>((len) + 3) & ~3\<close> on an unsigned number.\<close>

definition nl_align :: "nat \<Rightarrow> nat" where
  "nl_align x = ((x + 3) mod 2 ^ 32) div 4 * 4"

lemma nl_align_small: "x + 3 < 2 ^ 32 \<Longrightarrow> nl_align x = (x + 3) div 4 * 4"
  by (simp add: nl_align_def)

lemma nl_align_bounds: "x + 3 < 2 ^ 32 \<Longrightarrow> x \<le> nl_align x \<and> nl_align x < x + 4"
  using div_mult_mod_eq [of "x + 3" 4] mod_less_divisor [of 4 "x + 3"] by (simp add: nl_align_small) linarith

lemma nl_align_dvd: "4 dvd nl_align x"
  by (simp add: nl_align_def)

lemma nl_align_aligned: "4 dvd x \<Longrightarrow> x + 3 < 2 ^ 32 \<Longrightarrow> nl_align x = x"
  by (auto simp: nl_align_small dvd_def)

subsection \<open>Building\<close>

definition nlmsg_len :: "bool \<Rightarrow> byte list \<Rightarrow> nat outcome" where
  "nlmsg_len be n = load be 4 n 0"

definition NLMSG_TAIL :: "nat \<Rightarrow> nat" where
  "NLMSG_TAIL nl = nl_align nl"

definition RTA_LENGTH :: "nat \<Rightarrow> nat" where
  "RTA_LENGTH alen = 4 + alen"

text \<open>The writes that the builders share: type, length and payload of the attribute at \<open>rta\<close>.\<close>

definition put_rtattr :: "bool \<Rightarrow> byte list \<Rightarrow> nat \<Rightarrow> int \<Rightarrow> nat \<Rightarrow> byte list \<Rightarrow> byte list outcome" where
  "put_rtattr be n rta type len data =
     obind (store be 2 (nat (type mod 65536)) n (rta + 2)) (\<lambda>n1.
     obind (store be 2 len n1 rta) (\<lambda>n2. put_bytes n2 (rta + 4) data))"

definition addattr32 :: "bool \<Rightarrow> byte list \<Rightarrow> int \<Rightarrow> int \<Rightarrow> nat \<Rightarrow> (int \<times> byte list) outcome" where
  "addattr32 be n maxlen type data =
     (let len = RTA_LENGTH 4 in
      obind (nlmsg_len be n) (\<lambda>nl.
      if u32 maxlen < (nl_align nl + len) mod 2 ^ 32 then Inr (- 1, n)
      else
        obind (put_rtattr be n (NLMSG_TAIL nl) type len (enc be 4 data)) (\<lambda>n1.
        obind (store be 4 (nl_align nl + len) n1 0) (\<lambda>n2. Inr (0, n2)))))"

text \<open>\<open>alen\<close> is the length of \<open>data\<close>.\<close>

definition addattr_l :: "bool \<Rightarrow> byte list \<Rightarrow> int \<Rightarrow> int \<Rightarrow> byte list \<Rightarrow> (int \<times> byte list) outcome" where
  "addattr_l be n maxlen type data =
     (let len = RTA_LENGTH (length data) in
      obind (nlmsg_len be n) (\<lambda>nl.
      if u32 maxlen < (nl_align nl + nl_align len) mod 2 ^ 32 then Inr (- 1, n)
      else
        obind (put_rtattr be n (NLMSG_TAIL nl) type len data) (\<lambda>n1.
        obind (store be 4 (nl_align nl + nl_align len) n1 0) (\<lambda>n2. Inr (0, n2)))))"

definition addraw_l :: "bool \<Rightarrow> byte list \<Rightarrow> int \<Rightarrow> byte list \<Rightarrow> (int \<times> byte list) outcome" where
  "addraw_l be n maxlen data =
     (let len = length data in
      obind (nlmsg_len be n) (\<lambda>nl.
      if u32 maxlen < (nl_align nl + nl_align len) mod 2 ^ 32 then Inr (- 1, n)
      else
        obind (put_bytes n (NLMSG_TAIL nl) data) (\<lambda>n1.
        obind (put_bytes n1 (NLMSG_TAIL nl + len) (replicate (nl_align len - len) 0)) (\<lambda>n2.
        obind (store be 4 (nl_align nl + nl_align len) n2 0) (\<lambda>n3. Inr (0, n3))))))"

text \<open>The nesting functions ignore whether the attribute fitted; they return the offset of the start.\<close>

definition addattr_nest :: "bool \<Rightarrow> byte list \<Rightarrow> int \<Rightarrow> int \<Rightarrow> (nat \<times> byte list) outcome" where
  "addattr_nest be n maxlen type =
     obind (nlmsg_len be n) (\<lambda>nl. obind (addattr_l be n maxlen type []) (\<lambda>(r, n1). Inr (NLMSG_TAIL nl, n1)))"

definition addattr_nest_end :: "bool \<Rightarrow> byte list \<Rightarrow> nat \<Rightarrow> (nat \<times> byte list) outcome" where
  "addattr_nest_end be n nest =
     obind (nlmsg_len be n) (\<lambda>nl.
     obind (store be 2 (nat ((int (NLMSG_TAIL nl) - int nest) mod 65536)) n nest) (\<lambda>n1.
     obind (nlmsg_len be n1) (\<lambda>nl'. Inr (nl', n1))))"

definition addattr_nest_compat :: "bool \<Rightarrow> byte list \<Rightarrow> int \<Rightarrow> int \<Rightarrow> byte list \<Rightarrow> (nat \<times> byte list) outcome" where
  "addattr_nest_compat be n maxlen type data =
     obind (nlmsg_len be n) (\<lambda>nl.
     obind (addattr_l be n maxlen type data) (\<lambda>(r, n1).
     obind (addattr_nest be n1 maxlen type) (\<lambda>(p, n2). Inr (NLMSG_TAIL nl, n2))))"

definition addattr_nest_compat_end :: "bool \<Rightarrow> byte list \<Rightarrow> nat \<Rightarrow> (nat \<times> byte list) outcome" where
  "addattr_nest_compat_end be n start =
     obind (load be 2 n start) (\<lambda>rl.
     obind (nlmsg_len be n) (\<lambda>nl.
     obind (store be 2 (nat ((int (NLMSG_TAIL nl) - int start) mod 65536)) n start) (\<lambda>n1.
     obind (addattr_nest_end be n1 (start + nl_align rl)) (\<lambda>(r, n2).
     obind (nlmsg_len be n2) (\<lambda>nl'. Inr (nl', n2))))))"

text \<open>The attribute at \<open>rta\<close> is extended by a nested one; its length has 16 bits.\<close>

definition rta_addattr32 :: "bool \<Rightarrow> byte list \<Rightarrow> nat \<Rightarrow> int \<Rightarrow> int \<Rightarrow> nat \<Rightarrow> (int \<times> byte list) outcome" where
  "rta_addattr32 be n rta maxlen type data =
     (let len = RTA_LENGTH 4 in
      obind (load be 2 n rta) (\<lambda>rl.
      if u32 maxlen < nl_align rl + len then Inr (- 1, n)
      else
        obind (put_rtattr be n (rta + nl_align rl) type len (enc be 4 data)) (\<lambda>n1.
        obind (load be 2 n1 rta) (\<lambda>rl'.
        obind (store be 2 (nl_align rl' + len) n1 rta) (\<lambda>n2. Inr (0, n2))))))"

definition rta_addattr_l :: "bool \<Rightarrow> byte list \<Rightarrow> nat \<Rightarrow> int \<Rightarrow> int \<Rightarrow> byte list \<Rightarrow> (int \<times> byte list) outcome" where
  "rta_addattr_l be n rta maxlen type data =
     (let len = RTA_LENGTH (length data) in
      obind (load be 2 n rta) (\<lambda>rl.
      if u32 maxlen < (nl_align rl + nl_align len) mod 2 ^ 32 then Inr (- 1, n)
      else
        obind (put_rtattr be n (rta + nl_align rl) type len data) (\<lambda>n1.
        obind (load be 2 n1 rta) (\<lambda>rl'.
        obind (store be 2 (nl_align rl' + nl_align len) n1 rta) (\<lambda>n2. Inr (0, n2))))))"

subsection \<open>Parsing\<close>

text \<open>
  The loops over \<open>RTA_OK\<close> and \<open>RTA_NEXT\<close>. They end because an attribute that is accepted takes at least
  its 4 bytes of header off \<open>len\<close>.
\<close>

lemma nl_align_grows: "4 \<le> rl \<Longrightarrow> rl < 65536 \<Longrightarrow> 4 \<le> nl_align rl"
  using nl_align_bounds [of rl] by simp

function parse_rtattr_loop ::
    "bool \<Rightarrow> byte list \<Rightarrow> nat \<Rightarrow> nat \<Rightarrow> int \<Rightarrow> nat option list \<Rightarrow> (nat option list \<times> nat \<times> int) outcome" where
  "parse_rtattr_loop be m mx rta len tb =
     (if len < 4 then Inr (tb, rta, len)
      else case load be 2 m rta of
          Inl e \<Rightarrow> Inl e
        | Inr rl \<Rightarrow>
            if rl < 4 \<or> len < int rl then Inr (tb, rta, len)
            else case load be 2 m (rta + 2) of
                Inl e \<Rightarrow> Inl e
              | Inr ty \<Rightarrow>
                  parse_rtattr_loop be m mx (rta + nl_align rl) (len - int (nl_align rl))
                    (if ty \<le> mx then tb[ty := Some rta] else tb))"
  by pat_completeness auto
termination
proof (relation "measure (\<lambda>(be, m, mx, rta, len, tb). nat len)", goal_cases)
  case 1
  then show ?case by simp
next
  case (2 be m mx rta len tb rl ty)
  then have "4 \<le> nl_align rl" using load_less [of be 2 m rta rl] nl_align_grows [of rl] by simp
  then show ?case using 2 by simp
qed

declare parse_rtattr_loop.simps [simp del]

text \<open>A remainder makes the diagnostic read the length of the attribute behind the last one.\<close>

definition parse_rtattr ::
    "bool \<Rightarrow> byte list \<Rightarrow> nat \<Rightarrow> nat \<Rightarrow> int \<Rightarrow> (int \<times> nat option list) outcome" where
  "parse_rtattr be m mx rta len =
     obind (parse_rtattr_loop be m mx rta len (replicate (Suc mx) None)) (\<lambda>(tb, rta', len').
     if len' \<noteq> 0 then obind (load be 2 m rta') (\<lambda>_. Inr (0, tb)) else Inr (0, tb))"

function parse_byindex_loop ::
    "bool \<Rightarrow> byte list \<Rightarrow> nat \<Rightarrow> nat \<Rightarrow> int \<Rightarrow> nat \<Rightarrow> nat option list \<Rightarrow>
     (nat \<times> nat option list \<times> nat \<times> int) outcome" where
  "parse_byindex_loop be m mx rta len i tb =
     (if len < 4 then Inr (i, tb, rta, len)
      else case load be 2 m rta of
          Inl e \<Rightarrow> Inl e
        | Inr rl \<Rightarrow>
            if rl < 4 \<or> len < int rl then Inr (i, tb, rta, len)
            else case load be 2 m (rta + 2) of
                Inl e \<Rightarrow> Inl e
              | Inr ty \<Rightarrow>
                  if ty \<le> mx \<and> i < mx
                  then parse_byindex_loop be m mx (rta + nl_align rl) (len - int (nl_align rl)) (Suc i) (tb[i := Some rta])
                  else parse_byindex_loop be m mx (rta + nl_align rl) (len - int (nl_align rl)) i tb)"
  by pat_completeness auto
termination
proof (relation "measure (\<lambda>(be, m, mx, rta, len, i, tb). nat len)", goal_cases)
  case 1
  then show ?case by simp
next
  case (2 be m mx rta len i tb rl ty)
  then have "4 \<le> nl_align rl" using load_less [of be 2 m rta rl] nl_align_grows [of rl] by simp
  then show ?case using 2 by simp
next
  case (3 be m mx rta len i tb rl ty)
  then have "4 \<le> nl_align rl" using load_less [of be 2 m rta rl] nl_align_grows [of rl] by simp
  then show ?case using 3 by simp
qed

declare parse_byindex_loop.simps [simp del]

definition parse_rtattr_byindex ::
    "bool \<Rightarrow> byte list \<Rightarrow> nat \<Rightarrow> nat \<Rightarrow> int \<Rightarrow> (nat \<times> nat option list) outcome" where
  "parse_rtattr_byindex be m mx rta len =
     obind (parse_byindex_loop be m mx rta len 0 (replicate mx None)) (\<lambda>(i, tb, rta', len').
     if len' \<noteq> 0 then obind (load be 2 m rta') (\<lambda>_. Inr (i, tb)) else Inr (i, tb))"

text \<open>The length of the payload as an \<open>int\<close>; where it is compared it is unsigned (\<open>u32\<close>), because it comes from
  \<open>sizeof\<close>.\<close>

definition RTA_PAYLOAD :: "nat \<Rightarrow> int" where
  "RTA_PAYLOAD rl = int rl - 4"

definition parse_rtattr_nested ::
    "bool \<Rightarrow> byte list \<Rightarrow> nat \<Rightarrow> nat \<Rightarrow> (int \<times> nat option list) outcome" where
  "parse_rtattr_nested be m mx rta =
     obind (load be 2 m rta) (\<lambda>rl. parse_rtattr be m mx (rta + 4) (RTA_PAYLOAD rl))"

definition parse_rtattr_nested_compat ::
    "bool \<Rightarrow> byte list \<Rightarrow> nat \<Rightarrow> nat \<Rightarrow> nat \<Rightarrow> (int \<times> nat option list option) outcome" where
  "parse_rtattr_nested_compat be m mx rta len =
     obind (load be 2 m rta) (\<lambda>rl.
     if u32 (RTA_PAYLOAD rl) < len then Inr (- 1, None)
     else if u32 (RTA_PAYLOAD rl) \<ge> nl_align len + 4
     then obind (parse_rtattr_nested be m mx (rta + 4 + nl_align len)) (\<lambda>(r, tb). Inr (r, Some tb))
     else Inr (0, Some (replicate (Suc mx) None)))"

subsection \<open>Attributes in a buffer\<close>

text \<open>\<open>attrs_at be m p as q\<close>: from offset \<open>p\<close> to \<open>q\<close> the buffer holds the attributes \<open>as\<close>, each padded to 4 bytes.\<close>

fun attrs_at :: "bool \<Rightarrow> byte list \<Rightarrow> nat \<Rightarrow> (nat \<times> byte list) list \<Rightarrow> nat \<Rightarrow> bool" where
  "attrs_at be m p [] q \<longleftrightarrow> p = q"
| "attrs_at be m p ((t, d) # as) q \<longleftrightarrow>
     load be 2 m p = Inr (4 + length d) \<and> load be 2 m (p + 2) = Inr t \<and>
     p + 4 + length d \<le> length m \<and> take (length d) (drop (p + 4) m) = d \<and>
     attrs_at be m (p + nl_align (4 + length d)) as q"

text \<open>The payload of the attribute that a table entry points to.\<close>

definition attr_data :: "bool \<Rightarrow> byte list \<Rightarrow> nat option \<Rightarrow> byte list option" where
  "attr_data be m x =
     (case x of None \<Rightarrow> None
      | Some p \<Rightarrow> (case load be 2 m p of Inl e \<Rightarrow> None | Inr rl \<Rightarrow> Some (take (rl - 4) (drop (p + 4) m))))"

lemma attrs_at_append:
  "attrs_at be m p (as @ bs) q \<longleftrightarrow> (\<exists>r. attrs_at be m p as r \<and> attrs_at be m r bs q)"
  by (induction as arbitrary: p) auto

lemma attr_size:
  assumes "load be 2 m p = Inr (4 + length d)"
  shows "4 + length d \<le> nl_align (4 + length d)" and "nl_align (4 + length d) < 8 + length d"
    and "4 + length d < 65536"
  using load_less [OF assms] nl_align_bounds [of "4 + length d"] by auto

lemma attrs_at_le: "attrs_at be m p as q \<Longrightarrow> p \<le> q"
proof (induction as arbitrary: p)
  case (Cons a as)
  then show ?case by (cases a) (fastforce dest: add_leD1)
qed simp

lemma attrs_at_cong:
  assumes "length m' = length m"
  shows "attrs_at be m p as q \<Longrightarrow> (\<And>i. p \<le> i \<Longrightarrow> i < q \<Longrightarrow> m' ! i = m ! i) \<Longrightarrow> attrs_at be m' p as q"
proof (induction as arbitrary: p)
  case Nil
  then show ?case by simp
next
  case (Cons a as)
  obtain t d where a: "a = (t, d)" by (cases a)
  let ?r = "p + nl_align (4 + length d)"
  have at: "load be 2 m p = Inr (4 + length d)" "load be 2 m (p + 2) = Inr t" "p + 4 + length d \<le> length m"
      "take (length d) (drop (p + 4) m) = d" "attrs_at be m ?r as q"
    using Cons.prems(1) by (simp_all add: a)
  have r: "p + 4 + length d \<le> ?r" "?r \<le> q" using attr_size [OF at(1)] attrs_at_le [OF at(5)] by simp_all
  have eq: "m' ! i = m ! i" if "p \<le> i" "i < p + 4 + length d" for i
    using Cons.prems(2) [of i] that r by simp
  have "load be 2 m' p = load be 2 m p" "load be 2 m' (p + 2) = load be 2 m (p + 2)"
      "take (length d) (drop (p + 4) m') = take (length d) (drop (p + 4) m)"
    by (intro load_cong take_drop_cong assms; use eq in simp)+
  moreover have "attrs_at be m' ?r as q"
    using Cons.IH [OF at(5)] Cons.prems(2) r by simp
  ultimately show ?case using at assms by (simp add: a)
qed

lemma parse_loop_attrs:
  assumes "attrs_at be m p as q" and "length tb = Suc mx"
  shows "\<exists>tb'. parse_rtattr_loop be m mx p (int q - int p) tb = Inr (tb', q, 0) \<and> length tb' = Suc mx \<and>
    (\<forall>t \<le> mx. attr_data be m (tb' ! t) =
       (case map_of (rev as) t of None \<Rightarrow> attr_data be m (tb ! t) | Some d \<Rightarrow> Some d))"
  using assms
proof (induction as arbitrary: p tb)
  case Nil
  then show ?case by (subst parse_rtattr_loop.simps) simp
next
  case (Cons a as)
  obtain t d where a: "a = (t, d)" by (cases a)
  let ?r = "p + nl_align (4 + length d)"
  let ?tb = "if t \<le> mx then tb[t := Some p] else tb"
  have at: "load be 2 m p = Inr (4 + length d)" "load be 2 m (p + 2) = Inr t"
      "take (length d) (drop (p + 4) m) = d" "attrs_at be m ?r as q"
    using Cons.prems(1) by (simp_all add: a)
  have r: "p + 4 + length d \<le> ?r" "?r \<le> q" using attr_size [OF at(1)] attrs_at_le [OF at(4)] by simp_all
  have step: "parse_rtattr_loop be m mx p (int q - int p) tb = parse_rtattr_loop be m mx ?r (int q - int ?r) ?tb"
    using r at(1,2) by (subst parse_rtattr_loop.simps) (simp add: algebra_simps)
  have len: "length ?tb = Suc mx" using Cons.prems(2) by simp
  obtain tb' where tb': "parse_rtattr_loop be m mx ?r (int q - int ?r) ?tb = Inr (tb', q, 0)" "length tb' = Suc mx"
      "\<forall>u \<le> mx. attr_data be m (tb' ! u) =
         (case map_of (rev as) u of None \<Rightarrow> attr_data be m (?tb ! u) | Some d \<Rightarrow> Some d)"
    using Cons.IH [OF at(4) len] by blast
  have "attr_data be m (Some p) = Some d" using at by (simp add: attr_data_def)
  then have new: "attr_data be m (?tb ! u) = (if u = t then Some d else attr_data be m (tb ! u))" if "u \<le> mx" for u
    using that Cons.prems(2) by (simp add: nth_list_update)
  have "attr_data be m (tb' ! u) =
      (case map_of (rev (a # as)) u of None \<Rightarrow> attr_data be m (tb ! u) | Some d \<Rightarrow> Some d)" if "u \<le> mx" for u
  proof -
    have "attr_data be m (tb' ! u) =
        (case map_of (rev as) u of None \<Rightarrow> attr_data be m (?tb ! u) | Some d \<Rightarrow> Some d)"
      using tb'(3) that by blast
    then show ?thesis unfolding new [OF that] by (simp add: a map_add_def split: option.split)
  qed
  then show ?case using tb'(1,2) unfolding step by blast
qed

lemma parse_rtattr_attrs:
  assumes "attrs_at be m p as q"
  shows "\<exists>tb. parse_rtattr be m mx p (int q - int p) = Inr (0, tb) \<and> length tb = Suc mx \<and>
    (\<forall>t \<le> mx. attr_data be m (tb ! t) = map_of (rev as) t)"
proof -
  obtain tb where "parse_rtattr_loop be m mx p (int q - int p) (replicate (Suc mx) None) = Inr (tb, q, 0)"
      "length tb = Suc mx"
      "\<forall>t \<le> mx. attr_data be m (tb ! t) =
         (case map_of (rev as) t of None \<Rightarrow> attr_data be m (replicate (Suc mx) None ! t) | Some d \<Rightarrow> Some d)"
    using parse_loop_attrs [OF assms, of "replicate (Suc mx) None" mx] by auto
  moreover have "attr_data be m (replicate (Suc mx) None ! t) = None" if "t \<le> mx" for t
    using that by (simp add: attr_data_def nth_replicate del: replicate_Suc)
  ultimately show ?thesis
    by (auto simp: parse_rtattr_def simp del: replicate_Suc split: option.splits)
qed

text \<open>A table entry points into the buffer.\<close>

lemma parse_loop_loaded:
  "parse_rtattr_loop be m mx rta len tb = Inr (tb', r, l) \<Longrightarrow> tb' ! t = Some p \<Longrightarrow>
     tb ! t = Some p \<or> (\<exists>v. load be 2 m p = Inr v)"
proof (induction be m mx rta len tb rule: parse_rtattr_loop.induct)
  case (1 be m mx rta len tb)
  have upd: "load be 2 m rta = Inr v \<Longrightarrow> tb[ty := Some rta] ! t = Some p \<Longrightarrow>
      tb ! t = Some p \<or> (\<exists>v. load be 2 m p = Inr v)" for v ty
    by (cases "ty = t"; cases "t < length tb") (auto simp: list_update_beyond)
  show ?case
    using 1 by (subst (asm) (2) parse_rtattr_loop.simps) (auto split: if_splits sum.splits dest: upd)
qed

lemma parse_rtattr_loaded:
  assumes "parse_rtattr be m mx rta len = Inr (r, tb)" and "t \<le> mx"
  shows "tb ! t = None \<longleftrightarrow> attr_data be m (tb ! t) = None"
proof -
  obtain r' l where l: "parse_rtattr_loop be m mx rta len (replicate (Suc mx) None) = Inr (tb, r', l)"
    using assms(1) by (auto simp: parse_rtattr_def obind_Inr_iff split: if_splits)
  have "replicate (Suc mx) (None :: nat option) ! t = None" using assms(2) by (simp add: nth_replicate del: replicate_Suc)
  then have "tb ! t = Some p \<Longrightarrow> \<exists>v. load be 2 m p = Inr v" for p
    using parse_loop_loaded [OF l, of t p] by (simp del: replicate_Suc)
  then show ?thesis
    by (cases "tb ! t") (fastforce simp: attr_data_def)+
qed

text \<open>
  The attributes that a byte string holds, one after the other, and whether they fill it exactly, the
  last one with its padding: how a message body from outside reads as a list.
\<close>

lemma attr_head_less: "dec be (take 2 bs) < 65536"
proof -
  have "dec be (take 2 bs) < 256 ^ length (take 2 bs)" by (rule dec_less) simp
  also have "\<dots> \<le> 256 ^ 2" by (rule power_increasing) simp_all
  finally show ?thesis by simp
qed

function dec_attrs :: "bool \<Rightarrow> byte list \<Rightarrow> (nat \<times> byte list) list" where
  "dec_attrs be bs =
     (let rl = dec be (take 2 bs) in
      if length bs < 4 \<or> rl < 4 \<or> length bs < rl then []
      else (dec be (take 2 (drop 2 bs)), take (rl - 4) (drop 4 bs)) # dec_attrs be (drop (nl_align rl) bs))"
  by pat_completeness auto
termination
proof (relation "measure (\<lambda>(be, bs). length bs)", goal_cases)
  case 1
  then show ?case by simp
next
  case (2 be bs rl)
  then have "4 \<le> nl_align rl" using attr_head_less [of be bs] nl_align_grows [of rl] by simp
  then show ?case using 2 by auto
qed

declare dec_attrs.simps [simp del]

function attrs_whole :: "bool \<Rightarrow> byte list \<Rightarrow> bool" where
  "attrs_whole be bs =
     (let rl = dec be (take 2 bs) in
      if bs = [] then True
      else if length bs < 4 \<or> rl < 4 \<or> length bs < nl_align rl then False
      else attrs_whole be (drop (nl_align rl) bs))"
  by pat_completeness auto
termination
proof (relation "measure (\<lambda>(be, bs). length bs)", goal_cases)
  case 1
  then show ?case by simp
next
  case (2 be bs rl)
  then have "4 \<le> nl_align rl" using attr_head_less [of be bs] nl_align_grows [of rl] by simp
  then show ?case using 2 by auto
qed

declare attrs_whole.simps [simp del]

lemma take_drop_inner: "take n (drop p m) = bs \<Longrightarrow> i + k \<le> n \<Longrightarrow> take k (drop (p + i) m) = take k (drop i bs)"
  by (auto simp: drop_take add.commute min_def)

lemma attrs_whole_at:
  "attrs_whole be bs \<Longrightarrow> take (length bs) (drop p m) = bs \<Longrightarrow> p + length bs \<le> length m \<Longrightarrow>
     attrs_at be m p (dec_attrs be bs) (p + length bs)"
proof (induction bs arbitrary: p rule: length_induct)
  case (1 bs)
  let ?rl = "dec be (take 2 bs)"
  show ?case
  proof (cases "bs = []")
    case True
    then show ?thesis by (subst dec_attrs.simps) simp
  next
    case False
    have w: "4 \<le> length bs" "4 \<le> ?rl" "nl_align ?rl \<le> length bs" "attrs_whole be (drop (nl_align ?rl) bs)"
      using "1.prems"(1) False by (subst (asm) attrs_whole.simps, simp add: Let_def split: if_splits)+
    have rl: "?rl < 65536" using attr_head_less [of be bs] w(1) by simp
    have al: "?rl \<le> nl_align ?rl" "4 \<le> nl_align ?rl" using nl_align_bounds [of ?rl] nl_align_grows [OF w(2) rl] rl by simp_all
    let ?d = "take (?rl - 4) (drop 4 bs)" and ?t = "dec be (take 2 (drop 2 bs))"
    have dl: "length ?d = ?rl - 4" using w al by simp
    have l1: "load be 2 m p = Inr ?rl"
      using take_drop_inner [OF "1.prems"(2), of 0 2] w(1) "1.prems"(3) by (simp add: load_def)
    have l2: "load be 2 m (p + 2) = Inr ?t"
      using take_drop_inner [OF "1.prems"(2), of 2 2] w(1) "1.prems"(3) by (simp add: load_def)
    have l3: "take (?rl - 4) (drop (p + 4) m) = ?d"
      using take_drop_inner [OF "1.prems"(2), of 4 "?rl - 4"] w al by simp
    have "take (length (drop (nl_align ?rl) bs)) (drop (p + nl_align ?rl) m) = drop (nl_align ?rl) bs"
      using take_drop_inner [OF "1.prems"(2), of "nl_align ?rl" "length bs - nl_align ?rl"] w(3) by simp
    then have "attrs_at be m (p + nl_align ?rl) (dec_attrs be (drop (nl_align ?rl) bs))
        (p + nl_align ?rl + length (drop (nl_align ?rl) bs))"
      using w al(2) "1.prems"(3) by (intro "1.IH" [rule_format]) auto
    moreover have "dec_attrs be bs = (?t, ?d) # dec_attrs be (drop (nl_align ?rl) bs)"
      using w al by (subst dec_attrs.simps) (simp add: Let_def)
    moreover have "4 + length ?d = ?rl" using dl w(2) by simp
    moreover have "p + ?rl \<le> length m" using al w(3) "1.prems"(3) by linarith
    ultimately show ?thesis using l1 l2 l3 dl w(3) by simp
  qed
qed

subsection \<open>What the builders write\<close>

lemma put_rtattr_ok:
  assumes "rta + 4 + length data \<le> length n" and "len < 65536"
  obtains n' where "put_rtattr be n rta type len data = Inr n'" "length n' = length n"
    "load be 2 n' rta = Inr len" "load be 2 n' (rta + 2) = Inr (nat (type mod 65536))"
    "take (length data) (drop (rta + 4) n') = data"
    "\<And>i. i < length n \<Longrightarrow> i < rta \<or> rta + 4 + length data \<le> i \<Longrightarrow> n' ! i = n ! i"
proof -
  obtain n1 where n1: "store be 2 (nat (type mod 65536)) n (rta + 2) = Inr n1"
    using assms(1) by (auto simp: store_def put_bytes_def)
  have l1: "length n1 = length n" using n1 unfolding store_def by (rule put_bytes_length)
  obtain n2 where n2: "store be 2 len n1 rta = Inr n2"
    using assms(1) l1 by (auto simp: store_def put_bytes_def)
  have l2: "length n2 = length n" using put_bytes_length n2 l1 unfolding store_def by metis
  obtain n3 where n3: "put_bytes n2 (rta + 4) data = Inr n3"
    using assms(1) l2 by (auto simp: put_bytes_def)
  have l3: "length n3 = length n" using put_bytes_length [OF n3] l2 by simp
  have e1: "n1 ! i = n ! i" if "i < length n" "i < rta + 2 \<or> rta + 4 \<le> i" for i
    using put_bytes_nth [OF n1 [unfolded store_def], of i] that by auto
  have e2: "n2 ! i = n1 ! i" if "i < length n" "i < rta \<or> rta + 2 \<le> i" for i
    using put_bytes_nth [OF n2 [unfolded store_def], of i] that l1 by auto
  have e3: "n3 ! i = n2 ! i" if "i < length n" "i < rta + 4 \<or> rta + 4 + length data \<le> i" for i
    using put_bytes_nth [OF n3, of i] that l2 by auto
  have "load be 2 n3 rta = load be 2 n2 rta" by (rule load_cong) (use e3 l3 l2 in auto)
  moreover have "load be 2 n3 (rta + 2) = load be 2 n2 (rta + 2)" by (rule load_cong) (use e3 l3 l2 in auto)
  moreover have "load be 2 n2 (rta + 2) = load be 2 n1 (rta + 2)" by (rule load_cong) (use e2 l2 l1 in auto)
  moreover have "nat (type mod 65536) < 65536"
    using pos_mod_bound [of 65536 type] pos_mod_sign [of 65536 type] by linarith
  moreover have "n3 ! i = n ! i" if "i < length n" "i < rta \<or> rta + 4 + length data \<le> i" for i
    using e1 [of i] e2 [of i] e3 [of i] that by auto
  ultimately show thesis
    using that [of n3] n1 n2 n3 l3 put_bytes_read [OF n3] store_load [OF n1] store_load [OF n2] assms(2)
    by (simp add: put_rtattr_def)
qed

lemma addattr_l_step:
  assumes "nlmsg_len be n = Inr nl" and "4 dvd nl" and "4 \<le> nl" and "int nl \<le> maxlen" and "maxlen \<le> int (length n)"
    and "length n < 2 ^ 31" and "length data \<le> 65531"
  shows "if int (nl + nl_align (4 + length data)) \<le> maxlen
    then \<exists>n'. addattr_l be n maxlen type data = Inr (0, n') \<and> length n' = length n \<and>
      nlmsg_len be n' = Inr (nl + nl_align (4 + length data)) \<and>
      attrs_at be n' nl [(nat (type mod 65536), data)] (nl + nl_align (4 + length data)) \<and>
      (\<forall>i < length n. 4 \<le> i \<and> i < nl \<or> nl + nl_align (4 + length data) \<le> i \<longrightarrow> n' ! i = n ! i)
    else addattr_l be n maxlen type data = Inr (- 1, n)"
proof -
  let ?a = "nl_align (4 + length data)"
  have a: "4 + length data \<le> ?a" "?a < 8 + length data"
    using nl_align_bounds [of "4 + length data"] assms(7) by simp_all
  have nl: "nl_align nl = nl" using assms by (intro nl_align_aligned) auto
  have u: "u32 maxlen = nat maxlen" using assms(4,5,6) by (simp add: u32_def)
  have m: "(nl + ?a) mod 2 ^ 32 = nl + ?a" using a assms(4,5,6,7) by simp
  show ?thesis
  proof (cases "int (nl + ?a) \<le> maxlen")
    case False
    then have "nat maxlen < nl + ?a" using assms(4) by (subst nat_less_iff) auto
    then show ?thesis using assms(1) u m False
      by (simp add: addattr_l_def Let_def RTA_LENGTH_def nl)
  next
    case True
    then have fits: "nl + 4 + length data \<le> length n" using a assms(5) by simp
    obtain n1 where n1: "put_rtattr be n nl type (4 + length data) data = Inr n1" "length n1 = length n"
        "load be 2 n1 nl = Inr (4 + length data)" "load be 2 n1 (nl + 2) = Inr (nat (type mod 65536))"
        "take (length data) (drop (nl + 4) n1) = data"
        "\<And>i. i < length n \<Longrightarrow> i < nl \<or> nl + 4 + length data \<le> i \<Longrightarrow> n1 ! i = n ! i"
      using put_rtattr_ok [OF fits, of "4 + length data"] assms(7) by auto
    obtain n2 where n2: "store be 4 (nl + ?a) n1 0 = Inr n2"
      using fits n1(2) assms(3) by (auto simp: store_def put_bytes_def)
    have l2: "length n2 = length n" using put_bytes_length [OF n2 [unfolded store_def]] n1(2) by simp
    have e2: "n2 ! i = n1 ! i" if "i < length n" "4 \<le> i" for i
      using put_bytes_nth [OF n2 [unfolded store_def], of i] that n1(2) by simp
    have at1: "attrs_at be n1 nl [(nat (type mod 65536), data)] (nl + ?a)"
      using n1 fits by simp
    have "attrs_at be n2 nl [(nat (type mod 65536), data)] (nl + ?a)"
      by (rule attrs_at_cong [OF _ at1]) (use l2 n1(2) e2 assms(3,5) True in auto)
    moreover have "addattr_l be n maxlen type data = Inr (0, n2)"
    proof -
      have "\<not> nat maxlen < nl + ?a" using True assms(4) by (subst nat_less_iff) auto
      then show ?thesis using assms(1) u m n1(1) n2
        by (simp add: addattr_l_def Let_def RTA_LENGTH_def NLMSG_TAIL_def nl)
    qed
    moreover have "nlmsg_len be n2 = Inr (nl + ?a)"
      using store_load [OF n2] m by (simp add: nlmsg_len_def)
    ultimately show ?thesis using True l2 e2 n1(6) a by auto
  qed
qed

subsection \<open>Round trips\<close>

text \<open>A sequence of \<open>addattr_l\<close> that stops at the first attribute that does not fit.\<close>

fun add_attrs :: "bool \<Rightarrow> byte list \<Rightarrow> int \<Rightarrow> (nat \<times> byte list) list \<Rightarrow> (int \<times> byte list) outcome" where
  "add_attrs be n maxlen [] = Inr (0, n)"
| "add_attrs be n maxlen ((t, d) # as) =
     obind (addattr_l be n maxlen (int t) d) (\<lambda>(r, n1). if r < 0 then Inr (r, n1) else add_attrs be n1 maxlen as)"

definition attr_ok :: "nat \<times> byte list \<Rightarrow> bool" where
  "attr_ok a \<longleftrightarrow> fst a < 65536 \<and> length (snd a) \<le> 65531"

text \<open>A list of attributes as bytes; reading them gives the list back.\<close>

definition enc_attrs :: "bool \<Rightarrow> (nat \<times> byte list) list \<Rightarrow> byte list" where
  "enc_attrs be as = concat (map (\<lambda>(t, d). enc be 2 (4 + length d) @ enc be 2 t @ d @
     replicate (nl_align (4 + length d) - (4 + length d)) 0) as)"

lemma drop_prefix: "length p = k \<Longrightarrow> drop k (p @ r) = r"
  by auto

lemma dec_enc_attrs:
  assumes "list_all attr_ok as"
  shows "dec_attrs be (enc_attrs be as) = as" and "attrs_whole be (enc_attrs be as)"
proof -
  have "dec_attrs be (enc_attrs be as) = as \<and> attrs_whole be (enc_attrs be as)"
    using assms
  proof (induction as)
    case Nil
    show ?case by (subst dec_attrs.simps, subst attrs_whole.simps) (simp add: enc_attrs_def)
  next
    case (Cons a as)
    obtain t d where a: "a = (t, d)" by (cases a)
    let ?n = "4 + length d" and ?bs = "enc_attrs be as"
    let ?pad = "replicate (nl_align ?n - ?n) (0 :: byte)"
    have ok: "t < 65536" "?n < 65536" using Cons.prems by (simp_all add: a attr_ok_def)
    have b: "enc_attrs be (a # as) = enc be 2 ?n @ enc be 2 t @ d @ ?pad @ ?bs" by (simp add: a enc_attrs_def)
    have al: "?n \<le> nl_align ?n" using nl_align_bounds [of ?n] ok by simp
    have len: "length (enc be 2 ?n @ enc be 2 t @ d @ ?pad) = nl_align ?n" using al by simp
    have "drop (nl_align ?n) ((enc be 2 ?n @ enc be 2 t @ d @ ?pad) @ ?bs) = ?bs" by (rule drop_prefix [OF len])
    then have dr: "drop (nl_align ?n) (enc_attrs be (a # as)) = ?bs"
      by (simp only: b append_assoc)
    have rl: "dec be (take 2 (enc_attrs be (a # as))) = ?n" using ok by (simp add: b dec_enc)
    have ty: "dec be (take 2 (drop 2 (enc_attrs be (a # as)))) = t" using ok by (simp add: b dec_enc)
    have da: "take (length d) (drop 4 (enc_attrs be (a # as))) = d" by (simp add: b)
    have l1: "nl_align ?n \<le> length (enc_attrs be (a # as))" using al by (simp add: b)
    then have l: "nl_align ?n \<le> length (enc_attrs be (a # as))" "enc_attrs be (a # as) \<noteq> []"
      using al by auto
    have "dec_attrs be (enc_attrs be (a # as)) = (t, d) # dec_attrs be ?bs"
      using l al rl ty da dr by (subst dec_attrs.simps) (simp add: Let_def)
    moreover have "attrs_whole be (enc_attrs be (a # as)) = attrs_whole be ?bs"
      using l al rl dr by (subst attrs_whole.simps) (simp add: Let_def)
    ultimately show ?case using Cons by (simp add: a)
  qed
  then show "dec_attrs be (enc_attrs be as) = as" and "attrs_whole be (enc_attrs be as)" by blast+
qed

definition attrs_size :: "(nat \<times> byte list) list \<Rightarrow> nat" where
  "attrs_size as = sum_list (map (\<lambda>a. nl_align (4 + length (snd a))) as)"

lemma attrs_size_simps [simp]: "attrs_size [] = 0"
  "attrs_size (a # as) = nl_align (4 + length (snd a)) + attrs_size as"
  by (simp_all add: attrs_size_def)

lemma add_attrs_ok:
  assumes "nlmsg_len be n = Inr nl" and "4 dvd nl" and "4 \<le> nl" and "int nl \<le> maxlen" and "maxlen \<le> int (length n)"
    and "length n < 2 ^ 31" and "list_all attr_ok as" and "int (nl + attrs_size as) \<le> maxlen"
  shows "\<exists>n'. add_attrs be n maxlen as = Inr (0, n') \<and> length n' = length n \<and>
     nlmsg_len be n' = Inr (nl + attrs_size as) \<and> attrs_at be n' nl as (nl + attrs_size as) \<and>
     (\<forall>i < length n. 4 \<le> i \<and> i < nl \<or> nl + attrs_size as \<le> i \<longrightarrow> n' ! i = n ! i)"
  using assms
proof (induction as arbitrary: n nl)
  case Nil
  then show ?case by simp
next
  case (Cons a as)
  obtain t d where a: "a = (t, d)" by (cases a)
  let ?s = "nl_align (4 + length d)"
  have t: "t < 65536" "length d \<le> 65531" using Cons.prems(7) by (simp_all add: a attr_ok_def)
  then have tm: "nat (int t mod 65536) = t" by simp
  obtain n1 where n1: "addattr_l be n maxlen (int t) d = Inr (0, n1)" "length n1 = length n"
      "nlmsg_len be n1 = Inr (nl + ?s)" "attrs_at be n1 nl [(t, d)] (nl + ?s)"
      "\<forall>i < length n. 4 \<le> i \<and> i < nl \<or> nl + ?s \<le> i \<longrightarrow> n1 ! i = n ! i"
    using addattr_l_step [OF Cons.prems(1-6) t(2), of "int t"] Cons.prems(8) tm by (auto simp: a split: if_splits)
  have "4 dvd nl + ?s" using Cons.prems(2) nl_align_dvd by simp
  then obtain n2 where n2: "add_attrs be n1 maxlen as = Inr (0, n2)" "length n2 = length n1"
      "nlmsg_len be n2 = Inr (nl + ?s + attrs_size as)" "attrs_at be n2 (nl + ?s) as (nl + ?s + attrs_size as)"
      "\<forall>i < length n1. 4 \<le> i \<and> i < nl + ?s \<or> nl + ?s + attrs_size as \<le> i \<longrightarrow> n2 ! i = n1 ! i"
    using Cons.IH [OF n1(3)] Cons.prems n1(2) by (auto simp: a)
  have "attrs_at be n2 nl [(t, d)] (nl + ?s)"
    by (rule attrs_at_cong [OF n2(2) n1(4)]) (use n2(5) n1(2) Cons.prems(3,5,8) in \<open>simp add: a\<close>)
  then have "attrs_at be n2 nl (a # as) (nl + attrs_size (a # as))"
    using attrs_at_append [of be n2 nl "[(t, d)]" as] n2(4) by (auto simp: a algebra_simps)
  then show ?case using n1 n2 by (auto simp: a algebra_simps)
qed

text \<open>C19: Attributes added to a message within the size limit are found again by the parser: for each type
  up to the maximum the table points to the payload of the last attribute of that type, or to nothing.
  The rest of the message in front of the attributes is untouched.\<close>

theorem netlink_attrs_roundtrip:
  assumes "nlmsg_len be n = Inr nl" and "4 dvd nl" and "4 \<le> nl" and "int nl \<le> maxlen" and "maxlen \<le> int (length n)"
    and "length n < 2 ^ 31" and "list_all attr_ok as" and "int (nl + attrs_size as) \<le> maxlen"
  shows "\<exists>n' len tb. add_attrs be n maxlen as = Inr (0, n') \<and> nlmsg_len be n' = Inr len \<and>
     parse_rtattr be n' mx nl (int len - int nl) = Inr (0, tb) \<and>
     map (attr_data be n') tb = map (map_of (rev as)) [0..<Suc mx] \<and>
     take (nl - 4) (drop 4 n') = take (nl - 4) (drop 4 n)"
proof -
  obtain n' where n': "add_attrs be n maxlen as = Inr (0, n')" "length n' = length n"
      "nlmsg_len be n' = Inr (nl + attrs_size as)" "attrs_at be n' nl as (nl + attrs_size as)"
      "\<forall>i < length n. 4 \<le> i \<and> i < nl \<or> nl + attrs_size as \<le> i \<longrightarrow> n' ! i = n ! i"
    using add_attrs_ok [OF assms] by blast
  obtain tb where tb: "parse_rtattr be n' mx nl (int (nl + attrs_size as) - int nl) = Inr (0, tb)"
      "length tb = Suc mx" "\<forall>t \<le> mx. attr_data be n' (tb ! t) = map_of (rev as) t"
    using parse_rtattr_attrs [OF n'(4)] by blast
  have "map (attr_data be n') tb = map (map_of (rev as)) [0..<Suc mx]"
    using tb(2,3) by (intro nth_equalityI) (simp_all del: upt_Suc)
  moreover have "take (nl - 4) (drop 4 n') = take (nl - 4) (drop 4 n)"
    by (rule take_drop_cong [OF n'(2)]) (use n'(5) assms(3) in simp)
  ultimately show ?thesis using n'(1,3) tb(1) by blast
qed

text \<open>
  \<open>appended be w p l s maxlen bs n r\<close>: the result \<open>r\<close> of extending, by \<open>s\<close> bytes, the message or attribute at
  offset \<open>p\<close> of the buffer \<open>n\<close>, whose length \<open>l\<close> is in its first \<open>w\<close> bytes. When the limit is exceeded it is
  refused and the buffer is as it was; otherwise the length is updated, \<open>bs\<close> is behind the old end, and no other
  byte has changed.
\<close>

definition appended :: "bool \<Rightarrow> nat \<Rightarrow> nat \<Rightarrow> nat \<Rightarrow> nat \<Rightarrow> int \<Rightarrow> byte list \<Rightarrow> byte list \<Rightarrow> (int \<times> byte list) outcome \<Rightarrow> bool" where
  "appended be w p l s maxlen bs n r \<longleftrightarrow>
     (case r of
        Inl e \<Rightarrow> False
      | Inr (c, n') \<Rightarrow>
          if int (l + s) \<le> maxlen
          then c = 0 \<and> length n' = length n \<and> load be w n' p = Inr (l + s) \<and>
            take (length bs) (drop (p + l) n') = bs \<and>
            (\<forall>i. i < p \<or> p + w \<le> i \<and> i < p + l \<or> p + l + length bs \<le> i \<and> i < length n \<longrightarrow> n' ! i = n ! i)
          else c = - 1 \<and> n' = n)"

definition rtattr_bytes :: "bool \<Rightarrow> int \<Rightarrow> byte list \<Rightarrow> byte list" where
  "rtattr_bytes be type data = enc be 2 (4 + length data) @ enc be 2 (nat (type mod 65536)) @ data"

lemma length_rtattr_bytes [simp]: "length (rtattr_bytes be type data) = 4 + length data"
  by (simp add: rtattr_bytes_def)

lemma put_rtattr_bytes:
  assumes "rta + 4 + length data \<le> length n"
  shows "put_rtattr be n rta type (4 + length data) data = put_bytes n rta (rtattr_bytes be type data)"
proof -
  obtain x b c y where n: "n = x @ b @ c @ y" "length x = rta" "length b = 2" "length c = 2" "length data \<le> length y"
  proof (rule that)
    show "n = take rta n @ take 2 (drop rta n) @ take 2 (drop 2 (drop rta n)) @ drop 2 (drop 2 (drop rta n))"
      by (simp only: append_take_drop_id)
  qed (use assms in simp_all)
  show ?thesis
    unfolding n(1) using n(2-5)
    by (simp add: put_rtattr_def rtattr_bytes_def store_def put_bytes_def obind_def)
qed

lemma appended_put:
  assumes "load be w n p = Inr l" and "w \<le> l" and "length bs \<le> s" and "p + l + s \<le> length n" and "l + s < 256 ^ w"
    and "int (l + s) \<le> maxlen"
  obtains n1 n2 where "put_bytes n (p + l) bs = Inr n1" and "load be w n1 p = Inr l"
    and "store be w (l + s) n1 p = Inr n2" and "appended be w p l s maxlen bs n (Inr (0, n2))"
proof -
  obtain n1 where n1: "put_bytes n (p + l) bs = Inr n1" using assms(3,4) by (simp add: put_bytes_def)
  have l1: "length n1 = length n" by (rule put_bytes_length [OF n1])
  obtain n2 where n2: "store be w (l + s) n1 p = Inr n2" using assms(2,4) l1 by (simp add: store_def put_bytes_def)
  note n2' = n2 [unfolded store_def]
  have l2: "length n2 = length n" using put_bytes_length [OF n2'] l1 by simp
  have e1: "n1 ! i = n ! i" if "i < length n" "i < p + l \<or> p + l + length bs \<le> i" for i
    using put_bytes_nth [OF n1, of i] that by auto
  have e2: "n2 ! i = n1 ! i" if "i < length n" "i < p \<or> p + w \<le> i" for i
    using put_bytes_nth [OF n2', of i] that l1 by auto
  have "load be w n1 p = load be w n p" by (rule load_cong [OF l1]) (use e1 assms(2) in auto)
  moreover have "load be w n2 p = Inr (l + s)" using store_load [OF n2] assms(5) by simp
  moreover have "take (length bs) (drop (p + l) n2) = take (length bs) (drop (p + l) n1)"
    by (rule take_drop_cong) (use l1 l2 e2 assms(2) in auto)
  moreover have "n2 ! i = n ! i" if "i < p \<or> p + w \<le> i \<and> i < p + l \<or> p + l + length bs \<le> i \<and> i < length n" for i
    using that e1 [of i] e2 [of i] assms(2,4) by auto
  ultimately show thesis
    using that [OF n1 _ n2] assms(1,6) l2 put_bytes_read [OF n1] by (simp add: appended_def)
qed

lemma appendedI:
  assumes "load be w n p = Inr l" and "w \<le> l" and "length bs \<le> s" and "p + l + s \<le> length n" and "l + s < 256 ^ w"
    and "int (l + s) \<le> maxlen"
    and "\<And>n1 n2. put_bytes n (p + l) bs = Inr n1 \<Longrightarrow> load be w n1 p = Inr l \<Longrightarrow> store be w (l + s) n1 p = Inr n2 \<Longrightarrow>
      r = Inr (0, n2)"
  shows "appended be w p l s maxlen bs n r"
proof -
  obtain n1 n2 where "put_bytes n (p + l) bs = Inr n1" "load be w n1 p = Inr l" "store be w (l + s) n1 p = Inr n2"
      "appended be w p l s maxlen bs n (Inr (0, n2))"
    by (rule appended_put [OF assms(1-6)])
  then show ?thesis using assms(7) by metis
qed

lemma appended_refused: "\<not> int (l + s) \<le> maxlen \<Longrightarrow> appended be w p l s maxlen bs n (Inr (- 1, n))"
  unfolding appended_def sum.case prod.case by (simp only: if_False)

text \<open>The bounds that all five builders are called with: \<open>l\<close> bytes in front of the new ones, a limit within the buffer.\<close>

lemma limit_tests:
  assumes "4 dvd l" and "int l \<le> maxlen" and "maxlen < 2 ^ 31" and "k \<le> 65536"
  shows "nl_align l = l" and "(l + k) mod 2 ^ 32 = l + k" and "u32 maxlen < l + k \<longleftrightarrow> \<not> int (l + k) \<le> maxlen"
  using assms by (auto simp: nl_align_aligned u32_def nat_less_iff)

lemma message_builders:
  assumes "nlmsg_len be n = Inr l" and "4 dvd l" and "4 \<le> l" and "int l \<le> maxlen" and "maxlen \<le> int (length n)"
    and "length n < 2 ^ 31" and "length data \<le> 65531"
  shows "appended be 4 0 l (nl_align (4 + length data)) maxlen (rtattr_bytes be type data) n (addattr_l be n maxlen type data)"
    and "appended be 4 0 l 8 maxlen (rtattr_bytes be type (enc be 4 v)) n (addattr32 be n maxlen type v)"
    and "appended be 4 0 l (nl_align (length data)) maxlen (data @ replicate (nl_align (length data) - length data) 0) n
      (addraw_l be n maxlen data)"
proof -
  have mx: "maxlen < 2 ^ 31" using assms(5,6) by simp
  have a: "4 + length data \<le> nl_align (4 + length data)" "nl_align (4 + length data) \<le> 65536"
      "length data \<le> nl_align (length data)" "nl_align (length data) \<le> 65536"
    using nl_align_bounds [of "4 + length data"] nl_align_bounds [of "length data"] assms(7)
      nl_align_dvd [of "4 + length data"] by auto
  note lim = limit_tests [OF assms(2,4) mx]
  have ld: "load be 4 n 0 = Inr l" using assms(1) by (simp add: nlmsg_len_def)
  have small: "l + s < 256 ^ 4" if "s \<le> 65536" for s using that assms(4) mx by simp
  show "appended be 4 0 l (nl_align (4 + length data)) maxlen (rtattr_bytes be type data) n (addattr_l be n maxlen type data)"
  proof (cases "int (l + nl_align (4 + length data)) \<le> maxlen")
    case True
    then have room: "0 + l + nl_align (4 + length data) \<le> length n" using assms(5) by simp
    have put: "put_rtattr be n l type (4 + length data) data = put_bytes n l (rtattr_bytes be type data)"
      by (rule put_rtattr_bytes) (use room a in simp)
    show ?thesis
      by (rule appendedI [OF ld assms(3) _ room small [OF a(2)] True])
        (use a(1) True lim [OF a(2)] put in \<open>simp_all add: addattr_l_def RTA_LENGTH_def NLMSG_TAIL_def Let_def assms(1)\<close>)
  qed (use lim [OF a(2)] in \<open>simp add: addattr_l_def RTA_LENGTH_def Let_def assms(1) appended_refused\<close>)
  show "appended be 4 0 l 8 maxlen (rtattr_bytes be type (enc be 4 v)) n (addattr32 be n maxlen type v)"
  proof (cases "int (l + 8) \<le> maxlen")
    case True
    then have room: "0 + l + 8 \<le> length n" using assms(5) by simp
    have put: "put_rtattr be n l type 8 (enc be 4 v) = put_bytes n l (rtattr_bytes be type (enc be 4 v))"
      using put_rtattr_bytes [of l "enc be 4 v" n be type] room by simp
    show ?thesis
      by (rule appendedI [OF ld assms(3) _ room small True])
        (use True lim [of 8] put in \<open>simp_all add: addattr32_def RTA_LENGTH_def NLMSG_TAIL_def Let_def assms(1)\<close>)
  qed (use lim [of 8] in \<open>simp add: addattr32_def RTA_LENGTH_def Let_def assms(1) appended_refused\<close>)
  let ?z = "replicate (nl_align (length data) - length data) (0 :: byte)"
  show "appended be 4 0 l (nl_align (length data)) maxlen (data @ ?z) n (addraw_l be n maxlen data)"
  proof (cases "int (l + nl_align (length data)) \<le> maxlen")
    case True
    then have room: "0 + l + nl_align (length data) \<le> length n" using assms(5) by simp
    have eq: "obind (put_bytes n l data) (\<lambda>n1. put_bytes n1 (l + length data) ?z) = put_bytes n l (data @ ?z)"
      using room a(3) by (simp add: put_bytes_def add.commute)
    show ?thesis
    proof (rule appendedI [OF ld assms(3) _ room small [OF a(4)] True])
      fix n1 n2 assume n1: "put_bytes n (0 + l) (data @ ?z) = Inr n1" and n2: "store be 4 (l + nl_align (length data)) n1 0 = Inr n2"
      obtain n0 where "put_bytes n l data = Inr n0" "put_bytes n0 (l + length data) ?z = Inr n1"
        using n1 unfolding add_0 eq [symmetric] obind_Inr_iff by blast
      then show "addraw_l be n maxlen data = Inr (0, n2)"
        using n2 True lim [OF a(4)] by (simp add: addraw_l_def NLMSG_TAIL_def Let_def assms(1))
    qed (use a(3) in simp)
  qed (use lim [OF a(4)] in \<open>simp add: addraw_l_def Let_def assms(1) appended_refused\<close>)
qed

lemma attribute_builders:
  assumes "load be 2 n rta = Inr l" and "4 dvd l" and "4 \<le> l" and "int l \<le> maxlen" and "maxlen \<le> 65535"
    and "int rta + maxlen \<le> int (length n)" and "length data \<le> 65531"
  shows "appended be 2 rta l (nl_align (4 + length data)) maxlen (rtattr_bytes be type data) n
      (rta_addattr_l be n rta maxlen type data)"
    and "appended be 2 rta l 8 maxlen (rtattr_bytes be type (enc be 4 v)) n (rta_addattr32 be n rta maxlen type v)"
proof -
  have mx: "maxlen < 2 ^ 31" using assms(5) by simp
  have a: "4 + length data \<le> nl_align (4 + length data)" "nl_align (4 + length data) \<le> 65536"
    using nl_align_bounds [of "4 + length data"] assms(7) nl_align_dvd [of "4 + length data"] by auto
  note lim = limit_tests [OF assms(2,4) mx]
  have w: "2 \<le> l" using assms(3) by simp
  have small: "l + s < 256 ^ 2" if "int (l + s) \<le> maxlen" for s using that assms(5) by simp
  show "appended be 2 rta l (nl_align (4 + length data)) maxlen (rtattr_bytes be type data) n
      (rta_addattr_l be n rta maxlen type data)"
  proof (cases "int (l + nl_align (4 + length data)) \<le> maxlen")
    case True
    then have room: "rta + l + nl_align (4 + length data) \<le> length n" using assms(6) by simp
    have put: "put_rtattr be n (rta + l) type (4 + length data) data = put_bytes n (rta + l) (rtattr_bytes be type data)"
      by (rule put_rtattr_bytes) (use room a in simp)
    show ?thesis
      by (rule appendedI [OF assms(1) w _ room small [OF True] True])
        (use a(1) True lim [OF a(2)] put in \<open>simp_all add: rta_addattr_l_def RTA_LENGTH_def Let_def assms(1)\<close>)
  qed (use lim [OF a(2)] in \<open>simp add: rta_addattr_l_def RTA_LENGTH_def Let_def assms(1) appended_refused\<close>)
  show "appended be 2 rta l 8 maxlen (rtattr_bytes be type (enc be 4 v)) n (rta_addattr32 be n rta maxlen type v)"
  proof (cases "int (l + 8) \<le> maxlen")
    case True
    then have room: "rta + l + 8 \<le> length n" using assms(6) by simp
    have put: "put_rtattr be n (rta + l) type 8 (enc be 4 v) = put_bytes n (rta + l) (rtattr_bytes be type (enc be 4 v))"
      using put_rtattr_bytes [of "rta + l" "enc be 4 v" n be type] room by simp
    show ?thesis
      by (rule appendedI [OF assms(1) w _ room small [OF True] True])
        (use True lim [of 8] put in \<open>simp_all add: rta_addattr32_def RTA_LENGTH_def Let_def assms(1)\<close>)
  qed (use lim [of 8] in \<open>simp add: rta_addattr32_def RTA_LENGTH_def Let_def assms(1) appended_refused\<close>)
qed

text \<open>C22: Each of the five builders refuses what exceeds its limit, and then the buffer is as it was; otherwise it
  puts exactly the new bytes behind the old end (an attribute's length, type and payload, or raw data padded with
  zeros), updates the length of the message or of the enclosing attribute, and changes no other byte. So with a
  limit inside the buffer nothing is written behind it. The message, or attribute, ends on a multiple of 4.\<close>

theorem netlink_addattr_bounds:
  assumes "4 dvd l" and "4 \<le> l" and "int l \<le> maxlen" and "length n < 2 ^ 31" and "length data \<le> 65531"
  shows "(nlmsg_len be n = Inr l \<and> maxlen \<le> int (length n) \<longrightarrow>
      appended be 4 0 l (nl_align (4 + length data)) maxlen (rtattr_bytes be type data) n (addattr_l be n maxlen type data) \<and>
      appended be 4 0 l 8 maxlen (rtattr_bytes be type (enc be 4 v)) n (addattr32 be n maxlen type v) \<and>
      appended be 4 0 l (nl_align (length data)) maxlen (data @ replicate (nl_align (length data) - length data) 0) n
        (addraw_l be n maxlen data)) \<and>
    (load be 2 n rta = Inr l \<and> maxlen \<le> 65535 \<and> int rta + maxlen \<le> int (length n) \<longrightarrow>
      appended be 2 rta l (nl_align (4 + length data)) maxlen (rtattr_bytes be type data) n
        (rta_addattr_l be n rta maxlen type data) \<and>
      appended be 2 rta l 8 maxlen (rtattr_bytes be type (enc be 4 v)) n (rta_addattr32 be n rta maxlen type v))"
  using message_builders [OF _ assms(1-3) _ assms(4,5)] attribute_builders [OF _ assms(1-3) _ _ assms(5)] by blast

definition demo_msg :: "byte list" where
  "demo_msg = enc False 4 16 @ replicate 60 0"

lemma demo_msg_length: "length demo_msg = 64"
  by (simp add: demo_msg_def)

lemma demo_msg_len: "nlmsg_len False demo_msg = Inr 16"
  by (simp add: nlmsg_len_def load_def demo_msg_def dec_enc)

theorem netlink_attrs_roundtrip_witness:
  "\<exists>n' len tb. add_attrs False demo_msg 64 [(3, [7]), (1, [5, 6]), (3, [8])] = Inr (0, n') \<and>
     nlmsg_len False n' = Inr len \<and>
     parse_rtattr False n' 3 16 (int len - int 16) = Inr (0, tb) \<and>
     map (attr_data False n') tb = [None, Some [5, 6], None, Some [8]] \<and>
     take (16 - 4) (drop 4 n') = take (16 - 4) (drop 4 demo_msg)"
proof -
  have m: "map (map_of (rev [(3, [7]), (1, [5, 6]), (3::nat, [8::byte])])) [0..<Suc 3] =
      [None, Some [5, 6], None, Some [8]]" by (simp add: upt_rec)
  show ?thesis
    unfolding m [symmetric]
    by (rule netlink_attrs_roundtrip [OF demo_msg_len])
      (simp_all add: demo_msg_def attr_ok_def nl_align_def)
qed

lemma appended_ok:
  assumes "appended be w p l s maxlen bs n r" and "int (l + s) \<le> maxlen"
  shows "\<exists>n'. r = Inr (0, n') \<and> load be w n' p = Inr (l + s) \<and> take (length bs) (drop (p + l) n') = bs"
  using assms by (cases r) (auto simp: appended_def)

lemma appended_full: "appended be w p l s maxlen bs n r \<Longrightarrow> \<not> int (l + s) \<le> maxlen \<Longrightarrow> r = Inr (- 1, n)"
  unfolding appended_def by (cases r) auto

theorem netlink_addattr_bounds_witness:
  "addattr_l False demo_msg 20 5 [1, 2] = Inr (- 1, demo_msg) \<and>
     (\<exists>n'. addattr32 False demo_msg 24 5 258 = Inr (0, n') \<and> nlmsg_len False n' = Inr 24 \<and>
       take 8 (drop 16 n') = [8, 0, 5, 0, 2, 1, 0, 0]) \<and>
     (\<exists>n'. rta_addattr_l False demo_msg 0 24 5 [9] = Inr (0, n') \<and> load False 2 n' 0 = Inr 24 \<and>
       take 5 (drop 16 n') = [5, 0, 5, 0, 9])"
proof -
  let ?n = "demo_msg"
  have k: "nl_align (4 + length [9 :: byte]) = 8" "nl_align (4 + length [1, 2 :: byte]) = 8" by (simp_all add: nl_align_def)
  have le: "le_bytes 2 v = [word_of_nat v, word_of_nat (v div 256)]" for v by (simp add: numeral_2_eq_2)
  have le4: "le_bytes 4 v = [word_of_nat v, word_of_nat (v div 256), word_of_nat (v div 256 div 256),
      word_of_nat (v div 256 div 256 div 256)]" for v
  proof -
    have "4 = Suc (Suc (Suc (Suc 0)))" by simp
    then show ?thesis by (simp only: le_bytes.simps)
  qed
  have r: "load False 2 ?n 0 = Inr 16" by (simp add: load_def demo_msg_def enc_def dec_def le4)
  have "le_bytes 4 258 = [2, 1, 0, 0]" by (simp add: le4)
  then have b: "rtattr_bytes False 5 (enc False 4 258) = [8, 0, 5, 0, 2, 1, 0, 0]" "rtattr_bytes False 5 [9] = [5, 0, 5, 0, 9]"
    by (simp_all add: rtattr_bytes_def enc_def le)
  have "appended False 4 0 16 8 20 (rtattr_bytes False 5 [1, 2]) ?n (addattr_l False ?n 20 5 [1, 2])"
    using netlink_addattr_bounds [of 16 20 ?n "[1, 2]" False 5 0 0] k by (simp add: demo_msg_length demo_msg_len)
  from appended_full [OF this] have 1: "addattr_l False ?n 20 5 [1, 2] = Inr (- 1, ?n)" by simp
  have "appended False 4 0 16 8 24 [8, 0, 5, 0, 2, 1, 0, 0] ?n (addattr32 False ?n 24 5 258)"
    using netlink_addattr_bounds [of 16 24 ?n "[]" False 5 258 0] b(1) by (simp add: demo_msg_length demo_msg_len)
  from appended_ok [OF this] have 2: "\<exists>n'. addattr32 False ?n 24 5 258 = Inr (0, n') \<and> nlmsg_len False n' = Inr 24 \<and>
      take 8 (drop 16 n') = [8, 0, 5, 0, 2, 1, 0, 0]" by (simp add: nlmsg_len_def numeral_eq_Suc)
  have "appended False 2 0 16 8 24 [5, 0, 5, 0, 9] ?n (rta_addattr_l False ?n 0 24 5 [9])"
    using netlink_addattr_bounds [of 16 24 ?n "[9]" False 5 0 0] r k(1) b(2) by (simp add: demo_msg_length)
  from appended_ok [OF this] have "\<exists>n'. rta_addattr_l False ?n 0 24 5 [9] = Inr (0, n') \<and> load False 2 n' 0 = Inr 24 \<and>
      take 5 (drop 16 n') = [5, 0, 5, 0, 9]" by (simp add: numeral_eq_Suc)
  then show ?thesis using 1 2 by blast
qed

definition add_nested :: "bool \<Rightarrow> byte list \<Rightarrow> int \<Rightarrow> nat \<Rightarrow> (nat \<times> byte list) list \<Rightarrow> (nat \<times> byte list) outcome" where
  "add_nested be n maxlen type as =
     obind (addattr_nest be n maxlen (int type)) (\<lambda>(nest, n1).
     obind (add_attrs be n1 maxlen as) (\<lambda>(r, n2).
     obind (addattr_nest_end be n2 nest) (\<lambda>(len, n3). Inr (nest, n3))))"

lemma attrs_size_dvd: "4 dvd attrs_size as"
  by (induction as) (simp_all add: nl_align_dvd)

lemma nl_align_4: "nl_align 4 = 4"
  by (simp add: nl_align_def)

text \<open>What the message holds after attributes were added inside one: its header covers them.\<close>

lemma add_nested_layout:
  assumes "nlmsg_len be n = Inr nl" and "4 dvd nl" and "4 \<le> nl" and "int nl \<le> maxlen" and "maxlen \<le> int (length n)"
    and "length n < 2 ^ 31" and "list_all attr_ok as" and "int (nl + 4 + attrs_size as) \<le> maxlen"
    and "4 + attrs_size as < 65536" and "type < 65536"
  shows "\<exists>n'. add_nested be n maxlen type as = Inr (nl, n') \<and> nlmsg_len be n' = Inr (nl + 4 + attrs_size as) \<and>
     load be 2 n' nl = Inr (4 + attrs_size as) \<and> load be 2 n' (nl + 2) = Inr type \<and>
     attrs_at be n' (nl + 4) as (nl + 4 + attrs_size as)"
proof -
  let ?S = "attrs_size as"
  have al: "nl_align nl = nl" using assms by (intro nl_align_aligned) auto
  have tm: "nat (int type mod 65536) = type" using assms(10) by simp
  obtain n1 where n1: "addattr_l be n maxlen (int type) [] = Inr (0, n1)" "length n1 = length n"
      "nlmsg_len be n1 = Inr (nl + 4)" "attrs_at be n1 nl [(type, [])] (nl + 4)"
    using addattr_l_step [OF assms(1-6), of "[]" "int type"] assms(8) tm
    by (auto simp: nl_align_4 split: if_splits)
  have dvd: "4 dvd nl + 4" using assms(2) by simp
  obtain n2 where n2: "add_attrs be n1 maxlen as = Inr (0, n2)" "length n2 = length n1"
      "nlmsg_len be n2 = Inr (nl + 4 + ?S)" "attrs_at be n2 (nl + 4) as (nl + 4 + ?S)"
      "\<forall>i < length n1. 4 \<le> i \<and> i < nl + 4 \<or> nl + 4 + ?S \<le> i \<longrightarrow> n2 ! i = n1 ! i"
    using add_attrs_ok [OF n1(3) dvd _ _ _ _ assms(7)] assms(3,5,6,8) n1(2) by auto
  have al2: "nl_align (nl + 4 + ?S) = nl + 4 + ?S"
    using assms(2,5,6,8) attrs_size_dvd [of as] by (intro nl_align_aligned) auto
  have fit: "nl + 4 + ?S \<le> length n" using assms(5,8) by linarith
  obtain n3 where n3: "store be 2 (4 + ?S) n2 nl = Inr n3"
    using fit n1(2) n2(2) by (auto simp: store_def put_bytes_def)
  have l3: "length n3 = length n" using put_bytes_length [OF n3 [unfolded store_def]] n2(2) n1(2) by simp
  have e3: "n3 ! i = n2 ! i" if "i < length n" "i < nl \<or> nl + 2 \<le> i" for i
    using put_bytes_nth [OF n3 [unfolded store_def], of i] that n1(2) n2(2) by auto
  have len3: "nlmsg_len be n3 = Inr (nl + 4 + ?S)"
    unfolding nlmsg_len_def n2(3) [unfolded nlmsg_len_def, symmetric]
    by (rule load_cong) (use l3 n1(2) n2(2) e3 assms(3) in auto)
  have "nat ((int (nl + 4 + ?S) - int nl) mod 65536) = 4 + ?S" using assms(9) by simp
  moreover have "nat (4 + int ?S) = 4 + ?S" by simp
  ultimately have run: "add_nested be n maxlen type as = Inr (nl, n3)"
    using assms(1) n1(1) n2(1,3) n3 len3
    by (simp add: add_nested_def addattr_nest_def addattr_nest_end_def NLMSG_TAIL_def al al2)
  have inner: "attrs_at be n3 (nl + 4) as (nl + 4 + ?S)"
    by (rule attrs_at_cong [OF _ n2(4)]) (use l3 n1(2) n2(2) e3 fit in auto)
  have head: "load be 2 n3 nl = Inr (4 + ?S)" using store_load [OF n3] assms(9) by simp
  have "load be 2 n3 (nl + 2) = load be 2 n1 (nl + 2)"
    by (rule load_cong) (use l3 n1(2) n2(2,5) e3 fit assms(3) in auto)
  then have "load be 2 n3 (nl + 2) = Inr type" using n1(4) by simp
  then show ?thesis using run len3 head inner by blast
qed

lemma parse_one_attr:
  assumes "load be 2 n p = Inr len" and "load be 2 n (p + 2) = Inr type" and "4 \<le> len" and "nl_align len = len"
    and "type \<le> mx"
  shows "parse_rtattr be n mx p (int len) = Inr (0, (replicate (Suc mx) None)[type := Some p])"
proof -
  have "parse_rtattr_loop be n mx p (int len) (replicate (Suc mx) None) =
      parse_rtattr_loop be n mx (p + len) 0 ((replicate (Suc mx) None)[type := Some p])"
    using assms by (subst parse_rtattr_loop.simps [of be n mx p]) (simp del: replicate_Suc)
  also have "\<dots> = Inr ((replicate (Suc mx) None)[type := Some p], p + len, 0)"
    by (subst parse_rtattr_loop.simps) simp
  finally show ?thesis by (simp add: parse_rtattr_def)
qed

text \<open>C20: Attributes added between the start and the end of a nested attribute are found again: the table
  of the outer level points to the nested attribute, and parsing it gives the inner attributes.\<close>

theorem netlink_nested_roundtrip:
  assumes "nlmsg_len be n = Inr nl" and "4 dvd nl" and "4 \<le> nl" and "int nl \<le> maxlen" and "maxlen \<le> int (length n)"
    and "length n < 2 ^ 31" and "list_all attr_ok as" and "int (nl + 4 + attrs_size as) \<le> maxlen"
    and "4 + attrs_size as < 65536" and "type \<le> mx" and "type < 65536"
  shows "\<exists>n' len tb tb'. add_nested be n maxlen type as = Inr (nl, n') \<and> nlmsg_len be n' = Inr len \<and>
     parse_rtattr be n' mx nl (int len - int nl) = Inr (0, tb) \<and> tb ! type = Some nl \<and>
     parse_rtattr_nested be n' mx' nl = Inr (0, tb') \<and>
     map (attr_data be n') tb' = map (map_of (rev as)) [0..<Suc mx']"
proof -
  let ?S = "attrs_size as"
  obtain n' where n': "add_nested be n maxlen type as = Inr (nl, n')" "nlmsg_len be n' = Inr (nl + 4 + ?S)"
      "load be 2 n' nl = Inr (4 + ?S)" "load be 2 n' (nl + 2) = Inr type" "attrs_at be n' (nl + 4) as (nl + 4 + ?S)"
    using add_nested_layout [OF assms(1-9,11)] by blast
  obtain tb' where tb': "parse_rtattr be n' mx' (nl + 4) (int (nl + 4 + ?S) - int (nl + 4)) = Inr (0, tb')"
      "length tb' = Suc mx'" "\<forall>t \<le> mx'. attr_data be n' (tb' ! t) = map_of (rev as) t"
    using parse_rtattr_attrs [OF n'(5)] by blast
  have nested: "parse_rtattr_nested be n' mx' nl = Inr (0, tb')"
    using n'(3) tb'(1) by (simp add: parse_rtattr_nested_def RTA_PAYLOAD_def)
  have data: "map (attr_data be n') tb' = map (map_of (rev as)) [0..<Suc mx']"
    using tb'(2,3) by (intro nth_equalityI) (simp_all del: upt_Suc)
  have "nl_align (4 + ?S) = 4 + ?S" using attrs_size_dvd [of as] assms(9) by (intro nl_align_aligned) auto
  then have "parse_rtattr be n' mx nl (int (nl + 4 + ?S) - int nl) = Inr (0, (replicate (Suc mx) None)[type := Some nl])"
    using parse_one_attr [OF n'(3,4) _ _ assms(10)] by (simp add: algebra_simps)
  moreover have "(replicate (Suc mx) None)[type := Some nl] ! type = Some nl"
    using assms(10) by (simp del: replicate_Suc)
  ultimately show ?thesis using n'(1,2) nested data by blast
qed

theorem netlink_nested_roundtrip_witness:
  "\<exists>n' len tb tb'. add_nested False demo_msg 64 5 [(1, [5, 6])] = Inr (16, n') \<and> nlmsg_len False n' = Inr len \<and>
     parse_rtattr False n' 5 16 (int len - int 16) = Inr (0, tb) \<and> tb ! 5 = Some 16 \<and>
     parse_rtattr_nested False n' 1 16 = Inr (0, tb') \<and>
     map (attr_data False n') tb' = map (map_of (rev [(1, [5, 6])])) [0..<Suc 1]"
  by (rule netlink_nested_roundtrip [OF demo_msg_len])
    (simp_all add: demo_msg_length attr_ok_def nl_align_def)

end
