(* ===== verification/Netlink_Compat.thy ===== *)
theory Netlink_Compat
  imports Netlink_Attr
begin

text \<open>
  Nested attributes in the compatible form: an attribute whose payload is a fixed structure, followed in newer
  messages by a nested attribute (libnetlink.c 573-600 and 652-663, and the macro of libnetlink.h that old and
  new receivers share).
\<close>

text \<open>The macro: \<open>data\<close> is the offset of the structure, or \<open>NULL\<close> when the payload is shorter than \<open>len\<close>.\<close>

definition nested_compat_macro ::
    "bool \<Rightarrow> byte list \<Rightarrow> nat \<Rightarrow> nat \<Rightarrow> nat \<Rightarrow> (nat option \<times> int \<times> nat option list option) outcome" where
  "nested_compat_macro be m mx rta len =
     obind (load be 2 m rta) (\<lambda>rl.
     let data = if len \<le> u32 (RTA_PAYLOAD rl) then Some (rta + 4) else None in
     obind (parse_rtattr_nested_compat be m mx rta len) (\<lambda>(r, tb). Inr (data, r, tb)))"

text \<open>A sender: the structure \<open>data\<close>, then \<open>as\<close> nested behind it.\<close>

definition add_compat ::
    "bool \<Rightarrow> byte list \<Rightarrow> int \<Rightarrow> nat \<Rightarrow> byte list \<Rightarrow> (nat \<times> byte list) list \<Rightarrow> (nat \<times> byte list) outcome" where
  "add_compat be n maxlen type data as =
     obind (addattr_nest_compat be n maxlen (int type) data) (\<lambda>(start, n1).
     obind (add_attrs be n1 maxlen as) (\<lambda>(r, n2).
     obind (addattr_nest_compat_end be n2 start) (\<lambda>(len, n3). Inr (start, n3))))"

lemma store_16:
  assumes "p + 2 \<le> length m" and "v < 65536"
  obtains m' where "store be 2 v m p = Inr m'" "length m' = length m" "load be 2 m' p = Inr v"
    "\<And>i. i < length m \<Longrightarrow> i < p \<or> p + 2 \<le> i \<Longrightarrow> m' ! i = m ! i"
proof -
  obtain m' where m': "store be 2 v m p = Inr m'" using assms(1) by (auto simp: store_def put_bytes_def)
  show thesis
  proof (rule that [OF m'])
    show "length m' = length m" by (rule put_bytes_length [OF m' [unfolded store_def]])
    show "load be 2 m' p = Inr v" using store_load [OF m'] assms(2) by simp
    show "m' ! i = m ! i" if "i < length m" "i < p \<or> p + 2 \<le> i" for i
      using put_bytes_nth [OF m' [unfolded store_def], of i] that by auto
  qed
qed

lemma nl_align_after_head: "x \<le> 65531 \<Longrightarrow> nl_align (4 + x) = 4 + nl_align x"
  using div_add_self2 [of 4 "x + 3"] by (simp add: nl_align_small)

text \<open>What the message holds after a structure and nested attributes were added.\<close>

lemma add_compat_layout:
  assumes "nlmsg_len be n = Inr nl" and "4 dvd nl" and "4 \<le> nl" and "int nl \<le> maxlen" and "maxlen \<le> int (length n)"
    and "length n < 2 ^ 31" and "list_all attr_ok as" and "length data \<le> 65531"
    and "int (nl + (8 + nl_align (length data) + attrs_size as)) \<le> maxlen"
    and "8 + nl_align (length data) + attrs_size as < 65536" and "type < 65536"
  defines "a \<equiv> 4 + nl_align (length data)" and "S \<equiv> attrs_size as"
  shows "\<exists>n'. add_compat be n maxlen type data as = Inr (nl, n') \<and> nlmsg_len be n' = Inr (nl + a + 4 + S) \<and>
     load be 2 n' nl = Inr (a + 4 + S) \<and> load be 2 n' (nl + 2) = Inr type \<and>
     take (length data) (drop (nl + 4) n') = data \<and> load be 2 n' (nl + a) = Inr (4 + S) \<and>
     attrs_at be n' (nl + a + 4) as (nl + a + 4 + S)"
proof -
  have a: "nl_align (4 + length data) = a" using nl_align_after_head [OF assms(8)] by (simp add: a_def)
  have la: "4 + length data \<le> a" using nl_align_bounds [of "4 + length data"] assms(8) a by simp
  have da: "4 dvd a" using nl_align_dvd [of "4 + length data"] a by simp
  have dS: "4 dvd S" using attrs_size_dvd by (simp add: S_def)
  have size: "int (nl + a + 4 + S) \<le> maxlen" and small: "a + 4 + S < 65536"
    using assms(9,10) by (simp_all add: a_def S_def)
  have fit: "nl + a + 4 + S \<le> length n" using size assms(5) by linarith
  have tm: "nat (int type mod 65536) = type" using assms(11) by simp
  obtain n1 where n1: "addattr_l be n maxlen (int type) data = Inr (0, n1)" "length n1 = length n"
      "nlmsg_len be n1 = Inr (nl + a)" "attrs_at be n1 nl [(type, data)] (nl + a)"
    using addattr_l_step [OF assms(1-6,8), of "int type"] size tm a by (auto split: if_splits)
  have "4 dvd nl + a" using assms(2) da by simp
  then obtain n2 where n2: "addattr_l be n1 maxlen (int type) [] = Inr (0, n2)" "length n2 = length n"
      "nlmsg_len be n2 = Inr (nl + a + 4)"
      "\<forall>i < length n. 4 \<le> i \<and> i < nl + a \<or> nl + a + 4 \<le> i \<longrightarrow> n2 ! i = n1 ! i"
    using addattr_l_step [OF n1(3), of maxlen "[]" "int type"] n1(2) assms(3,5,6) size
    by (auto simp: nl_align_4 split: if_splits)
  have "4 dvd nl + a + 4" using assms(2) da by simp
  then obtain n3 where n3: "add_attrs be n2 maxlen as = Inr (0, n3)" "length n3 = length n"
      "nlmsg_len be n3 = Inr (nl + a + 4 + S)" "attrs_at be n3 (nl + a + 4) as (nl + a + 4 + S)"
      "\<forall>i < length n. 4 \<le> i \<and> i < nl + a + 4 \<or> nl + a + 4 + S \<le> i \<longrightarrow> n3 ! i = n2 ! i"
    using add_attrs_ok [OF n2(3), of maxlen as] n2(2) assms(3,5,6,7) size by (auto simp: S_def)
  obtain n4 where n4: "store be 2 (a + 4 + S) n3 nl = Inr n4" "length n4 = length n" "load be 2 n4 nl = Inr (a + 4 + S)"
      "\<And>i. i < length n \<Longrightarrow> i < nl \<or> nl + 2 \<le> i \<Longrightarrow> n4 ! i = n3 ! i"
    using store_16 [of nl n3 "a + 4 + S" be] fit small n3(2) by auto
  obtain n5 where n5: "store be 2 (4 + S) n4 (nl + a) = Inr n5" "length n5 = length n" "load be 2 n5 (nl + a) = Inr (4 + S)"
      "\<And>i. i < length n \<Longrightarrow> i < nl + a \<or> nl + a + 2 \<le> i \<Longrightarrow> n5 ! i = n4 ! i"
    using store_16 [of "nl + a" n4 "4 + S" be] fit small n4(2) by auto
  have e3: "n3 ! i = n1 ! i" if "4 \<le> i" "i < nl + a" for i using n2(4) n3(5) that fit by simp
  have e5: "n5 ! i = n3 ! i" if "i < length n" "i < nl \<or> nl + 2 \<le> i \<and> i < nl + a \<or> nl + a + 2 \<le> i" for i
    using n4(4) [of i] n5(4) [of i] that la by auto
  have same: "load be 2 n5 (nl + 2) = load be 2 n1 (nl + 2)" "load be 2 n3 nl = load be 2 n1 nl" "load be 2 n5 nl = load be 2 n4 nl"
      "load be 4 n4 0 = load be 4 n3 0" "load be 4 n5 0 = load be 4 n3 0"
      "take (length data) (drop (nl + 4) n5) = take (length data) (drop (nl + 4) n1)"
    by (intro load_cong take_drop_cong; use n1(2) n3(2) n4(2,4) n5(2,4) e3 e5 la fit assms(3) in simp)+
  have inner: "attrs_at be n5 (nl + a + 4) as (nl + a + 4 + S)"
    by (rule attrs_at_cong [OF _ n3(4)]) (use n3(2) n5(2) e5 fit in auto)
  have al: "nl_align nl = nl" "nl_align (nl + a) = nl + a" "nl_align (nl + a + 4 + S) = nl + a + 4 + S"
    using assms(2,6) da dS fit by (intro nl_align_aligned; auto)+
  have ends: "nat ((int (nl + a + 4 + S) - int nl) mod 65536) = a + 4 + S"
      "nat ((int (nl + a + 4 + S) - int (nl + a)) mod 65536) = 4 + S" using small by simp_all
  have start: "addattr_nest_compat be n maxlen (int type) data = Inr (nl, n2)"
    by (simp add: addattr_nest_compat_def addattr_nest_def NLMSG_TAIL_def assms(1) n1(1,3) n2(1) al(1))
  have "addattr_nest_end be n4 (nl + a) = Inr (nl + a + 4 + S, n5)"
    using n5(1) n3(3) same(4,5) ends(2) al(3)
    by (simp only: addattr_nest_end_def nlmsg_len_def NLMSG_TAIL_def obind_simps)
  then have "addattr_nest_compat_end be n3 nl = Inr (nl + a + 4 + S, n5)"
    using n1(4) n3(3) n4(1) same(2,5) ends(1) al(3) a
    by (simp only: addattr_nest_compat_end_def nlmsg_len_def NLMSG_TAIL_def obind_simps attrs_at.simps prod.case)
  then show ?thesis
    using start n3(1,3) n1(4) n4(3) n5(3) same inner by (simp add: add_compat_def nlmsg_len_def)
qed

text \<open>C21: A structure with attributes nested behind it is found again by receivers of both kinds: one that parses the
  message finds the attribute, the macro gives the structure and the table of the nested attributes. From a sender
  that adds only the structure the macro gives it too, with an empty table.\<close>

theorem netlink_compat_roundtrip:
  assumes "nlmsg_len be n = Inr nl" and "4 dvd nl" and "4 \<le> nl" and "int nl \<le> maxlen" and "maxlen \<le> int (length n)"
    and "length n < 2 ^ 31" and "list_all attr_ok as" and "length data \<le> 65531"
    and "int (nl + (8 + nl_align (length data) + attrs_size as)) \<le> maxlen"
    and "8 + nl_align (length data) + attrs_size as < 65536" and "type < 65536" and "type \<le> mx"
  shows "(\<exists>n' len tb p tb'. add_compat be n maxlen type data as = Inr (nl, n') \<and> nlmsg_len be n' = Inr len \<and>
       parse_rtattr be n' mx nl (int len - int nl) = Inr (0, tb) \<and> tb ! type = Some nl \<and>
       nested_compat_macro be n' mx' nl (length data) = Inr (Some p, 0, Some tb') \<and>
       take (length data) (drop p n') = data \<and>
       map (attr_data be n') tb' = map (map_of (rev as)) [0..<Suc mx']) \<and>
     (\<exists>n' p. addattr_l be n maxlen (int type) data = Inr (0, n') \<and>
       nested_compat_macro be n' mx' nl (length data) = Inr (Some p, 0, Some (replicate (Suc mx') None)) \<and>
       take (length data) (drop p n') = data)"
proof
  let ?a = "4 + nl_align (length data)" and ?S = "attrs_size as"
  have a: "nl_align (4 + length data) = ?a" by (rule nl_align_after_head [OF assms(8)])
  have la: "length data \<le> nl_align (length data)" using nl_align_bounds [of "length data"] assms(8) by simp
  obtain n' where n': "add_compat be n maxlen type data as = Inr (nl, n')" "nlmsg_len be n' = Inr (nl + ?a + 4 + ?S)"
      "load be 2 n' nl = Inr (?a + 4 + ?S)" "load be 2 n' (nl + 2) = Inr type" "take (length data) (drop (nl + 4) n') = data"
      "load be 2 n' (nl + ?a) = Inr (4 + ?S)" "attrs_at be n' (nl + ?a + 4) as (nl + ?a + 4 + ?S)"
    using add_compat_layout [OF assms(1-11)] by blast
  obtain tb' where tb': "parse_rtattr be n' mx' (nl + ?a + 4) (int (nl + ?a + 4 + ?S) - int (nl + ?a + 4)) = Inr (0, tb')"
      "length tb' = Suc mx'" "\<forall>t \<le> mx'. attr_data be n' (tb' ! t) = map_of (rev as) t"
    using parse_rtattr_attrs [OF n'(7)] by blast
  have nested: "parse_rtattr_nested be n' mx' (nl + 4 + nl_align (length data)) = Inr (0, tb')"
    using n'(6) tb'(1) by (simp add: parse_rtattr_nested_def RTA_PAYLOAD_def add.assoc)
  have "u32 (RTA_PAYLOAD (?a + 4 + ?S)) = nl_align (length data) + 4 + ?S"
    using assms(10) by (simp add: u32_def RTA_PAYLOAD_def)
  then have macro: "nested_compat_macro be n' mx' nl (length data) = Inr (Some (nl + 4), 0, Some tb')"
    using n'(3) nested la by (simp add: nested_compat_macro_def parse_rtattr_nested_compat_def Let_def)
  have data: "map (attr_data be n') tb' = map (map_of (rev as)) [0..<Suc mx']"
    using tb'(2,3) by (intro nth_equalityI) (simp_all del: upt_Suc)
  have "nl_align (?a + 4 + ?S) = ?a + 4 + ?S"
    using attrs_size_dvd [of as] nl_align_dvd [of "length data"] assms(10) by (intro nl_align_aligned) auto
  then have "parse_rtattr be n' mx nl (int (nl + ?a + 4 + ?S) - int nl) = Inr (0, (replicate (Suc mx) None)[type := Some nl])"
    using parse_one_attr [OF n'(3,4) _ _ assms(12)] by (simp add: algebra_simps)
  moreover have "(replicate (Suc mx) None)[type := Some nl] ! type = Some nl"
    using assms(12) by (simp del: replicate_Suc)
  ultimately show "\<exists>n' len tb p tb'. add_compat be n maxlen type data as = Inr (nl, n') \<and> nlmsg_len be n' = Inr len \<and>
       parse_rtattr be n' mx nl (int len - int nl) = Inr (0, tb) \<and> tb ! type = Some nl \<and>
       nested_compat_macro be n' mx' nl (length data) = Inr (Some p, 0, Some tb') \<and>
       take (length data) (drop p n') = data \<and> map (attr_data be n') tb' = map (map_of (rev as)) [0..<Suc mx']"
    using n'(1,2,5) macro data by blast
  obtain n1 where n1: "addattr_l be n maxlen (int type) data = Inr (0, n1)" "attrs_at be n1 nl [(type, data)] (nl + ?a)"
    using addattr_l_step [OF assms(1-6,8), of "int type"] assms(9,11) a by (auto split: if_splits)
  have "u32 (RTA_PAYLOAD (4 + length data)) = length data" using assms(8) by (simp add: u32_def RTA_PAYLOAD_def)
  then have "nested_compat_macro be n1 mx' nl (length data) = Inr (Some (nl + 4), 0, Some (replicate (Suc mx') None))"
    using n1(2) la by (simp add: nested_compat_macro_def parse_rtattr_nested_compat_def Let_def)
  then show "\<exists>n' p. addattr_l be n maxlen (int type) data = Inr (0, n') \<and>
       nested_compat_macro be n' mx' nl (length data) = Inr (Some p, 0, Some (replicate (Suc mx') None)) \<and>
       take (length data) (drop p n') = data"
    using n1 by auto
qed

theorem netlink_compat_roundtrip_witness:
  "\<exists>n' p tb'. add_compat False demo_msg 64 5 [9, 9, 9] [(1, [5, 6])] = Inr (16, n') \<and>
     nested_compat_macro False n' 1 16 3 = Inr (Some p, 0, Some tb') \<and> take 3 (drop p n') = [9, 9, 9] \<and>
     map (attr_data False n') tb' = [None, Some [5, 6]]"
proof -
  let ?as = "[(1, [5, 6])] :: (nat \<times> byte list) list" and ?data = "[9, 9, 9] :: byte list"
  have m: "map (map_of (rev ?as)) [0..<Suc 1] = [None, Some [5, 6]]" and l: "length ?data = 3" by (simp_all add: upt_rec)
  have prems: "4 dvd (16 :: nat)" "4 \<le> (16 :: nat)" "int 16 \<le> 64" "64 \<le> int (length demo_msg)" "length demo_msg < 2 ^ 31"
      "list_all attr_ok ?as" "length ?data \<le> 65531"
      "int (16 + (8 + nl_align (length ?data) + attrs_size ?as)) \<le> 64" "8 + nl_align (length ?data) + attrs_size ?as < 65536"
      "5 < (65536 :: nat)" "5 \<le> (5 :: nat)"
    by (simp_all add: demo_msg_length attr_ok_def nl_align_def)
  show ?thesis
    using conjunct1 [OF netlink_compat_roundtrip [OF demo_msg_len prems, of 1, unfolded m l]]
    by (elim exE conjE) (intro exI conjI, assumption+)
qed

end
