(* ===== verification/Netlink.thy ===== *)
theory Netlink
  imports Netlink_Attr
begin

text \<open>
  The rtnetlink service routines of src/libnetlink/libnetlink.c: opening and closing the socket, sending
  requests, and the loops that receive. The kernel is a parameter: \<open>nl_answers k\<close> is how the k-th system
  call ends, a negative number \<open>-e\<close> meaning that it returns -1 and sets \<open>errno\<close> to \<open>e\<close>, \<open>inbox\<close> what the
  socket delivers in order, each datagram with its sender. A loop that waits for more than the inbox holds
  has no result (\<open>None\<close>). A filter gets the sender, the receive buffer, the offset of the message and its
  argument, as the C callback does.
\<close>

unbundle bit_operations_syntax

datatype sockopt = SO_SNDBUF | SO_RCVBUF

datatype nl_call = Socket int | Setsockopt int sockopt nat | Bind int nat | Getsockname int | Close int
  | Send int "byte list" | Recv int

datatype recv_event = Recv_Error int | Datagram "byte list" nat nat

record rtnl_handle =
  fd :: int
  local_family :: nat
  local_pid :: nat
  local_groups :: nat
  seq :: nat
  dump :: nat

record sock_name =
  name_len :: nat
  name_family :: nat
  name_pid :: nat
  name_groups :: nat

record nl_world =
  nl_answers :: "nat \<Rightarrow> int"
  nl_calls :: "nl_call list"
  sock_names :: "nat \<Rightarrow> sock_name"
  inbox :: "recv_event list"
  nl_errno :: int
  nl_time :: nat

definition NETLINK_ROUTE :: int where [simp]: "NETLINK_ROUTE = 0"
definition AF_NETLINK :: nat where [simp]: "AF_NETLINK = 16"
definition NLMSG_ERROR :: nat where [simp]: "NLMSG_ERROR = 2"
definition NLMSG_DONE :: nat where [simp]: "NLMSG_DONE = 3"
definition EINTR :: int where [simp]: "EINTR = 4"
definition EAGAIN :: int where [simp]: "EAGAIN = 11"
definition SOCKADDR_NL_SIZE :: nat where [simp]: "SOCKADDR_NL_SIZE = 12"

definition nl_call :: "nl_call \<Rightarrow> nl_world \<Rightarrow> int \<times> nl_world" where
  "nl_call c w =
     (let a = nl_answers w (length (nl_calls w)); w' = w\<lparr>nl_calls := nl_calls w @ [c]\<rparr> in
      if a < 0 then (- 1, w'\<lparr>nl_errno := - a\<rparr>) else (a, w'))"

definition u32_add :: "nat \<Rightarrow> nat \<Rightarrow> nat" where
  "u32_add x y = (x + y) mod 2 ^ 32"

definition s32 :: "int \<Rightarrow> int" where
  "s32 x = (x + 2 ^ 31) mod 2 ^ 32 - 2 ^ 31"

subsection \<open>Opening, closing and sending\<close>

definition rtnl_close :: "rtnl_handle \<Rightarrow> nl_world \<Rightarrow> rtnl_handle \<times> nl_world" where
  "rtnl_close rth w =
     (if 0 \<le> fd rth then (rth\<lparr>fd := - 1\<rparr>, snd (nl_call (Close (fd rth)) w)) else (rth, w))"

text \<open>\<open>memset(rth, 0, ...)\<close> comes first, so what the handle held before does not matter.\<close>

definition rtnl_open_byproto :: "nat \<Rightarrow> int \<Rightarrow> nl_world \<Rightarrow> int \<times> rtnl_handle \<times> nl_world" where
  "rtnl_open_byproto subscriptions protocol w =
     (let (s, w1) = nl_call (Socket protocol) w;
          rth = \<lparr>fd = s, local_family = 0, local_pid = 0, local_groups = 0, seq = 0, dump = 0\<rparr> in
      if s < 0 then (- 1, rth, w1)
      else
        let (r, w2) = nl_call (Setsockopt s SO_SNDBUF 32768) w1 in
        if r < 0 then (- 1, rth, w2)
        else
          let (r, w3) = nl_call (Setsockopt s SO_RCVBUF 32768) w2 in
          if r < 0 then (- 1, rth, w3)
          else
            let rth1 = rth\<lparr>local_family := AF_NETLINK, local_groups := subscriptions\<rparr>;
                (r, w4) = nl_call (Bind s subscriptions) w3 in
            if r < 0 then (- 1, rth1, w4)
            else
              let nm = sock_names w4 (length (nl_calls w4)); (r, w5) = nl_call (Getsockname s) w4 in
              if r < 0 then (- 1, rth1, w5)
              else
                let rth2 = rth1\<lparr>local_family := name_family nm, local_pid := name_pid nm, local_groups := name_groups nm\<rparr> in
                if name_len nm \<noteq> SOCKADDR_NL_SIZE then (- 1, rth2, w5)
                else if local_family rth2 \<noteq> AF_NETLINK then (- 1, rth2, w5)
                else (0, rth2\<lparr>seq := nl_time w5 mod 2 ^ 32\<rparr>, w5))"

definition rtnl_open :: "nat \<Rightarrow> nl_world \<Rightarrow> int \<times> rtnl_handle \<times> nl_world" where
  "rtnl_open subscriptions w = rtnl_open_byproto subscriptions NETLINK_ROUTE w"

text \<open>A message header: length, type, flags, sequence number, port.\<close>

definition nlmsghdr :: "bool \<Rightarrow> nat \<Rightarrow> nat \<Rightarrow> nat \<Rightarrow> nat \<Rightarrow> nat \<Rightarrow> byte list" where
  "nlmsghdr be len type flags sq pid = enc be 4 len @ enc be 2 type @ enc be 2 flags @ enc be 4 sq @ enc be 4 pid"

text \<open>\<open>NLM_F_ROOT | NLM_F_MATCH | NLM_F_REQUEST\<close>\<close>

definition DUMP_FLAGS :: nat where "DUMP_FLAGS = 0x301"

text \<open>The request is zeroed first; the header is followed by the family and three bytes of padding.\<close>

definition rtnl_wilddump_request ::
    "bool \<Rightarrow> rtnl_handle \<Rightarrow> nat \<Rightarrow> nat \<Rightarrow> nl_world \<Rightarrow> int \<times> rtnl_handle \<times> nl_world" where
  "rtnl_wilddump_request be rth family type w =
     (let s = u32_add (seq rth) 1;
          rth' = rth\<lparr>seq := s, dump := s\<rparr>;
          req = nlmsghdr be 20 type DUMP_FLAGS s 0 @ [word_of_nat family, 0, 0, 0];
          (r, w') = nl_call (Send (fd rth) req) w
      in (r, rth', w'))"

definition rtnl_dump_request ::
    "bool \<Rightarrow> rtnl_handle \<Rightarrow> nat \<Rightarrow> byte list \<Rightarrow> nl_world \<Rightarrow> int \<times> rtnl_handle \<times> nl_world" where
  "rtnl_dump_request be rth type req w =
     (let s = u32_add (seq rth) 1;
          rth' = rth\<lparr>seq := s, dump := s\<rparr>;
          (r, w') = nl_call (Send (fd rth) (nlmsghdr be (16 + length req) type DUMP_FLAGS s 0 @ req)) w
      in (r, rth', w'))"

definition rtnl_send :: "rtnl_handle \<Rightarrow> byte list \<Rightarrow> nl_world \<Rightarrow> int \<times> nl_world" where
  "rtnl_send rth buf w = nl_call (Send (fd rth) buf) w"

subsection \<open>Messages in the receive buffer\<close>

text \<open>\<open>NLMSG_OK(h, status)\<close> gives the length of the message, if there is a whole one.\<close>

definition NLMSG_OK :: "bool \<Rightarrow> byte list \<Rightarrow> nat \<Rightarrow> int \<Rightarrow> nat option outcome" where
  "NLMSG_OK be buf h status =
     (if status < 16 \<or> 2 ^ 31 \<le> status then Inr None
      else obind (load be 4 buf h) (\<lambda>len.
        Inr (if 16 \<le> len \<and> int len \<le> status then Some len else None)))"

text \<open>What a receive into a buffer leaves there; the flag tells that the datagram was cut.\<close>

definition received :: "byte list \<Rightarrow> byte list \<Rightarrow> byte list" where
  "received buf data = take (length buf) data @ drop (length data) buf"

text \<open>\<open>errno = -err->error\<close>, unless the message is too short to hold the error.\<close>

definition nlmsgerr :: "bool \<Rightarrow> byte list \<Rightarrow> nat \<Rightarrow> nat \<Rightarrow> int \<Rightarrow> int outcome" where
  "nlmsgerr be buf h len e =
     (if len < 36 then Inr e else obind (load be 4 buf (h + 16)) (\<lambda>x. Inr (s32 (- s32 (int x)))))"

definition rtnl_send_check ::
    "bool \<Rightarrow> byte list \<Rightarrow> rtnl_handle \<Rightarrow> byte list \<Rightarrow> nl_world \<Rightarrow> (int \<times> nl_world) outcome" where
  "rtnl_send_check be resp rth buf w =
     (let (status, w1) = nl_call (Send (fd rth) buf) w in
      if status < 0 then Inr (status, w1)
      else
        case inbox w1 of
          [] \<Rightarrow> Inr (0, w1\<lparr>nl_errno := EAGAIN\<rparr>)
        | Recv_Error e # rest \<Rightarrow> Inr (if e = EAGAIN then 0 else - 1, w1\<lparr>nl_errno := e, inbox := rest\<rparr>)
        | Datagram data who nl # rest \<Rightarrow>
            (let resp' = received resp data; w2 = w1\<lparr>inbox := rest\<rparr> in
             obind (NLMSG_OK be resp' 0 (int (min (length resp) (length data)))) (\<lambda>ok.
             case ok of
               None \<Rightarrow> Inr (0, w2)
             | Some len \<Rightarrow>
                 obind (load be 2 resp' 4) (\<lambda>ty.
                 if ty = NLMSG_ERROR
                 then obind (nlmsgerr be resp' 0 len (nl_errno w2)) (\<lambda>e. Inr (- 1, w2\<lparr>nl_errno := e\<rparr>))
                 else Inr (- 1, w2)))))"

type_synonym 'a nl_filter = "nat \<Rightarrow> byte list \<Rightarrow> nat \<Rightarrow> 'a \<Rightarrow> (int \<times> 'a) outcome"

definition call_junk :: "'b nl_filter option \<Rightarrow> nat \<Rightarrow> byte list \<Rightarrow> nat \<Rightarrow> 'b \<Rightarrow> (int \<times> 'b) outcome" where
  "call_junk junk who buf h b = (case junk of None \<Rightarrow> Inr (0, b) | Some f \<Rightarrow> f who buf h b)"

text \<open>The state of a walk over the messages of a datagram: both arguments and \<open>errno\<close>.\<close>

lemma nl_align_ge: "16 \<le> len \<Longrightarrow> int len \<le> status \<Longrightarrow> status < 2 ^ 31 \<Longrightarrow> 16 \<le> nl_align len"
  using nl_align_bounds [of len] by simp

lemma NLMSG_OK_Some: "NLMSG_OK be buf h status = Inr (Some len) \<Longrightarrow>
  16 \<le> len \<and> int len \<le> status \<and> status < 2 ^ 31 \<and> h + 4 \<le> length buf"
  by (auto simp: NLMSG_OK_def load_def split: if_splits)

function dump_walk :: "bool \<Rightarrow> 'a nl_filter \<Rightarrow> 'b nl_filter option \<Rightarrow> rtnl_handle \<Rightarrow> nat \<Rightarrow> byte list \<Rightarrow>
    nat \<Rightarrow> int \<Rightarrow> 'a \<Rightarrow> 'b \<Rightarrow> int \<Rightarrow> (int option \<times> int \<times> 'a \<times> 'b \<times> int) outcome" where
  "dump_walk be flt junk rth who buf h status a b e =
     (case NLMSG_OK be buf h status of
        Inl x \<Rightarrow> Inl x
      | Inr None \<Rightarrow> Inr (None, status, a, b, e)
      | Inr (Some len) \<Rightarrow>
          (case (load be 4 buf (h + 12), load be 4 buf (h + 8), load be 2 buf (h + 4)) of
             (Inr pid, Inr sq, Inr ty) \<Rightarrow>
               if who \<noteq> 0 \<or> pid \<noteq> local_pid rth \<or> sq \<noteq> dump rth then
                 (case call_junk junk who buf h b of
                    Inl x \<Rightarrow> Inl x
                  | Inr (err, b') \<Rightarrow>
                      if err < 0 then Inr (Some err, status, a, b', e)
                      else dump_walk be flt junk rth who buf (h + nl_align len) (status - int (nl_align len)) a b' e)
               else if ty = NLMSG_DONE then Inr (Some 0, status, a, b, e)
               else if ty = NLMSG_ERROR then
                 (case nlmsgerr be buf h len e of Inl x \<Rightarrow> Inl x | Inr e' \<Rightarrow> Inr (Some (- 1), status, a, b, e'))
               else
                 (case flt who buf h a of
                    Inl x \<Rightarrow> Inl x
                  | Inr (err, a') \<Rightarrow>
                      if err < 0 then Inr (Some err, status, a', b, e)
                      else dump_walk be flt junk rth who buf (h + nl_align len) (status - int (nl_align len)) a' b e)
           | _ \<Rightarrow> Inl Out_Of_Bounds))"
  by pat_completeness auto
termination
  by (relation "measure (\<lambda>(be, flt, junk, rth, who, buf, h, status, a, b, e). nat status)")
    (auto dest!: NLMSG_OK_Some dest: nl_align_ge)

declare dump_walk.simps [simp del]

fun dump_loop :: "bool \<Rightarrow> 'a nl_filter \<Rightarrow> 'b nl_filter option \<Rightarrow> rtnl_handle \<Rightarrow> byte list \<Rightarrow> recv_event list \<Rightarrow>
    'a \<Rightarrow> 'b \<Rightarrow> int \<Rightarrow> (int \<times> 'a \<times> 'b \<times> int \<times> recv_event list) outcome option" where
  "dump_loop be flt junk rth buf [] a b e = None"
| "dump_loop be flt junk rth buf (Recv_Error en # rest) a b e =
     (if en = EINTR \<or> en = EAGAIN then dump_loop be flt junk rth buf rest a b en
      else Some (Inr (- 1, a, b, en, rest)))"
| "dump_loop be flt junk rth buf (Datagram data who nl # rest) a b e =
     (let buf' = received buf data; status = int (min (length buf) (length data)) in
      if status = 0 then Some (Inr (- 1, a, b, e, rest))
      else case dump_walk be flt junk rth who buf' 0 status a b e of
          Inl x \<Rightarrow> Some (Inl x)
        | Inr (Some r, _, a', b', e') \<Rightarrow> Some (Inr (r, a', b', e', rest))
        | Inr (None, status', a', b', e') \<Rightarrow>
            if length buf < length data then dump_loop be flt junk rth buf' rest a' b' e'
            else if status' \<noteq> 0 then Some (Inl (Process_Exit 1))
            else dump_loop be flt junk rth buf' rest a' b' e')"

text \<open>\<open>buf0\<close> is what the 16384 bytes of the local buffer held before.\<close>

definition rtnl_dump_filter :: "bool \<Rightarrow> byte list \<Rightarrow> rtnl_handle \<Rightarrow> 'a nl_filter \<Rightarrow> 'a \<Rightarrow> 'b nl_filter option \<Rightarrow> 'b \<Rightarrow>
    nl_world \<Rightarrow> (int \<times> 'a \<times> 'b \<times> nl_world) outcome option" where
  "rtnl_dump_filter be buf0 rth flt arg1 junk arg2 w =
     (case dump_loop be flt junk rth buf0 (inbox w) arg1 arg2 (nl_errno w) of
        None \<Rightarrow> None
      | Some (Inl x) \<Rightarrow> Some (Inl x)
      | Some (Inr (r, a, b, e, rest)) \<Rightarrow> Some (Inr (r, a, b, w\<lparr>inbox := rest, nl_errno := e\<rparr>)))"

subsection \<open>Request and answer\<close>

text \<open>
  The length is an \<open>int\<close> here: both the guard \<open>l < 0\<close> and the loop condition, which compares
  \<open>status\<close> as an unsigned number, are written with the conversions of the code.
\<close>

lemma s32_id: "- (2 ^ 31) \<le> x \<Longrightarrow> x < 2 ^ 31 \<Longrightarrow> s32 x = x"
  by (simp add: s32_def)

lemma s32_high: "2 ^ 31 \<le> x \<Longrightarrow> x < 2 ^ 32 \<Longrightarrow> s32 x = x - 2 ^ 32"
proof -
  assume x: "2 ^ 31 \<le> x" "x < 2 ^ 32"
  have "(x + 2 ^ 31) mod 2 ^ 32 = (x + 2 ^ 31 - 2 ^ 32) mod 2 ^ 32" by (rule minus_mod_self2 [symmetric])
  also have "\<dots> = x + 2 ^ 31 - 2 ^ 32" using x by (intro mod_pos_pos_trivial) auto
  finally show ?thesis by (simp add: s32_def)
qed

lemma payload_length_nonneg:
  assumes "L < 2 ^ 32" and "0 \<le> s32 (s32 (int L) - 16)"
  shows "16 \<le> L \<and> 16 \<le> nl_align L"
proof (cases "L < 2 ^ 31")
  case True
  then have "s32 (int L) = int L" by (intro s32_id) auto
  moreover have "s32 (int L - 16) = int L - 16" using True by (intro s32_id) auto
  ultimately show ?thesis using assms True nl_align_bounds [of L] by auto
next
  case False
  have h: "s32 (int L) = int L - 2 ^ 32" using False assms(1) by (intro s32_high) auto
  have "L < 2 ^ 31 + 16"
  proof (rule ccontr)
    assume "\<not> L < 2 ^ 31 + 16"
    then have "s32 (int L - 2 ^ 32 - 16) = int L - 2 ^ 32 - 16" using assms(1) by (intro s32_id) auto
    then show False using assms h by simp
  qed
  then show ?thesis using False nl_align_bounds [of L] by auto
qed

definition copy_answer :: "nat option \<Rightarrow> byte list \<Rightarrow> nat \<Rightarrow> nat \<Rightarrow> byte list option outcome" where
  "copy_answer answer buf h n =
     (case answer of
        None \<Rightarrow> Inr None
      | Some capacity \<Rightarrow>
          if n \<le> capacity \<and> h + n \<le> length buf then Inr (Some (take n (drop h buf))) else Inl Out_Of_Bounds)"

function talk_walk :: "bool \<Rightarrow> 'b nl_filter option \<Rightarrow> nat \<Rightarrow> nat \<Rightarrow> rtnl_handle \<Rightarrow> nat option \<Rightarrow> bool \<Rightarrow> nat \<Rightarrow>
    byte list \<Rightarrow> nat \<Rightarrow> int \<Rightarrow> 'b \<Rightarrow> int \<Rightarrow> (int option \<times> int \<times> byte list option \<times> 'b \<times> int) outcome" where
  "talk_walk be junk peer sq rtnl answer trunc who buf h status b e =
     (if u32 status < 16 then Inr (None, status, None, b, e)
      else case load be 4 buf h of
          Inl x \<Rightarrow> Inl x
        | Inr L \<Rightarrow>
            (let len = s32 (int L); l = s32 (len - 16) in
             if l < 0 \<or> status < len then
               (if trunc then Inr (Some (- 1), status, None, b, e) else Inl (Process_Exit 1))
             else case (load be 4 buf (h + 12), load be 4 buf (h + 8), load be 2 buf (h + 4)) of
                 (Inr pid, Inr s, Inr ty) \<Rightarrow>
                   if who \<noteq> peer \<or> pid \<noteq> local_pid rtnl \<or> s \<noteq> sq then
                     (case call_junk junk who buf h b of
                        Inl x \<Rightarrow> Inl x
                      | Inr (err, b') \<Rightarrow>
                          if err < 0 then Inr (Some err, status, None, b', e)
                          else talk_walk be junk peer sq rtnl answer trunc who buf (h + nl_align L)
                                 (s32 (status - int (nl_align L))) b' e)
                   else if ty = NLMSG_ERROR then
                     (if l < 20 then Inr (Some (- 1), status, None, b, e)
                      else case nlmsgerr be buf h 36 e of
                          Inl x \<Rightarrow> Inl x
                        | Inr e' \<Rightarrow>
                            if e' = 0 then
                              (case copy_answer answer buf h L of
                                 Inl x \<Rightarrow> Inl x | Inr ans \<Rightarrow> Inr (Some 0, status, ans, b, e'))
                            else Inr (Some (- 1), status, None, b, e'))
                   else
                     (case answer of
                        Some _ \<Rightarrow>
                          (case copy_answer answer buf h L of
                             Inl x \<Rightarrow> Inl x | Inr ans \<Rightarrow> Inr (Some 0, status, ans, b, e))
                      | None \<Rightarrow>
                          talk_walk be junk peer sq rtnl answer trunc who buf (h + nl_align L)
                            (s32 (status - int (nl_align L))) b e)
               | _ \<Rightarrow> Inl Out_Of_Bounds))"
  by pat_completeness auto
termination
proof (relation "measure (\<lambda>(be, junk, peer, sq, rtnl, answer, trunc, who, buf, h, status, b, e). length buf - h)",
    goal_cases)
  case 1
  then show ?case by simp
next
  case (2 be junk peer sq rtnl answer trunc who buf h status b e L)
  then have "16 \<le> nl_align L" using payload_length_nonneg [of L] load_less [of be 4 buf h L] by simp
  moreover have "h + 4 \<le> length buf" using 2 by (simp add: load_def split: if_splits)
  ultimately show ?case by simp
next
  case (3 be junk peer sq rtnl answer trunc who buf h status b e L)
  then have "16 \<le> nl_align L" using payload_length_nonneg [of L] load_less [of be 4 buf h L] by simp
  moreover have "h + 4 \<le> length buf" using 3 by (simp add: load_def split: if_splits)
  ultimately show ?case by simp
qed

declare talk_walk.simps [simp del]

fun talk_loop :: "bool \<Rightarrow> 'b nl_filter option \<Rightarrow> nat \<Rightarrow> nat \<Rightarrow> rtnl_handle \<Rightarrow> nat option \<Rightarrow> byte list \<Rightarrow>
    recv_event list \<Rightarrow> 'b \<Rightarrow> int \<Rightarrow> (int \<times> byte list option \<times> 'b \<times> int \<times> recv_event list) outcome option" where
  "talk_loop be junk peer sq rtnl answer buf [] b e = None"
| "talk_loop be junk peer sq rtnl answer buf (Recv_Error en # rest) b e =
     (if en = EINTR \<or> en = EAGAIN then talk_loop be junk peer sq rtnl answer buf rest b en
      else Some (Inr (- 1, None, b, en, rest)))"
| "talk_loop be junk peer sq rtnl answer buf (Datagram data who nl # rest) b e =
     (let buf' = received buf data; status = int (min (length buf) (length data)); trunc = length buf < length data in
      if status = 0 then Some (Inr (- 1, None, b, e, rest))
      else if nl \<noteq> SOCKADDR_NL_SIZE then Some (Inl (Process_Exit 1))
      else case talk_walk be junk peer sq rtnl answer trunc who buf' 0 status b e of
          Inl x \<Rightarrow> Some (Inl x)
        | Inr (Some r, _, ans, b', e') \<Rightarrow> Some (Inr (r, ans, b', e', rest))
        | Inr (None, status', _, b', e') \<Rightarrow>
            if trunc then talk_loop be junk peer sq rtnl answer buf' rest b' e'
            else if status' \<noteq> 0 then Some (Inl (Process_Exit 1))
            else talk_loop be junk peer sq rtnl answer buf' rest b' e')"

text \<open>
  The request \<open>n\<close> gets its sequence number and, when no answer is wanted, the flag that asks for an
  acknowledgement (bit 2); then as many bytes are sent as its length said on entry.
\<close>

definition rtnl_talk :: "bool \<Rightarrow> rtnl_handle \<Rightarrow> byte list \<Rightarrow> int \<Rightarrow> nat option \<Rightarrow> 'b nl_filter option \<Rightarrow> 'b \<Rightarrow>
    nl_world \<Rightarrow> (int \<times> byte list option \<times> 'b \<times> rtnl_handle \<times> byte list \<times> nl_world) outcome option" where
  "rtnl_talk be rtnl n peer answer junk jarg w =
     (let sq = u32_add (seq rtnl) 1; rtnl' = rtnl\<lparr>seq := sq\<rparr> in
      case obind (nlmsg_len be n) (\<lambda>len.
           obind (store be 4 sq n 8) (\<lambda>n1.
           obind (load be 2 n1 6) (\<lambda>flags.
           obind (if answer = None then store be 2 (unat ((word_of_nat flags :: 16 word) OR 4)) n1 6 else Inr n1) (\<lambda>n2.
           if length n2 < len then Inl Out_Of_Bounds else Inr (len, n2))))) of
        Inl x \<Rightarrow> Some (Inl x)
      | Inr (len, n2) \<Rightarrow>
          (let (r, w1) = nl_call (Send (fd rtnl) (take len n2)) w in
           if r < 0 then Some (Inr (- 1, None, jarg, rtnl', n2, w1))
           else case talk_loop be junk (u32 peer) sq rtnl' answer (replicate 16384 0) (inbox w1) jarg (nl_errno w1) of
               None \<Rightarrow> None
             | Some (Inl x) \<Rightarrow> Some (Inl x)
             | Some (Inr (r, ans, b, e, rest)) \<Rightarrow>
                 Some (Inr (r, ans, b, rtnl', n2, w1\<lparr>inbox := rest, nl_errno := e\<rparr>))))"

subsection \<open>Listening and reading from a file\<close>

function listen_walk :: "bool \<Rightarrow> 'a nl_filter \<Rightarrow> bool \<Rightarrow> nat \<Rightarrow> byte list \<Rightarrow> nat \<Rightarrow> int \<Rightarrow> 'a \<Rightarrow>
    (int option \<times> int \<times> 'a) outcome" where
  "listen_walk be handler trunc who buf h status a =
     (if u32 status < 16 then Inr (None, status, a)
      else case load be 4 buf h of
          Inl x \<Rightarrow> Inl x
        | Inr L \<Rightarrow>
            (let len = s32 (int L); l = s32 (len - 16) in
             if l < 0 \<or> status < len then (if trunc then Inr (Some (- 1), status, a) else Inl (Process_Exit 1))
             else case handler who buf h a of
                 Inl x \<Rightarrow> Inl x
               | Inr (err, a') \<Rightarrow>
                   if err < 0 then Inr (Some err, status, a')
                   else listen_walk be handler trunc who buf (h + nl_align L) (s32 (status - int (nl_align L))) a'))"
  by pat_completeness auto
termination
proof (relation "measure (\<lambda>(be, handler, trunc, who, buf, h, status, a). length buf - h)", goal_cases)
  case 1
  then show ?case by simp
next
  case (2 be handler trunc who buf h status a L)
  then have "16 \<le> nl_align L" using payload_length_nonneg [of L] load_less [of be 4 buf h L] by simp
  moreover have "h + 4 \<le> length buf" using 2 by (simp add: load_def split: if_splits)
  ultimately show ?case by simp
qed

declare listen_walk.simps [simp del]

fun listen_loop :: "bool \<Rightarrow> 'a nl_filter \<Rightarrow> byte list \<Rightarrow> recv_event list \<Rightarrow> 'a \<Rightarrow> int \<Rightarrow>
    (int \<times> 'a \<times> int \<times> recv_event list) outcome option" where
  "listen_loop be handler buf [] a e = None"
| "listen_loop be handler buf (Recv_Error en # rest) a e =
     (if en = EINTR \<or> en = EAGAIN then listen_loop be handler buf rest a en else Some (Inr (- 1, a, en, rest)))"
| "listen_loop be handler buf (Datagram data who nl # rest) a e =
     (let buf' = received buf data; status = int (min (length buf) (length data)); trunc = length buf < length data in
      if status = 0 then Some (Inr (- 1, a, e, rest))
      else if nl \<noteq> SOCKADDR_NL_SIZE then Some (Inl (Process_Exit 1))
      else case listen_walk be handler trunc who buf' 0 status a of
          Inl x \<Rightarrow> Some (Inl x)
        | Inr (Some r, _, a') \<Rightarrow> Some (Inr (r, a', e, rest))
        | Inr (None, status', a') \<Rightarrow>
            if trunc then listen_loop be handler buf' rest a' e
            else if status' \<noteq> 0 then Some (Inl (Process_Exit 1))
            else listen_loop be handler buf' rest a' e)"

definition rtnl_listen :: "bool \<Rightarrow> byte list \<Rightarrow> 'a nl_filter \<Rightarrow> 'a \<Rightarrow> nl_world \<Rightarrow> (int \<times> 'a \<times> nl_world) outcome option" where
  "rtnl_listen be buf0 handler jarg w =
     (case listen_loop be handler buf0 (inbox w) jarg (nl_errno w) of
        None \<Rightarrow> None
      | Some (Inl x) \<Rightarrow> Some (Inl x)
      | Some (Inr (r, a, e, rest)) \<Rightarrow> Some (Inr (r, a, w\<lparr>inbox := rest, nl_errno := e\<rparr>)))"

text \<open>
  \<open>buf\<close> are the 8192 bytes of the local buffer; \<open>fread\<close> returns a number of bytes, so its results are
  never negative. Each round reads at least one byte of the file.
\<close>

function from_file_loop :: "bool \<Rightarrow> 'a nl_filter \<Rightarrow> byte list \<Rightarrow> byte list \<Rightarrow> 'a \<Rightarrow> (int \<times> 'a) outcome" where
  "from_file_loop be handler buf file a =
     (if file = [] then Inr (0, a)
      else
        let buf1 = received buf (take 16 file); rest = drop 16 file in
        case load be 4 buf1 0 of
          Inl x \<Rightarrow> Inl x
        | Inr L \<Rightarrow>
            (let len = s32 (int L); l = s32 (len - 16) in
             if l < 0 \<or> int (length buf) < len \<or> len < 0 then Inr (- 1, a)
             else
               let want = nl_align (nat l); data = take want rest; status = length data in
               if length buf < 16 + status then Inl Out_Of_Bounds
               else if int status < l then Inr (- 1, a)
               else
                 let buf2 = take 16 buf1 @ data @ drop (16 + status) buf1 in
                 case handler 0 buf2 0 a of
                   Inl x \<Rightarrow> Inl x
                 | Inr (err, a') \<Rightarrow>
                     if err < 0 then Inr (err, a')
                     else from_file_loop be handler buf2 (drop want rest) a'))"
  by pat_completeness auto
termination
  by (relation "measure (\<lambda>(be, handler, buf, file, a). length file)") (auto simp: Let_def)

declare from_file_loop.simps [simp del]

definition rtnl_from_file :: "bool \<Rightarrow> byte list \<Rightarrow> byte list \<Rightarrow> 'a nl_filter \<Rightarrow> 'a \<Rightarrow> (int \<times> 'a) outcome" where
  "rtnl_from_file be buf0 file handler jarg = from_file_loop be handler buf0 file jarg"

subsection \<open>Messages\<close>

record nl_msg =
  mtype :: nat
  mflags :: nat
  mseq :: nat
  mpid :: nat
  body :: "byte list"

definition msg_size :: "nl_msg \<Rightarrow> nat" where
  "msg_size m = nl_align (16 + length (body m))"

definition enc_msg :: "bool \<Rightarrow> nl_msg \<Rightarrow> byte list" where
  "enc_msg be m =
     nlmsghdr be (16 + length (body m)) (mtype m) (mflags m) (mseq m) (mpid m) @ body m @
     replicate (msg_size m - (16 + length (body m))) 0"

definition msg_ok :: "nl_msg \<Rightarrow> bool" where
  "msg_ok m \<longleftrightarrow> mtype m < 65536 \<and> mflags m < 65536 \<and> mseq m < 2 ^ 32 \<and> mpid m < 2 ^ 32 \<and> length (body m) \<le> 65535"

text \<open>The message is in the buffer, at offset \<open>h\<close>, with its padding.\<close>

definition msg_at :: "bool \<Rightarrow> byte list \<Rightarrow> nat \<Rightarrow> nl_msg \<Rightarrow> bool" where
  "msg_at be buf h m \<longleftrightarrow>
     load be 4 buf h = Inr (16 + length (body m)) \<and> load be 2 buf (h + 4) = Inr (mtype m) \<and>
     load be 4 buf (h + 8) = Inr (mseq m) \<and> load be 4 buf (h + 12) = Inr (mpid m) \<and>
     h + msg_size m \<le> length buf \<and> take (length (body m)) (drop (h + 16) buf) = body m \<and>
     length (body m) \<le> 65535"

fun msgs_at :: "bool \<Rightarrow> byte list \<Rightarrow> nat \<Rightarrow> nl_msg list \<Rightarrow> nat \<Rightarrow> bool" where
  "msgs_at be buf h [] q \<longleftrightarrow> h = q"
| "msgs_at be buf h (m # ms) q \<longleftrightarrow> msg_at be buf h m \<and> msgs_at be buf (h + msg_size m) ms q"

lemma msg_size_bounds: "length (body m) \<le> 65535 \<Longrightarrow> 16 + length (body m) \<le> msg_size m"
  and msg_size_upper: "length (body m) \<le> 65535 \<Longrightarrow> msg_size m < 20 + length (body m)"
  using nl_align_bounds [of "16 + length (body m)"] by (simp_all add: msg_size_def)

lemma enc_msg_length: "length (body m) \<le> 65535 \<Longrightarrow> length (enc_msg be m) = msg_size m"
  using msg_size_bounds [of m] by (simp add: enc_msg_def nlmsghdr_def)

lemma load_append: "length bs = n \<Longrightarrow> p = length pre \<Longrightarrow> load be n (pre @ bs @ post) p = Inr (dec be bs)"
  by (simp add: load_def)

lemma msg_at_enc:
  assumes "msg_ok m"
  shows "msg_at be (pre @ enc_msg be m @ post) (length pre) m"
proof -
  let ?pad = "replicate (msg_size m - (16 + length (body m))) (0::byte)"
  let ?f = "[enc be 4 (16 + length (body m)), enc be 2 (mtype m), enc be 2 (mflags m), enc be 4 (mseq m),
     enc be 4 (mpid m)]"
  let ?b = "pre @ enc_msg be m @ post"
  have b: "?b = pre @ concat ?f @ body m @ ?pad @ post" by (simp add: enc_msg_def nlmsghdr_def)
  have "load be 4 ?b (length pre) = Inr (16 + length (body m))"
    using load_append [of "?f ! 0" 4 "length pre" pre] assms unfolding b by (simp add: dec_enc msg_ok_def)
  moreover have "load be 2 ?b (length pre + 4) = Inr (mtype m)"
    using load_append [of "?f ! 1" 2 "length pre + 4" "pre @ ?f ! 0"] assms unfolding b by (simp add: dec_enc msg_ok_def)
  moreover have "load be 4 ?b (length pre + 8) = Inr (mseq m)"
    using load_append [of "?f ! 3" 4 "length pre + 8" "pre @ ?f ! 0 @ ?f ! 1 @ ?f ! 2"] assms
    unfolding b by (simp add: dec_enc msg_ok_def)
  moreover have "load be 4 ?b (length pre + 12) = Inr (mpid m)"
    using load_append [of "?f ! 4" 4 "length pre + 12" "pre @ ?f ! 0 @ ?f ! 1 @ ?f ! 2 @ ?f ! 3"] assms
    unfolding b by (simp add: dec_enc msg_ok_def)
  moreover have "take (length (body m)) (drop (length pre + 16) ?b) = body m"
    unfolding b by simp
  moreover have "length pre + msg_size m \<le> length ?b"
    using assms enc_msg_length [of m be] by (simp add: msg_ok_def)
  ultimately show ?thesis using assms by (simp add: msg_at_def msg_ok_def)
qed

lemma msgs_at_enc:
  "list_all msg_ok ms \<Longrightarrow>
     msgs_at be (pre @ concat (map (enc_msg be) ms) @ post) (length pre) ms
       (length pre + length (concat (map (enc_msg be) ms)))"
proof (induction ms arbitrary: pre)
  case Nil
  then show ?case by simp
next
  case (Cons m ms)
  have "msg_ok m" using Cons.prems by simp
  then have "length (enc_msg be m) = msg_size m" by (simp add: enc_msg_length msg_ok_def)
  then show ?case
    using Cons.IH [of "pre @ enc_msg be m"] Cons.prems
      msg_at_enc [OF \<open>msg_ok m\<close>, of be pre "concat (map (enc_msg be) ms) @ post"] by (simp add: add.assoc)
qed

lemma msgs_at_le: "msgs_at be buf h ms q \<Longrightarrow> h \<le> q"
  by (induction ms arbitrary: h) fastforce+

lemma msg_at_ok:
  assumes "msg_at be buf h m" and "int (msg_size m) \<le> status" and "status < 2 ^ 31"
  shows "NLMSG_OK be buf h status = Inr (Some (16 + length (body m)))"
  using assms msg_size_bounds [of m] by (auto simp: NLMSG_OK_def msg_at_def)

text \<open>What the error message says: its code with the sign changed, unless it is cut short.\<close>

definition error_of :: "bool \<Rightarrow> nl_msg \<Rightarrow> int \<Rightarrow> int" where
  "error_of be m e =
     (if length (body m) < 20 then e else s32 (- s32 (int (dec be (take 4 (body m))))))"

lemma nlmsgerr_at:
  assumes "msg_at be buf h m"
  shows "nlmsgerr be buf h (16 + length (body m)) e = Inr (error_of be m e)"
proof (cases "length (body m) < 20")
  case True
  then show ?thesis by (simp add: nlmsgerr_def error_of_def)
next
  case False
  have "take 4 (drop (h + 16) buf) = take 4 (take (length (body m)) (drop (h + 16) buf))"
    using False by (simp only: take_take) simp
  also have "take (length (body m)) (drop (h + 16) buf) = body m" using assms by (simp add: msg_at_def)
  finally have "take 4 (drop (h + 16) buf) = take 4 (body m)" .
  moreover have "h + 16 + 4 \<le> length buf"
    using assms False msg_size_bounds [of m] by (simp add: msg_at_def)
  ultimately show ?thesis using False by (simp add: nlmsgerr_def error_of_def load_def)
qed

subsection \<open>Dumps, message by message\<close>

text \<open>
  What a dump means, over messages instead of bytes: a message of another sender, port or sequence number
  is skipped, the end marker ends the dump, an error message or a filter that returns a negative number
  aborts it, any other message goes to the filter.
\<close>

fun dump_msgs :: "bool \<Rightarrow> (nl_msg \<Rightarrow> 'a \<Rightarrow> int \<times> 'a) \<Rightarrow> rtnl_handle \<Rightarrow> nat \<Rightarrow> nl_msg list \<Rightarrow> 'a \<Rightarrow> int \<Rightarrow>
    int option \<times> 'a \<times> int" where
  "dump_msgs be g rth who [] a e = (None, a, e)"
| "dump_msgs be g rth who (m # ms) a e =
     (if who \<noteq> 0 \<or> mpid m \<noteq> local_pid rth \<or> mseq m \<noteq> dump rth then dump_msgs be g rth who ms a e
      else if mtype m = NLMSG_DONE then (Some 0, a, e)
      else if mtype m = NLMSG_ERROR then (Some (- 1), a, error_of be m e)
      else let (r, a') = g m a in if r < 0 then (Some r, a', e) else dump_msgs be g rth who ms a' e)"

fun dump_datagrams :: "bool \<Rightarrow> (nl_msg \<Rightarrow> 'a \<Rightarrow> int \<times> 'a) \<Rightarrow> rtnl_handle \<Rightarrow> (nat \<times> nl_msg list) list \<Rightarrow> 'a \<Rightarrow> int \<Rightarrow>
    (int \<times> 'a \<times> int) option" where
  "dump_datagrams be g rth [] a e = None"
| "dump_datagrams be g rth ((who, ms) # ds) a e =
     (if ms = [] then Some (- 1, a, e)
      else case dump_msgs be g rth who ms a e of
          (Some r, a', e') \<Rightarrow> Some (r, a', e')
        | (None, a', e') \<Rightarrow> dump_datagrams be g rth ds a' e')"

definition datagram :: "bool \<Rightarrow> nat \<times> nl_msg list \<Rightarrow> recv_event" where
  "datagram be d = Datagram (concat (map (enc_msg be) (snd d))) (fst d) SOCKADDR_NL_SIZE"

definition datagram_ok :: "nat \<Rightarrow> (nl_msg \<Rightarrow> bool) \<Rightarrow> nat \<times> nl_msg list \<Rightarrow> bool" where
  "datagram_ok n ok d \<longleftrightarrow> list_all (\<lambda>m. msg_ok m \<and> ok m) (snd d) \<and> sum_list (map msg_size (snd d)) \<le> n"

lemma concat_enc_length:
  "list_all msg_ok ms \<Longrightarrow> length (concat (map (enc_msg be) ms)) = sum_list (map msg_size ms)"
  by (induction ms) (simp_all add: enc_msg_length msg_ok_def)

text \<open>A datagram that fits is received whole.\<close>

lemma received_msgs:
  assumes "list_all msg_ok ms" and "sum_list (map msg_size ms) \<le> length buf"
  shows "msgs_at be (received buf (concat (map (enc_msg be) ms))) 0 ms (length (concat (map (enc_msg be) ms)))"
    and "length (concat (map (enc_msg be) ms)) \<le> length buf"
    and "ms = [] \<longleftrightarrow> length (concat (map (enc_msg be) ms)) = 0"
    and "length (received buf (concat (map (enc_msg be) ms))) = length buf"
proof -
  let ?data = "concat (map (enc_msg be) ms)"
  have len: "length ?data = sum_list (map msg_size ms)" by (rule concat_enc_length [OF assms(1)])
  show fits: "length ?data \<le> length buf" using assms(2) len by linarith
  have "received buf ?data = [] @ ?data @ drop (length ?data) buf" using fits by (simp add: received_def)
  then show "msgs_at be (received buf ?data) 0 ms (length ?data)"
    using msgs_at_enc [OF assms(1), of be "[]" "drop (length ?data) buf"] by simp
  show "length (received buf ?data) = length buf" using fits by (simp add: received_def)
  show "ms = [] \<longleftrightarrow> length ?data = 0"
  proof (cases ms)
    case (Cons m ms')
    then have "0 < msg_size m" using assms(1) msg_size_bounds [of m] by (simp add: msg_ok_def)
    then show ?thesis using len Cons by simp
  qed simp
qed

text \<open>The messages that a dump hands to its filter.\<close>

definition answers_dump :: "rtnl_handle \<Rightarrow> nl_msg \<Rightarrow> bool" where
  "answers_dump rth m \<longleftrightarrow> mpid m = local_pid rth \<and> mseq m = dump rth \<and> mtype m \<noteq> NLMSG_DONE \<and> mtype m \<noteq> NLMSG_ERROR"

text \<open>
  The contract of a filter: on a message in the buffer that satisfies \<open>ok\<close> it computes \<open>g\<close> of the
  message, wherever the message is, and keeps the invariant \<open>P\<close> of its argument.
\<close>

locale msg_filter =
  fixes be :: bool and flt :: "'a nl_filter" and g :: "nl_msg \<Rightarrow> 'a \<Rightarrow> int \<times> 'a" and ok :: "nl_msg \<Rightarrow> bool"
    and P :: "'a \<Rightarrow> bool"
  assumes flt_law: "msg_at be buf h m \<Longrightarrow> ok m \<Longrightarrow> P a \<Longrightarrow> flt who buf h a = Inr (g m a)"
    and flt_inv: "ok m \<Longrightarrow> P a \<Longrightarrow> P (snd (g m a))"
begin

lemma dump_msgs_inv:
  "list_all (\<lambda>m. answers_dump rth m \<longrightarrow> ok m) ms \<Longrightarrow> P a \<Longrightarrow> dump_msgs be g rth who ms a e = (r, a', e') \<Longrightarrow> P a'"
proof (induction ms arbitrary: a)
  case (Cons m ms)
  have "answers_dump rth m \<Longrightarrow> P (snd (g m a))" using Cons.prems flt_inv by simp
  then show ?case
    using Cons by (auto simp: answers_dump_def split: if_splits prod.splits)
qed simp

lemma walk_refines:
  assumes "msgs_at be buf h ms q" and "list_all (\<lambda>m. answers_dump rth m \<longrightarrow> ok m) ms"
    and "q - h < 2 ^ 31" and "P a"
  shows "\<exists>status. dump_walk be flt (None :: 'b nl_filter option) rth who buf h (int q - int h) a b e =
     (case dump_msgs be g rth who ms a e of (r, a', e') \<Rightarrow> Inr (r, status, a', b, e')) \<and>
     (fst (dump_msgs be g rth who ms a e) = None \<longrightarrow> status = 0)"
  using assms
proof (induction ms arbitrary: h a e)
  case Nil
  then show ?case by (subst dump_walk.simps) (simp add: NLMSG_OK_def)
next
  case (Cons m ms)
  let ?h = "h + msg_size m"
  have m: "msg_at be buf h m" "msgs_at be buf ?h ms q" "answers_dump rth m \<longrightarrow> ok m" using Cons.prems by simp_all
  have law: "answers_dump rth m \<Longrightarrow> flt x buf h a = Inr (g m a)" for x
    using flt_law [OF m(1)] m(3) Cons.prems(4) by blast
  have hq: "?h \<le> q" using msgs_at_le [OF m(2)] .
  have ok: "NLMSG_OK be buf h (int q - int h) = Inr (Some (16 + length (body m)))"
    using hq Cons.prems(3) by (intro msg_at_ok [OF m(1)]) auto
  have ld: "load be 4 buf (h + 12) = Inr (mpid m)" "load be 4 buf (h + 8) = Inr (mseq m)"
      "load be 2 buf (h + 4) = Inr (mtype m)" using m(1) by (simp_all add: msg_at_def)
  have st: "int q - int h - int (nl_align (16 + length (body m))) = int q - int ?h"
    by (simp add: msg_size_def)
  have h': "h + nl_align (16 + length (body m)) = ?h" by (simp add: msg_size_def)
  note IH = Cons.IH [OF m(2)]
  have small: "q - ?h < 2 ^ 31" "list_all (\<lambda>m. answers_dump rth m \<longrightarrow> ok m) ms" using Cons.prems(2,3) by auto
  have unf: "dump_walk be flt None rth who buf h (int q - int h) a b e =
      (if who \<noteq> 0 \<or> mpid m \<noteq> local_pid rth \<or> mseq m \<noteq> dump rth
       then dump_walk be flt (None :: 'b nl_filter option) rth who buf ?h (int q - int ?h) a b e
       else if mtype m = NLMSG_DONE then Inr (Some 0, int q - int h, a, b, e)
       else if mtype m = NLMSG_ERROR then Inr (Some (- 1), int q - int h, a, b, error_of be m e)
       else case g m a of (err, a') \<Rightarrow> if err < 0 then Inr (Some err, int q - int h, a', b, e)
         else dump_walk be flt None rth who buf ?h (int q - int ?h) a' b e)"
    by (subst dump_walk.simps)
      (simp add: ok ld st h' call_junk_def nlmsgerr_at [OF m(1)] law [unfolded answers_dump_def]
        del: of_nat_add split: prod.split)
  obtain r a1 where g: "g m a = (r, a1)" by (cases "g m a")
  have P1: "answers_dump rth m \<Longrightarrow> P a1" using flt_inv [OF _ Cons.prems(4)] m(3) g by fastforce
  have "answers_dump rth m \<Longrightarrow> \<exists>status. dump_walk be flt (None :: 'b nl_filter option) rth who buf ?h (int q - int ?h) a1 b e =
     (case dump_msgs be g rth who ms a1 e of (r, a', e') \<Rightarrow> Inr (r, status, a', b, e')) \<and>
     (fst (dump_msgs be g rth who ms a1 e) = None \<longrightarrow> status = 0)"
    by (rule IH [OF small(2,1) P1])
  then show ?case
    unfolding unf using IH [OF small(2,1) Cons.prems(4), of e] by (cases "who = 0") (simp_all add: g answers_dump_def)
qed

lemma loop_refines:
  assumes "list_all (datagram_ok (length buf) (\<lambda>m. answers_dump rth m \<longrightarrow> ok m)) ds" and "length buf < 2 ^ 31" and "P a"
  shows "case dump_datagrams be g rth ds a e of
      None \<Rightarrow> dump_loop be flt (None :: 'b nl_filter option) rth buf (map (datagram be) ds) a b e = None
    | Some (r, a', e') \<Rightarrow> \<exists>rest.
        dump_loop be flt (None :: 'b nl_filter option) rth buf (map (datagram be) ds) a b e =
          Some (Inr (r, a', b, e', rest))"
  using assms
proof (induction ds arbitrary: buf a e)
  case Nil
  then show ?case by simp
next
  case (Cons d ds)
  obtain who ms where d: "d = (who, ms)" by (cases d)
  let ?data = "concat (map (enc_msg be) ms)"
  let ?buf = "received buf ?data"
  have ok: "list_all msg_ok ms" "list_all (\<lambda>m. answers_dump rth m \<longrightarrow> ok m) ms" "sum_list (map msg_size ms) \<le> length buf"
    using Cons.prems(1) by (auto simp: d datagram_ok_def list_all_iff)
  note at = received_msgs [OF ok(1,3), of be]
  have stat: "int (min (length buf) (length ?data)) = int (length ?data) - int 0" using at(2) by simp
  obtain status where w: "dump_walk be flt (None :: 'b nl_filter option) rth who ?buf 0 (int (length ?data) - int 0) a b e =
       (case dump_msgs be g rth who ms a e of (r, a', e') \<Rightarrow> Inr (r, status, a', b, e'))"
      "fst (dump_msgs be g rth who ms a e) = None \<longrightarrow> status = 0"
    using walk_refines [OF at(1) ok(2) _ Cons.prems(3), of who b e] at(2) Cons.prems(2) by auto
  have IH: "\<And>a e. P a \<Longrightarrow> case dump_datagrams be g rth ds a e of
      None \<Rightarrow> dump_loop be flt (None :: 'b nl_filter option) rth ?buf (map (datagram be) ds) a b e = None
    | Some (r, a', e') \<Rightarrow> \<exists>rest.
        dump_loop be flt (None :: 'b nl_filter option) rth ?buf (map (datagram be) ds) a b e =
          Some (Inr (r, a', b, e', rest))"
    using Cons.IH [of ?buf] Cons.prems at(4) by auto
  have loop: "dump_loop be flt (None :: 'b nl_filter option) rth buf (map (datagram be) (d # ds)) a b e =
      (if ms = [] then Some (Inr (- 1, a, b, e, map (datagram be) ds))
       else case dump_msgs be g rth who ms a e of
           (Some r, a', e') \<Rightarrow> Some (Inr (r, a', b, e', map (datagram be) ds))
         | (None, a', e') \<Rightarrow> dump_loop be flt None rth ?buf (map (datagram be) ds) a' b e')"
    unfolding list.map d datagram_def dump_loop.simps snd_conv fst_conv Let_def stat w(1)
    using at(2,3) w(2) by (auto split: prod.splits option.splits)
  obtain r0 a0 e0 where m: "dump_msgs be g rth who ms a e = (r0, a0, e0)" by (cases "dump_msgs be g rth who ms a e")
  have "P a0" by (rule dump_msgs_inv [OF ok(2) Cons.prems(3) m])
  then show ?case
    unfolding loop m using IH [of a0 e0] by (cases r0) (auto simp: d m split: option.splits)
qed

end

lemma dump_filter_refines:
  assumes "msg_filter be flt g ok P" and "list_all (datagram_ok (length buf0) (\<lambda>m. answers_dump rth m \<longrightarrow> ok m)) ds"
    and "length buf0 < 2 ^ 31" and "P a" and "inbox w = map (datagram be) ds" and "dump_datagrams be g rth ds a (nl_errno w) = Some (r, a', e')"
  shows "\<exists>rest. rtnl_dump_filter be buf0 rth flt a (None :: 'b nl_filter option) b w =
    Some (Inr (r, a', b, w\<lparr>inbox := rest, nl_errno := e'\<rparr>))"
  using msg_filter.loop_refines [OF assms(1-4), where ?'b = 'b and e = "nl_errno w" and b = b] assms(5,6)
  by (auto simp: rtnl_dump_filter_def)

text \<open>Fields of the payload, and attributes that fill it from offset \<open>k\<close> on.\<close>

lemma load_body:
  assumes "msg_at be buf h m" and "i + n \<le> length (body m)"
  shows "load be n buf (h + 16 + i) = Inr (dec be (take n (drop i (body m))))"
proof -
  have "take (length (body m)) (drop (h + 16) buf) = body m" using assms(1) by (simp add: msg_at_def)
  from take_drop_inner [OF this assms(2)] show ?thesis
    using assms msg_size_bounds [of m] by (simp add: load_def msg_at_def add.assoc)
qed

lemma parse_body:
  assumes "msg_at be buf h m" and "k \<le> length (body m)" and "attrs_whole be (drop k (body m))"
  shows "\<exists>tb. parse_rtattr be buf mx (h + 16 + k) (int (length (body m)) - int k) = Inr (0, tb) \<and> length tb = Suc mx \<and>
    (\<forall>t \<le> mx. attr_data be buf (tb ! t) = map_of (rev (dec_attrs be (drop k (body m)))) t)"
proof -
  have b: "take (length (body m)) (drop (h + 16) buf) = body m" "h + 16 + length (body m) \<le> length buf"
    using assms(1) msg_size_bounds [of m] by (simp_all add: msg_at_def)
  have "take (length (body m) - k) (drop (h + 16 + k) buf) = drop k (body m)"
    using take_drop_inner [OF b(1), of k "length (body m) - k"] assms(2) by simp
  then have "attrs_at be buf (h + 16 + k) (dec_attrs be (drop k (body m))) (h + 16 + k + length (drop k (body m)))"
    using assms(2) b(2) by (intro attrs_whole_at [OF assms(3)]) auto
  from parse_rtattr_attrs [OF this, of mx] show ?thesis using assms(2) by (simp add: algebra_simps of_nat_diff)
qed

text \<open>
  A dump as the kernel sends it: any number of datagrams with messages that answer the request, the end
  marker after the last message.
\<close>

definition done_msg :: "rtnl_handle \<Rightarrow> nl_msg" where
  "done_msg rth = \<lparr>mtype = NLMSG_DONE, mflags = 2, mseq = dump rth, mpid = local_pid rth, body = [0, 0, 0, 0]\<rparr>"

definition dump_stream :: "rtnl_handle \<Rightarrow> nl_msg list list \<Rightarrow> nl_msg list \<Rightarrow> (nat \<times> nl_msg list) list" where
  "dump_stream rth mss ms = map (Pair 0) mss @ [(0, ms @ [done_msg rth])]"

definition stream_ok :: "nat \<Rightarrow> (nl_msg \<Rightarrow> bool) \<Rightarrow> rtnl_handle \<Rightarrow> nl_msg list list \<Rightarrow> nl_msg list \<Rightarrow> bool" where
  "stream_ok n ok rth mss ms \<longleftrightarrow> dump rth < 2 ^ 32 \<and> local_pid rth < 2 ^ 32 \<and>
     list_all (\<lambda>ms. ms \<noteq> [] \<and> sum_list (map msg_size ms) \<le> n) mss \<and> sum_list (map msg_size ms) + 20 \<le> n \<and>
     list_all (\<lambda>m. msg_ok m \<and> ok m \<and> answers_dump rth m) (concat mss @ ms)"

lemma dump_msgs_append:
  assumes "\<And>m a. fst (g m a) = 0" and "list_all (answers_dump rth) ms"
  shows "dump_msgs be g rth 0 (ms @ ms') a e = dump_msgs be g rth 0 ms' (fold (\<lambda>m a. snd (g m a)) ms a) e"
  using assms(2)
proof (induction ms arbitrary: a)
  case (Cons m ms)
  obtain a1 where "g m a = (0, a1)" using assms(1) [of m a] by (cases "g m a") simp
  then show ?case using Cons by (simp add: answers_dump_def)
qed simp

lemma dump_datagrams_stream:
  assumes "\<And>m a. fst (g m a) = 0" and "list_all (answers_dump rth) (concat mss @ ms)" and "list_all (\<lambda>ms. ms \<noteq> []) mss"
  shows "dump_datagrams be g rth (dump_stream rth mss ms) a e =
    Some (0, fold (\<lambda>m a. snd (g m a)) (concat mss @ ms) a, e)"
  using assms(2,3)
proof (induction mss arbitrary: a)
  case Nil
  then show ?case
    using dump_msgs_append [where g = g and rth = rth and ms = ms and ms' = "[done_msg rth]", OF assms(1)] by (simp add: dump_stream_def done_msg_def)
next
  case (Cons ms1 mss)
  have "dump_msgs be g rth 0 ms1 a e = (None, fold (\<lambda>m a. snd (g m a)) ms1 a, e)"
    using dump_msgs_append [where g = g and rth = rth and ms = ms1 and ms' = "[]", OF assms(1)] Cons.prems by simp
  then show ?case using Cons by (simp add: dump_stream_def)
qed

lemma stream_datagrams_ok:
  assumes "stream_ok n ok rth mss ms"
  shows "list_all (datagram_ok n (\<lambda>m. answers_dump rth m \<longrightarrow> ok m)) (dump_stream rth mss ms)"
proof -
  have "msg_ok (done_msg rth)" "msg_size (done_msg rth) = 20"
    using assms by (simp_all add: stream_ok_def msg_ok_def done_msg_def msg_size_def nl_align_def)
  moreover have "\<not> answers_dump rth (done_msg rth)" by (simp add: done_msg_def answers_dump_def)
  ultimately show ?thesis
    using assms by (auto simp: stream_ok_def dump_stream_def datagram_ok_def list_all_iff)
qed

subsection \<open>Requests that are acknowledged\<close>

text \<open>
  What a request without an answer buffer waits for: the first error message with its own sequence
  number; code 0 is the acknowledgement. Everything else is skipped.
\<close>

fun talk_msgs :: "bool \<Rightarrow> nat \<Rightarrow> nat \<Rightarrow> rtnl_handle \<Rightarrow> nat \<Rightarrow> nl_msg list \<Rightarrow> int \<Rightarrow> int option \<times> int" where
  "talk_msgs be peer sq rtnl who [] e = (None, e)"
| "talk_msgs be peer sq rtnl who (m # ms) e =
     (if who = peer \<and> mpid m = local_pid rtnl \<and> mseq m = sq \<and> mtype m = NLMSG_ERROR
      then (if length (body m) < 20 then (Some (- 1), e)
            else (Some (if error_of be m e = 0 then 0 else - 1), error_of be m e))
      else talk_msgs be peer sq rtnl who ms e)"

fun talk_datagrams :: "bool \<Rightarrow> nat \<Rightarrow> nat \<Rightarrow> rtnl_handle \<Rightarrow> (nat \<times> nl_msg list) list \<Rightarrow> int \<Rightarrow> (int \<times> int) option" where
  "talk_datagrams be peer sq rtnl [] e = None"
| "talk_datagrams be peer sq rtnl ((who, ms) # ds) e =
     (if ms = [] then Some (- 1, e)
      else case talk_msgs be peer sq rtnl who ms e of
          (Some r, e') \<Rightarrow> Some (r, e')
        | (None, e') \<Rightarrow> talk_datagrams be peer sq rtnl ds e')"

lemma u32_nat: "0 \<le> x \<Longrightarrow> x < 2 ^ 32 \<Longrightarrow> u32 x = nat x"
  by (simp add: u32_def)

lemma talk_walk_refines:
  assumes "msgs_at be buf h ms q" and "q - h < 2 ^ 31"
  shows "\<exists>status. talk_walk be (None :: 'b nl_filter option) peer sq rtnl None trunc who buf h (int q - int h) b e =
     (case talk_msgs be peer sq rtnl who ms e of (r, e') \<Rightarrow> Inr (r, status, None, b, e')) \<and>
     (fst (talk_msgs be peer sq rtnl who ms e) = None \<longrightarrow> status = 0)"
  using assms
proof (induction ms arbitrary: h e)
  case Nil
  then show ?case by (subst talk_walk.simps) (simp add: u32_def)
next
  case (Cons m ms)
  let ?h = "h + msg_size m" and ?L = "16 + length (body m)"
  have m: "msg_at be buf h m" "msgs_at be buf ?h ms q" using Cons.prems by simp_all
  have hq: "?h \<le> q" using msgs_at_le [OF m(2)] .
  have L: "?L \<le> msg_size m" "length (body m) \<le> 65535" using m(1) msg_size_bounds [of m] by (simp_all add: msg_at_def)
  have ld: "load be 4 buf h = Inr ?L" "load be 4 buf (h + 12) = Inr (mpid m)" "load be 4 buf (h + 8) = Inr (mseq m)"
      "load be 2 buf (h + 4) = Inr (mtype m)" using m(1) by (simp_all add: msg_at_def)
  have len: "s32 (int ?L) = int ?L" "s32 (int ?L - 16) = int (length (body m))"
    using L by (simp_all add: s32_id)
  have st: "\<not> u32 (int q - int h) < 16" "\<not> int q - int h < int ?L"
    using hq L Cons.prems(2) by (simp_all add: u32_nat nat_less_iff)
  have nx: "s32 (int q - int h - int (nl_align ?L)) = int q - int ?h" "h + nl_align ?L = ?h"
    using hq Cons.prems(2) by (simp_all add: msg_size_def s32_id)
  have er: "nlmsgerr be buf h 36 e = Inr (error_of be m e)" if "\<not> length (body m) < 20"
    using nlmsgerr_at [OF m(1), of e] that by (simp add: nlmsgerr_def)
  have small: "q - ?h < 2 ^ 31" using Cons.prems(2) by auto
  have unf: "talk_walk be (None :: 'b nl_filter option) peer sq rtnl None trunc who buf h (int q - int h) b e =
      (if who = peer \<and> mpid m = local_pid rtnl \<and> mseq m = sq \<and> mtype m = NLMSG_ERROR
       then Inr (if length (body m) < 20 then (Some (- 1), int q - int h, None, b, e)
            else (Some (if error_of be m e = 0 then 0 else - 1), int q - int h, None, b, error_of be m e))
       else talk_walk be None peer sq rtnl None trunc who buf ?h (int q - int ?h) b e)"
    by (subst talk_walk.simps)
      (simp only: ld st len nx if_False sum.case prod.case Let_def option.case call_junk_def copy_answer_def,
        auto simp: er)
  show ?case
    unfolding unf using Cons.IH [OF m(2) small, of e] by simp
qed

lemma talk_loop_refines:
  assumes "list_all (datagram_ok (length buf) (\<lambda>_. True)) ds" and "length buf < 2 ^ 31"
  shows "case talk_datagrams be peer sq rtnl ds e of
      None \<Rightarrow> talk_loop be (None :: 'b nl_filter option) peer sq rtnl None buf (map (datagram be) ds) b e = None
    | Some (r, e') \<Rightarrow> \<exists>rest.
        talk_loop be (None :: 'b nl_filter option) peer sq rtnl None buf (map (datagram be) ds) b e =
          Some (Inr (r, None, b, e', rest))"
  using assms
proof (induction ds arbitrary: buf e)
  case Nil
  then show ?case by simp
next
  case (Cons d ds)
  obtain who ms where d: "d = (who, ms)" by (cases d)
  let ?data = "concat (map (enc_msg be) ms)"
  let ?buf = "received buf ?data"
  have ok: "list_all msg_ok ms" "sum_list (map msg_size ms) \<le> length buf"
    using Cons.prems(1) by (auto simp: d datagram_ok_def list_all_iff)
  note at = received_msgs [OF ok, of be]
  have stat: "int (min (length buf) (length ?data)) = int (length ?data) - int 0" using at(2) by simp
  obtain status where w:
      "talk_walk be (None :: 'b nl_filter option) peer sq rtnl None False who ?buf 0 (int (length ?data) - int 0) b e =
       (case talk_msgs be peer sq rtnl who ms e of (r, e') \<Rightarrow> Inr (r, status, None, b, e'))"
      "fst (talk_msgs be peer sq rtnl who ms e) = None \<longrightarrow> status = 0"
    using talk_walk_refines [OF at(1), of peer sq rtnl False who b e] at(2) Cons.prems(2) by auto
  have trunc: "(length buf < length ?data) = False" using at(2) by simp
  have loop: "talk_loop be (None :: 'b nl_filter option) peer sq rtnl None buf (map (datagram be) (d # ds)) b e =
      (if ms = [] then Some (Inr (- 1, None, b, e, map (datagram be) ds))
       else case talk_msgs be peer sq rtnl who ms e of
           (Some r, e') \<Rightarrow> Some (Inr (r, None, b, e', map (datagram be) ds))
         | (None, e') \<Rightarrow> talk_loop be None peer sq rtnl None ?buf (map (datagram be) ds) b e')"
    unfolding list.map d datagram_def talk_loop.simps snd_conv fst_conv Let_def stat trunc w(1)
    using at(3) w(2) by (auto split: prod.splits option.splits)
  obtain r0 e0 where m: "talk_msgs be peer sq rtnl who ms e = (r0, e0)" by (cases "talk_msgs be peer sq rtnl who ms e")
  show ?case
    unfolding loop m using Cons.IH [of ?buf e0] Cons.prems at(4)
    by (cases r0) (auto simp: d m split: option.splits)
qed

lemma put_bytes_append:
  "length old = length new \<Longrightarrow> p = length pre \<Longrightarrow> put_bytes (pre @ old @ post) p new = Inr (pre @ new @ post)"
  by (simp add: put_bytes_def)

definition with_ack :: "nat \<Rightarrow> nat" where
  "with_ack flags = unat ((word_of_nat flags :: 16 word) OR 4)"

text \<open>The request as it is sent: the sequence number and the flag are written into the encoded message.\<close>

lemma request_with_ack:
  assumes "msg_ok req"
  shows "obind (store be 4 sq (enc_msg be req) 8) (\<lambda>n1. obind (load be 2 n1 6) (\<lambda>flags.
      store be 2 (with_ack flags) n1 6)) = Inr (enc_msg be (req\<lparr>mseq := sq, mflags := with_ack (mflags req)\<rparr>))"
proof -
  let ?a = "enc be 4 (16 + length (body req))" and ?b = "enc be 2 (mtype req)" and ?c = "enc be 2 (mflags req)"
  let ?p = "enc be 4 (mpid req) @ body req @ replicate (msg_size req - (16 + length (body req))) 0"
  have e: "enc_msg be req = (?a @ ?b @ ?c) @ enc be 4 (mseq req) @ ?p" by (simp add: enc_msg_def nlmsghdr_def)
  have n1: "store be 4 sq (enc_msg be req) 8 = Inr ((?a @ ?b @ ?c) @ enc be 4 sq @ ?p)"
    unfolding store_def e by (rule put_bytes_append) simp_all
  have "load be 2 ((?a @ ?b) @ ?c @ enc be 4 sq @ ?p) 6 = Inr (dec be ?c)"
    by (rule load_append) simp_all
  moreover have "store be 2 v ((?a @ ?b) @ ?c @ enc be 4 sq @ ?p) 6 =
      Inr ((?a @ ?b) @ enc be 2 v @ enc be 4 sq @ ?p)" for v
    unfolding store_def by (rule put_bytes_append) simp_all
  ultimately show ?thesis
    using assms n1 by (simp add: dec_enc msg_ok_def enc_msg_def nlmsghdr_def msg_size_def)
qed

text \<open>C23: A request without an answer buffer is sent with the next sequence number and the flag that asks for
  an acknowledgement, and the call returns what the first error message with that number says: 0 for
  code 0, otherwise -1 with the code in errno. Other messages are skipped, in any number of datagrams.\<close>

theorem netlink_talk_acknowledged:
  assumes "msg_ok req" and "0 \<le> nl_answers w (length (nl_calls w))" and "inbox w = map (datagram be) ds"
    and "list_all (datagram_ok 16384 (\<lambda>_. True)) ds"
    and "talk_datagrams be (u32 peer) (u32_add (seq rtnl) 1) (rtnl\<lparr>seq := u32_add (seq rtnl) 1\<rparr>) ds (nl_errno w) = Some (r, e)"
  shows "\<exists>rest. rtnl_talk be rtnl (enc_msg be req) peer None (None :: 'b nl_filter option) jarg w =
    (let sent = enc_msg be (req\<lparr>mseq := u32_add (seq rtnl) 1, mflags := with_ack (mflags req)\<rparr>) in
     Some (Inr (r, None, jarg, rtnl\<lparr>seq := u32_add (seq rtnl) 1\<rparr>, sent,
       w\<lparr>nl_calls := nl_calls w @ [Send (fd rtnl) (take (16 + length (body req)) sent)], inbox := rest, nl_errno := e\<rparr>)))"
proof -
  let ?sq = "u32_add (seq rtnl) 1"
  let ?sent = "enc_msg be (req\<lparr>mseq := ?sq, mflags := with_ack (mflags req)\<rparr>)"
  have len: "nlmsg_len be (enc_msg be req) = Inr (16 + length (body req))"
    using msg_at_enc [OF assms(1), of be "[]" "[]"] by (simp add: nlmsg_len_def msg_at_def)
  have lens: "\<not> length ?sent < 16 + length (body req)" by (simp add: enc_msg_def nlmsghdr_def)
  obtain n1 flags where n1: "store be 4 ?sq (enc_msg be req) 8 = Inr n1" "load be 2 n1 6 = Inr flags"
      "store be 2 (with_ack flags) n1 6 = Inr ?sent"
    using request_with_ack [OF assms(1), of be ?sq] unfolding obind_Inr_iff by blast
  have "\<exists>rest. talk_loop be (None :: 'b nl_filter option) (u32 peer) ?sq (rtnl\<lparr>seq := ?sq\<rparr>) None (replicate 16384 0)
      (map (datagram be) ds) jarg (nl_errno w) = Some (Inr (r, None, jarg, e, rest))"
    using talk_loop_refines [of "replicate 16384 0" ds be, where peer = "u32 peer" and sq = ?sq
        and rtnl = "rtnl\<lparr>seq := ?sq\<rparr>" and e = "nl_errno w" and b = jarg and ?'b = 'b] assms(4,5)
    by simp
  then show ?thesis
    using assms(2,3) len lens n1 by (auto simp: rtnl_talk_def Let_def nl_call_def with_ack_def)
qed

definition demo_nl :: "recv_event list \<Rightarrow> nl_world" where
  "demo_nl evs = \<lparr>nl_answers = \<lambda>_. 5, nl_calls = [],
     sock_names = \<lambda>_. \<lparr>name_len = 12, name_family = 16, name_pid = 77, name_groups = 0\<rparr>,
     inbox = evs, nl_errno = 0, nl_time = 100\<rparr>"

definition demo_rth :: rtnl_handle where
  "demo_rth = \<lparr>fd = 5, local_family = 16, local_pid = 77, local_groups = 0, seq = 41, dump = 0\<rparr>"

text \<open>An error message with code \<open>-v\<close>, as the kernel answers.\<close>

definition error_msg :: "bool \<Rightarrow> nat \<Rightarrow> nat \<Rightarrow> nat \<Rightarrow> nl_msg" where
  "error_msg be sq pid v = \<lparr>mtype = 2, mflags = 0, mseq = sq, mpid = pid,
     body = enc be 4 (nat ((- int v) mod 2 ^ 32)) @ replicate 16 0\<rparr>"

theorem netlink_talk_acknowledged_witness:
  "\<exists>rest. rtnl_talk False demo_rth (enc_msg False \<lparr>mtype = 24, mflags = 1, mseq = 0, mpid = 0, body = []\<rparr>) 0 None
      (None :: unit nl_filter option) ()
      (demo_nl (map (datagram False) [(0, [error_msg False 9 77 1]), (0, [error_msg False 42 77 17])])) =
    (let sent = enc_msg False \<lparr>mtype = 24, mflags = 5, mseq = 42, mpid = 0, body = []\<rparr>;
       w = demo_nl (map (datagram False) [(0, [error_msg False 9 77 1]), (0, [error_msg False 42 77 17])]) in
     Some (Inr (- 1, None, (), demo_rth\<lparr>seq := 42\<rparr>, sent,
       w\<lparr>nl_calls := [Send 5 (take 16 sent)], inbox := rest, nl_errno := 17\<rparr>)))"
proof -
  let ?req = "\<lparr>mtype = 24, mflags = 1, mseq = 0, mpid = 0, body = []\<rparr> :: nl_msg"
  define ds where "ds = [(0::nat, [error_msg False 9 77 1]), (0, [error_msg False 42 77 17])]"
  define w where "w = demo_nl (map (datagram False) ds)"
  have ok: "list_all (datagram_ok 16384 (\<lambda>_. True)) ds"
    by (simp add: ds_def datagram_ok_def msg_ok_def error_msg_def msg_size_def nl_align_def)
  have sq: "u32_add (seq demo_rth) 1 = 42" by (simp add: demo_rth_def u32_add_def)
  have ack: "with_ack 1 = 5" by (simp add: with_ack_def)
  have code: "error_of False (error_msg False 42 77 17) 0 = 17"
    by (simp add: error_of_def error_msg_def dec_enc s32_def)
  have td: "talk_datagrams False (u32 0) 42 (demo_rth\<lparr>seq := 42\<rparr>) ds 0 = Some (- 1, 17)"
    using code by (simp add: ds_def u32_def demo_rth_def) (simp add: error_msg_def)
  have w: "nl_answers w k = 5" "nl_calls w = []" "inbox w = map (datagram False) ds" "nl_errno w = 0" for k
    by (simp_all add: w_def demo_nl_def)
  have "fd demo_rth = 5" by (simp add: demo_rth_def)
  moreover have "msg_ok ?req" by (simp add: msg_ok_def)
  ultimately show ?thesis
    using netlink_talk_acknowledged [of ?req w False ds 0 demo_rth "- 1" 17 "()", unfolded sq w] ok td ack
    unfolding ds_def [symmetric] w_def [symmetric] by (simp add: w)
qed

text \<open>The descriptors that a log of calls has opened and not closed.\<close>

fun opened :: "(nl_call \<times> int) list \<Rightarrow> int" where
  "opened [] = 0"
| "opened ((Socket p, r) # l) = (if 0 \<le> r then 1 else 0) + opened l"
| "opened ((Close f, r) # l) = opened l - 1"
| "opened (_ # l) = opened l"

definition nl_log :: "nl_world \<Rightarrow> (nl_call \<times> int) list" where
  "nl_log w = zip (nl_calls w) (map (nl_answers w) [0..<length (nl_calls w)])"

lemma opened_append: "opened (l @ l') = opened l + opened l'"
  by (induction l rule: opened.induct) auto

lemma nl_log_call: "nl_log (snd (nl_call c w)) = nl_log w @ [(c, nl_answers w (length (nl_calls w)))]"
  by (simp add: nl_log_def nl_call_def Let_def)

end
