(* ===== verification/Ll_Map.thy ===== *)
theory Ll_Map
  imports Netlink C_String
begin

text \<open>
  The map from interface indices to names, types and flags of src/libnetlink/ll_map.c: a table of 16
  buckets, each a list of nodes that grows at its end. \<open>fresh k\<close> is what the memory of the k-th
  allocation held, \<open>ll_alloc_ok k\<close> whether it succeeds. Interface names are C strings in arrays of 16
  characters. Pointers have 4 bytes. The size of the table of attributes, \<open>IFLA_MAX\<close>, is the parameter
  \<open>ifla_max\<close>.
\<close>

record idxmap =
  index :: nat
  link_type :: int
  alen :: int
  link_flags :: nat
  addr :: "byte list"
  name :: "char list"

record ll_state =
  idxmap :: "idxmap list list"
  ll_allocs :: nat
  ll_alloc_ok :: "nat \<Rightarrow> bool"
  fresh :: "nat \<Rightarrow> idxmap"
  ncache :: "char list"
  icache :: nat

subsection \<open>Remembering a link\<close>

text \<open>The C string that starts at an offset of the receive buffer.\<close>

definition buf_string :: "byte list \<Rightarrow> nat \<Rightarrow> string outcome" where
  "buf_string buf p =
     (let s = takeWhile (\<lambda>b. b \<noteq> 0) (drop p buf) in
      if p + length s < length buf then Inr (map (\<lambda>b. char_of (unat b)) s) else Inl Unterminated)"

fun find_link :: "idxmap list \<Rightarrow> nat \<Rightarrow> idxmap option" where
  "find_link [] idx = None"
| "find_link (im # ims) idx = (if index im = idx then Some im else find_link ims idx)"

text \<open>The fields of a node, from the message: type, flags, the address if there is one, the name.\<close>

definition fill_link :: "int \<Rightarrow> nat \<Rightarrow> byte list option \<Rightarrow> string \<Rightarrow> idxmap \<Rightarrow> idxmap outcome" where
  "fill_link ty fl ad nm im =
     obind (strcpy (name im) nm) (\<lambda>nm'.
     Inr (im\<lparr>link_type := ty, link_flags := fl,
       alen := (case ad of None \<Rightarrow> 0 | Some d \<Rightarrow> int (length d)),
       addr := (case ad of None \<Rightarrow> replicate 8 0 | Some d \<Rightarrow> take 8 d @ drop (length (take 8 d)) (addr im)),
       name := nm'\<rparr>))"

fun put_link :: "idxmap list \<Rightarrow> nat \<Rightarrow> idxmap \<Rightarrow> idxmap list" where
  "put_link [] idx x = [x]"
| "put_link (im # ims) idx x = (if index im = idx then x # ims else im # put_link ims idx x)"

definition ll_store ::
    "nat \<Rightarrow> int \<Rightarrow> nat \<Rightarrow> byte list option \<Rightarrow> string \<Rightarrow> ll_state \<Rightarrow> (int \<times> ll_state) outcome" where
  "ll_store idx ty fl ad nm st =
     (let h = idx mod 16 in
      case find_link (idxmap st ! h) idx of
        Some im \<Rightarrow>
          obind (fill_link ty fl ad nm im) (\<lambda>im'.
          Inr (0, st\<lparr>idxmap := (idxmap st)[h := put_link (idxmap st ! h) idx im']\<rparr>))
      | None \<Rightarrow>
          let k = ll_allocs st; st1 = st\<lparr>ll_allocs := Suc k\<rparr> in
          if \<not> ll_alloc_ok st k then Inr (0, st1)
          else
            obind (fill_link ty fl ad nm ((fresh st k)\<lparr>index := idx\<rparr>)) (\<lambda>im'.
            Inr (0, st1\<lparr>idxmap := (idxmap st)[h := put_link (idxmap st ! h) idx im']\<rparr>)))"

definition RTM_NEWLINK :: nat where "RTM_NEWLINK = 16"
definition RTM_GETLINK :: nat where "RTM_GETLINK = 18"
definition IFLA_ADDRESS :: nat where "IFLA_ADDRESS = 1"
definition IFLA_IFNAME :: nat where "IFLA_IFNAME = 3"

text \<open>
  The payload of a message starts with \<open>ifinfomsg\<close>: family, padding, type (16 bits), index, flags and
  change mask (32 bits each), 16 bytes; the guard compares with the size of a pointer to it.
\<close>

definition ll_remember_index ::
    "bool \<Rightarrow> nat \<Rightarrow> nat \<Rightarrow> byte list \<Rightarrow> nat \<Rightarrow> ll_state \<Rightarrow> (int \<times> ll_state) outcome" where
  "ll_remember_index be ifla_max who buf n st =
     obind (load be 2 buf (n + 4)) (\<lambda>ty.
     if ty \<noteq> RTM_NEWLINK then Inr (0, st)
     else obind (load be 4 buf n) (\<lambda>len.
     if len < 16 + 4 then Inr (- 1, st)
     else obind (parse_rtattr be buf ifla_max (n + 32) (s32 (int len - 32))) (\<lambda>(_, tb).
     case tb ! IFLA_IFNAME of
       None \<Rightarrow> Inr (0, st)
     | Some nm \<Rightarrow>
         obind (load be 4 buf (n + 20)) (\<lambda>idx.
         obind (load be 2 buf (n + 18)) (\<lambda>ifi_type.
         obind (load be 4 buf (n + 24)) (\<lambda>fl.
         obind (buf_string buf (nm + 4)) (\<lambda>s.
         ll_store idx (int ifi_type) fl (attr_data be buf (tb ! IFLA_ADDRESS)) s st)))))))"

subsection \<open>Lookups\<close>

definition ll_idx_n2a :: "nat \<Rightarrow> ll_state \<Rightarrow> string" where
  "ll_idx_n2a idx st =
     (if idx = 0 then ''*''
      else case find_link (idxmap st ! (idx mod 16)) idx of
          Some im \<Rightarrow> cstr (name im) 0
        | None \<Rightarrow> c_snprintf 16 (''if'' @ fmt_d (s32 (int idx))))"

definition ll_index_to_name :: "nat \<Rightarrow> ll_state \<Rightarrow> string" where
  "ll_index_to_name idx st = ll_idx_n2a idx st"

definition ll_index_to_type :: "nat \<Rightarrow> ll_state \<Rightarrow> int" where
  "ll_index_to_type idx st =
     (if idx = 0 then - 1
      else case find_link (idxmap st ! (idx mod 16)) idx of Some im \<Rightarrow> link_type im | None \<Rightarrow> - 1)"

definition ll_index_to_flags :: "nat \<Rightarrow> ll_state \<Rightarrow> nat" where
  "ll_index_to_flags idx st =
     (if idx = 0 then 0
      else case find_link (idxmap st ! (idx mod 16)) idx of Some im \<Rightarrow> link_flags im | None \<Rightarrow> 0)"

fun find_name :: "idxmap list \<Rightarrow> string \<Rightarrow> idxmap option" where
  "find_name [] nm = None"
| "find_name (im # ims) nm = (if cstr (name im) 0 = nm then Some im else find_name ims nm)"

text \<open>
  The cache of the last name found is asked first. \<open>if_nametoindex\<close> of the C library is the parameter
  \<open>lookup\<close>. A null pointer as name is \<open>None\<close>.
\<close>

definition ll_name_to_index :: "(string \<Rightarrow> nat) \<Rightarrow> string option \<Rightarrow> ll_state \<Rightarrow> (nat \<times> ll_state) outcome" where
  "ll_name_to_index lookup nm st =
     (case nm of
        None \<Rightarrow> Inr (0, st)
      | Some s \<Rightarrow>
          if icache st \<noteq> 0 \<and> s = cstr (ncache st) 0 then Inr (icache st, st)
          else case find_name (concat (idxmap st)) s of
              None \<Rightarrow> Inr (lookup s, st)
            | Some im \<Rightarrow>
                obind (strcpy (ncache st) s) (\<lambda>nc. Inr (index im, st\<lparr>icache := index im, ncache := nc\<rparr>)))"

definition ll_init_map :: "bool \<Rightarrow> nat \<Rightarrow> byte list \<Rightarrow> rtnl_handle \<Rightarrow> ll_state \<Rightarrow> nl_world \<Rightarrow>
    (int \<times> ll_state \<times> rtnl_handle \<times> nl_world) outcome option" where
  "ll_init_map be ifla_max buf0 rth st w =
     (let (r, rth', w1) = rtnl_wilddump_request be rth 0 RTM_GETLINK w in
      if r < 0 then Some (Inl (Process_Exit 1))
      else case rtnl_dump_filter be buf0 rth' (ll_remember_index be ifla_max) st (None :: unit nl_filter option) () w1 of
          None \<Rightarrow> None
        | Some (Inl x) \<Rightarrow> Some (Inl x)
        | Some (Inr (r, st', _, w2)) \<Rightarrow>
            if r < 0 then Some (Inl (Process_Exit 1)) else Some (Inr (0, st', rth', w2)))"

subsection \<open>The table as a map\<close>

text \<open>The interface of a table that grows: an invariant, a lookup and an update.\<close>

locale link_table =
  fixes inv :: "'s \<Rightarrow> bool" and get :: "'s \<Rightarrow> nat \<Rightarrow> 'v option" and upd :: "nat \<times> 'x \<Rightarrow> 's \<Rightarrow> 's"
    and view :: "'x \<Rightarrow> 'v" and ok :: "'x \<Rightarrow> bool"
  assumes inv_upd: "inv s \<Longrightarrow> ok x \<Longrightarrow> inv (upd (i, x) s)"
    and get_upd: "inv s \<Longrightarrow> ok x \<Longrightarrow> get (upd (i, x) s) j = (if j = i then Some (view x) else get s j)"
begin

lemma fold_upd:
  "inv s \<Longrightarrow> list_all (\<lambda>u. ok (snd u)) us \<Longrightarrow>
     inv (fold upd us s) \<and>
     get (fold upd us s) j = (case map_of (rev us) j of Some x \<Rightarrow> Some (view x) | None \<Rightarrow> get s j)"
proof (induction us arbitrary: s)
  case Nil
  then show ?case by simp
next
  case (Cons u us)
  obtain i x where u: "u = (i, x)" by (cases u)
  have s': "inv (upd (i, x) s)" using Cons.prems inv_upd by (simp add: u)
  have "get (fold upd us (upd (i, x) s)) j =
      (case map_of (rev us) j of Some y \<Rightarrow> Some (view y) | None \<Rightarrow> get (upd (i, x) s) j)"
    using Cons.IH [OF s'] Cons.prems(2) by simp
  also have "get (upd (i, x) s) j = (if j = i then Some (view x) else get s j)"
    using Cons.prems get_upd by (simp add: u)
  finally show ?case
    using Cons.IH [OF s'] Cons.prems(2) by (auto simp: u map_add_def split: option.splits)
qed

end

definition node_ok :: "idxmap \<Rightarrow> bool" where
  "node_ok im \<longleftrightarrow> length (name im) = 16 \<and> length (addr im) = 8"

text \<open>Every node is in the bucket of its index, and no index occurs twice.\<close>

definition bucket_ok :: "nat \<Rightarrow> idxmap list \<Rightarrow> bool" where
  "bucket_ok h ims \<longleftrightarrow> list_all (\<lambda>im. index im mod 16 = h \<and> node_ok im) ims \<and> distinct (map index ims)"

definition table_ok :: "ll_state \<Rightarrow> bool" where
  "table_ok st \<longleftrightarrow> length (idxmap st) = 16 \<and> (\<forall>h < 16. bucket_ok h (idxmap st ! h)) \<and>
     (\<forall>k. length (name (fresh st k)) = 16 \<and> length (addr (fresh st k)) = 8)"

lemma find_link_index: "find_link ims idx = Some im \<Longrightarrow> im \<in> set ims \<and> index im = idx"
  by (induction ims) (auto split: if_splits)

lemma find_put_link: "index x = idx \<Longrightarrow> find_link (put_link ims idx x) j = (if j = idx then Some x else find_link ims j)"
  by (induction ims) auto

lemma index_put_link: "index x = idx \<Longrightarrow> set (map index (put_link ims idx x)) = insert idx (set (map index ims))"
  by (induction ims) auto

lemma bucket_ok_put:
  "bucket_ok h ims \<Longrightarrow> idx mod 16 = h \<Longrightarrow> index x = idx \<Longrightarrow> node_ok x \<Longrightarrow> bucket_ok h (put_link ims idx x)"
proof (induction ims)
  case Nil
  then show ?case by (simp add: bucket_ok_def)
next
  case (Cons im ims)
  then show ?case using index_put_link [OF Cons.prems(3), of ims] by (auto simp: bucket_ok_def)
qed

lemma fill_link_ok:
  assumes "fill_link ty fl ad nm im = Inr im'" and "node_ok im"
  shows "node_ok im'" and "index im' = index im"
  using assms by (auto simp: fill_link_def obind_Inr_iff node_ok_def dest!: strcpy_ok split: option.splits)

lemma table_ok_put:
  assumes "table_ok st" and "index x = idx" and "node_ok x"
  shows "table_ok (st\<lparr>idxmap := (idxmap st)[idx mod 16 := put_link (idxmap st ! (idx mod 16)) idx x]\<rparr>)"
  using assms bucket_ok_put [of "idx mod 16" "idxmap st ! (idx mod 16)" idx x]
  by (auto simp: table_ok_def nth_list_update)

lemma table_ok_allocs [simp]: "table_ok (st\<lparr>ll_allocs := k\<rparr>) = table_ok st"
  by (simp add: table_ok_def)

lemma found_node_ok: "table_ok st \<Longrightarrow> find_link (idxmap st ! (idx mod 16)) idx = Some im \<Longrightarrow> node_ok im \<and> index im = idx"
proof -
  assume a: "table_ok st" "find_link (idxmap st ! (idx mod 16)) idx = Some im"
  have "idx mod 16 < 16" by simp
  then have "bucket_ok (idx mod 16) (idxmap st ! (idx mod 16))" using a(1) unfolding table_ok_def by blast
  then show ?thesis using find_link_index [OF a(2)] by (auto simp: bucket_ok_def list_all_iff)
qed

lemma fresh_node_ok: "table_ok st \<Longrightarrow> node_ok ((fresh st k)\<lparr>index := idx\<rparr>)"
  by (simp add: table_ok_def node_ok_def)

lemma ll_store_ok:
  assumes "table_ok st" and "ll_store idx ty fl ad nm st = Inr (r, st')"
  shows "table_ok st'"
proof (cases "find_link (idxmap st ! (idx mod 16)) idx")
  case (Some im)
  obtain im' where im': "fill_link ty fl ad nm im = Inr im'"
      "st' = st\<lparr>idxmap := (idxmap st)[idx mod 16 := put_link (idxmap st ! (idx mod 16)) idx im']\<rparr>"
    using assms(2) Some by (auto simp: ll_store_def obind_Inr_iff Let_def)
  show ?thesis
    unfolding im'(2) using found_node_ok [OF assms(1) Some] fill_link_ok [OF im'(1)]
    by (intro table_ok_put [OF assms(1)]) auto
next
  case None
  show ?thesis
  proof (cases "ll_alloc_ok st (ll_allocs st)")
    case False
    then show ?thesis using assms None by (auto simp: ll_store_def Let_def)
  next
    case True
    obtain im' where im': "fill_link ty fl ad nm ((fresh st (ll_allocs st))\<lparr>index := idx\<rparr>) = Inr im'"
        "st' = st\<lparr>ll_allocs := Suc (ll_allocs st),
           idxmap := (idxmap st)[idx mod 16 := put_link (idxmap st ! (idx mod 16)) idx im']\<rparr>"
      using assms(2) None True by (auto simp: ll_store_def obind_Inr_iff Let_def)
    have eq: "st' = (st\<lparr>idxmap := (idxmap st)[idx mod 16 := put_link (idxmap st ! (idx mod 16)) idx im']\<rparr>)
        \<lparr>ll_allocs := Suc (ll_allocs st)\<rparr>" unfolding im'(2) by simp
    show ?thesis
      unfolding eq table_ok_allocs using fresh_node_ok [OF assms(1)] fill_link_ok [OF im'(1)]
      by (intro table_ok_put [OF assms(1)]) auto
  qed
qed

text \<open>C24: Whatever message arrives, remembering it keeps the table in order: 16 buckets, each node in the
  bucket of its index, no index twice, names and addresses in arrays of their size.\<close>

theorem ll_table_invariant:
  assumes "table_ok st"
  shows "case ll_remember_index be ifla_max who buf n st of Inl e \<Rightarrow> True | Inr (r, st') \<Rightarrow> table_ok st'"
proof (cases "ll_remember_index be ifla_max who buf n st")
  case (Inr x)
  obtain r st' where x: "x = (r, st')" by (cases x)
  have "st' = st \<or> (\<exists>idx ty fl ad nm. ll_store idx ty fl ad nm st = Inr (r, st'))"
    using Inr unfolding x ll_remember_index_def
    by (auto simp: obind_Inr_iff split: if_splits option.splits)
  then show ?thesis using Inr x assms ll_store_ok by auto
qed simp

subsection \<open>Names to indices\<close>

lemma find_name_found: "find_name ims s = Some im \<Longrightarrow> im \<in> set ims \<and> cstr (name im) 0 = s"
  by (induction ims) (auto split: if_splits)

lemma ll_store_caches: "ll_store idx ty fl ad nm st = Inr (r, st') \<Longrightarrow> ncache st' = ncache st \<and> icache st' = icache st"
  by (auto simp: ll_store_def Let_def obind_Inr_iff split: option.splits if_splits)

lemma ll_remember_caches:
  "ll_remember_index be ifla_max who buf n st = Inr (r, st') \<Longrightarrow> ncache st' = ncache st \<and> icache st' = icache st"
  by (auto simp: ll_remember_index_def obind_Inr_iff split: if_splits option.splits dest: ll_store_caches)

text \<open>
  The name found last is cached and the cache is never cleared: once the table has given an index for a
  name, the next lookup of that name gives the same index, whatever message about links came in between,
  also one that renames the link or reuses the index.
\<close>

lemma ll_name_cache_sticks:
  assumes "ll_name_to_index lookup (Some s) st = Inr (i, st1)" and "find_name (concat (idxmap st)) s \<noteq> None"
    and "icache st = 0" and "i \<noteq> 0" and "NUL \<notin> set s"
    and "ll_remember_index be ifla_max who buf n st1 = Inr (r, st2)"
  shows "ll_name_to_index lookup' (Some s) st2 = Inr (i, st2)"
proof -
  obtain nc where "strcpy (ncache st) s = Inr nc" "st1 = st\<lparr>icache := i, ncache := nc\<rparr>"
    using assms(1-3) by (auto simp: ll_name_to_index_def obind_Inr_iff)
  then have "icache st2 = i" "cstr (ncache st2) 0 = s"
    using ll_remember_caches [OF assms(6)] strcpy_read [OF _ assms(5)] by auto
  then show ?thesis using assms(4) by (simp add: ll_name_to_index_def)
qed

subsection \<open>The table refines a map\<close>

text \<open>The node that a link gives, when memory is there and the name fits.\<close>

type_synonym link = "int \<times> nat \<times> byte list option \<times> string"

definition link_fits :: "link \<Rightarrow> bool" where
  "link_fits l \<longleftrightarrow> (case l of (ty, fl, ad, nm) \<Rightarrow> length nm \<le> 15 \<and> NUL \<notin> set nm)"

definition link_view :: "link \<Rightarrow> int \<times> nat \<times> string" where
  "link_view l = (case l of (ty, fl, ad, nm) \<Rightarrow> (ty, fl, nm))"

definition ll_view :: "ll_state \<Rightarrow> nat \<Rightarrow> (int \<times> nat \<times> string) option" where
  "ll_view st j =
     map_option (\<lambda>im. (link_type im, link_flags im, cstr (name im) 0)) (find_link (idxmap st ! (j mod 16)) j)"

definition ll_put :: "nat \<times> link \<Rightarrow> ll_state \<Rightarrow> ll_state" where
  "ll_put u st = (case u of (idx, ty, fl, ad, nm) \<Rightarrow> (case ll_store idx ty fl ad nm st of Inl e \<Rightarrow> st | Inr (r, st') \<Rightarrow> st'))"

definition table_ready :: "ll_state \<Rightarrow> bool" where
  "table_ready st \<longleftrightarrow> table_ok st \<and> (\<forall>k. ll_alloc_ok st k)"

lemma fill_link_fits:
  assumes "node_ok im" and "length nm \<le> 15" and "NUL \<notin> set nm"
  obtains im' where "fill_link ty fl ad nm im = Inr im'" "node_ok im'" "index im' = index im"
    "link_type im' = ty" "link_flags im' = fl" "cstr (name im') 0 = nm"
proof -
  obtain d where d: "strcpy (name im) nm = Inr d"
    using assms by (simp add: strcpy_def node_ok_def)
  then obtain im' where im': "fill_link ty fl ad nm im = Inr im'" "name im' = d" "link_type im' = ty" "link_flags im' = fl"
    by (simp add: fill_link_def)
  then show thesis using that fill_link_ok [OF im'(1) assms(1)] strcpy_read [OF d assms(3)] by simp
qed

lemma ll_store_fits:
  assumes "table_ready st" and "length nm \<le> 15" and "NUL \<notin> set nm"
  obtains st' where "ll_store idx ty fl ad nm st = Inr (0, st')" "table_ready st'"
    "\<And>j. ll_view st' j = (if j = idx then Some (ty, fl, nm) else ll_view st j)"
proof -
  have ok: "table_ok st" "\<And>k. ll_alloc_ok st k" using assms(1) by (simp_all add: table_ready_def)
  have l: "length (idxmap st) = 16" using ok(1) by (simp add: table_ok_def)
  have view: "ll_view (st1\<lparr>idxmap := (idxmap st)[idx mod 16 := put_link (idxmap st ! (idx mod 16)) idx im]\<rparr>) j =
      (if j = idx then Some (ty, fl, nm) else ll_view st j)"
    if "index im = idx" "link_type im = ty" "link_flags im = fl" "cstr (name im) 0 = nm" for im j st1
    using that l by (auto simp: ll_view_def nth_list_update find_put_link)
  show thesis
  proof (cases "find_link (idxmap st ! (idx mod 16)) idx")
    case (Some im)
    have n: "node_ok im" "index im = idx" using found_node_ok [OF ok(1) Some] by auto
    obtain im' where im': "fill_link ty fl ad nm im = Inr im'" "node_ok im'" "index im' = idx"
        "link_type im' = ty" "link_flags im' = fl" "cstr (name im') 0 = nm"
      by (rule fill_link_fits [OF n(1) assms(2,3), of ty fl ad]) (use n(2) in simp)
    show thesis
      by (rule that [of "st\<lparr>idxmap := (idxmap st)[idx mod 16 := put_link (idxmap st ! (idx mod 16)) idx im']\<rparr>"])
        (use Some im' ok table_ok_put [OF ok(1) im'(3,2)] view [OF im'(3-6), of st] in
          \<open>simp_all add: ll_store_def table_ready_def Let_def\<close>)
  next
    case None
    obtain im' where im': "fill_link ty fl ad nm ((fresh st (ll_allocs st))\<lparr>index := idx\<rparr>) = Inr im'" "node_ok im'"
        "index im' = idx" "link_type im' = ty" "link_flags im' = fl" "cstr (name im') 0 = nm"
      by (rule fill_link_fits [OF fresh_node_ok [OF ok(1), of idx "ll_allocs st"] assms(2,3), of ty fl ad]) simp
    let ?im = "(idxmap st)[idx mod 16 := put_link (idxmap st ! (idx mod 16)) idx im']"
    let ?st = "(st\<lparr>ll_allocs := Suc (ll_allocs st)\<rparr>)\<lparr>idxmap := ?im\<rparr>"
    have "?st = (st\<lparr>idxmap := ?im\<rparr>)\<lparr>ll_allocs := Suc (ll_allocs st)\<rparr>" by simp
    then have "table_ok ?st" using table_ok_put [OF ok(1) im'(3,2)] table_ok_allocs by metis
    then show thesis
      using that [of ?st] None im' ok view [OF im'(3-6), of "st\<lparr>ll_allocs := Suc (ll_allocs st)\<rparr>"]
      by (simp add: ll_store_def table_ready_def Let_def)
  qed
qed

interpretation ll: link_table table_ready ll_view ll_put link_view link_fits
proof
  fix s :: ll_state and x :: link and i j
  obtain ty fl ad nm where x: "x = (ty, fl, ad, nm)" by (cases x)
  assume a: "table_ready s" "link_fits x"
  obtain st' where "ll_store i ty fl ad nm s = Inr (0, st')" "table_ready st'"
      "\<And>j. ll_view st' j = (if j = i then Some (ty, fl, nm) else ll_view s j)"
    using ll_store_fits [OF a(1), of nm i ty fl ad] a(2) by (auto simp: x link_fits_def)
  then show "table_ready (ll_put (i, x) s)"
    and "ll_view (ll_put (i, x) s) j = (if j = i then Some (link_view x) else ll_view s j)"
    by (simp_all add: ll_put_def x link_view_def)
qed

subsection \<open>Initialising the map from a dump\<close>

text \<open>The link that a message describes: nothing if it has no name.\<close>

definition link_attrs :: "bool \<Rightarrow> nl_msg \<Rightarrow> nat \<Rightarrow> byte list option" where
  "link_attrs be m = map_of (rev (dec_attrs be (drop 16 (body m))))"

definition bytes_string :: "byte list \<Rightarrow> string" where
  "bytes_string d = map (\<lambda>b. char_of (unat b)) (takeWhile (\<lambda>b. b \<noteq> 0) d)"

definition link_of :: "bool \<Rightarrow> nl_msg \<Rightarrow> (nat \<times> link) option" where
  "link_of be m =
     (case link_attrs be m IFLA_IFNAME of
        None \<Rightarrow> None
      | Some d \<Rightarrow> Some (dec be (take 4 (drop 4 (body m))), int (dec be (take 2 (drop 2 (body m)))),
          dec be (take 4 (drop 8 (body m))), link_attrs be m IFLA_ADDRESS, bytes_string d))"

text \<open>A message about a new link, filled with attributes, with a name of at most 15 characters.\<close>

definition link_msg :: "bool \<Rightarrow> nl_msg \<Rightarrow> bool" where
  "link_msg be m \<longleftrightarrow> mtype m = RTM_NEWLINK \<and> 16 \<le> length (body m) \<and> attrs_whole be (drop 16 (body m)) \<and>
     (case link_attrs be m IFLA_IFNAME of None \<Rightarrow> True | Some d \<Rightarrow> 0 \<in> set d \<and> length (bytes_string d) \<le> 15)"

lemma bytes_string_fits: "length (bytes_string d) \<le> 15 \<Longrightarrow> link_fits (ty, fl, ad, bytes_string d)"
proof -
  have "NUL \<notin> set (bytes_string d)"
  proof
    assume "NUL \<in> set (bytes_string d)"
    then obtain b where b: "b \<in> set (takeWhile (\<lambda>b. b \<noteq> 0) d)" "NUL = char_of (unat b)"
      by (auto simp: bytes_string_def)
    have "unat b < 256" by (rule order.strict_trans2 [OF unsigned_less]) simp
    then have "of_char (char_of (unat b) :: char) = unat b" by simp
    then have "unat b = 0" unfolding b(2) [symmetric] by simp
    then show False using b(1) by (auto dest: set_takeWhileD simp: unat_eq_zero)
  qed
  then show "length (bytes_string d) \<le> 15 \<Longrightarrow> link_fits (ty, fl, ad, bytes_string d)" by (simp add: link_fits_def)
qed

lemma buf_string_attr:
  assumes "take n (drop p buf) = d" and "0 \<in> set d"
  shows "buf_string buf p = Inr (bytes_string d)"
proof -
  obtain r where r: "drop p buf = d @ r" using assms(1) by (metis append_take_drop_id)
  have tw: "takeWhile (\<lambda>b. b \<noteq> 0) (drop p buf) = takeWhile (\<lambda>b. b \<noteq> 0) d"
    unfolding r using assms(2) by (intro takeWhile_append1 [of 0]) auto
  have "length (takeWhile (\<lambda>b. b \<noteq> 0) d) < length d"
    using assms(2) split_first [of 0 d] by (metis (no_types, lifting) length_append length_Cons less_add_Suc1 add_Suc_right)
  moreover have "length d \<le> length buf - p" using r by (metis length_append length_drop le_add1)
  ultimately show ?thesis by (auto simp: buf_string_def Let_def tw bytes_string_def)
qed

lemma attr_data_Some:
  assumes "attr_data be buf x = Some d"
  obtains p n where "x = Some p" "take n (drop (p + 4) buf) = d"
  using assms by (auto simp: attr_data_def split: option.splits sum.splits)

lemma remember_link:
  assumes "msg_at be buf h m" and "link_msg be m" and "table_ready st" and "3 \<le> ifla_max"
  shows "ll_remember_index be ifla_max who buf h st =
     Inr (case link_of be m of None \<Rightarrow> (0, st) | Some u \<Rightarrow> (0, ll_put u st))"
proof -
  have m: "mtype m = RTM_NEWLINK" "16 \<le> length (body m)" "attrs_whole be (drop 16 (body m))"
    using assms(2) by (simp_all add: link_msg_def)
  have ld: "load be 2 buf (h + 4) = Inr RTM_NEWLINK" "load be 4 buf h = Inr (16 + length (body m))"
    using assms(1) m(1) by (simp_all add: msg_at_def)
  have f: "load be 4 buf (h + 20) = Inr (dec be (take 4 (drop 4 (body m))))"
      "load be 2 buf (h + 18) = Inr (dec be (take 2 (drop 2 (body m))))"
      "load be 4 buf (h + 24) = Inr (dec be (take 4 (drop 8 (body m))))"
    using load_body [OF assms(1), of 4 4] load_body [OF assms(1), of 2 2] load_body [OF assms(1), of 8 4] m(2)
    by (simp_all add: add.assoc add.commute [of _ h])
  have len: "s32 (int (16 + length (body m)) - 32) = int (length (body m)) - int 16"
    using assms(1) by (subst s32_id) (auto simp: msg_at_def)
  obtain tb where tb: "parse_rtattr be buf ifla_max (h + 32) (int (length (body m)) - int 16) = Inr (0, tb)"
      "\<forall>t \<le> ifla_max. attr_data be buf (tb ! t) = link_attrs be m t"
    using parse_body [OF assms(1) m(2,3), of ifla_max] by (auto simp: link_attrs_def add.assoc)
  have t: "attr_data be buf (tb ! IFLA_IFNAME) = link_attrs be m IFLA_IFNAME"
      "attr_data be buf (tb ! IFLA_ADDRESS) = link_attrs be m IFLA_ADDRESS"
    using tb(2) assms(4) by (simp_all add: IFLA_IFNAME_def IFLA_ADDRESS_def)
  show ?thesis
  proof (cases "link_attrs be m IFLA_IFNAME")
    case None
    have "tb ! IFLA_IFNAME = None"
      using parse_rtattr_loaded [OF tb(1), of IFLA_IFNAME] t(1) None assms(4) by (simp add: IFLA_IFNAME_def)
    then show ?thesis using ld len tb(1) None m(2) by (simp add: ll_remember_index_def link_of_def)
  next
    case (Some d)
    then have d: "0 \<in> set d" "length (bytes_string d) \<le> 15" using assms(2) by (simp_all add: link_msg_def)
    obtain p n where p: "tb ! IFLA_IFNAME = Some p" "take n (drop (p + 4) buf) = d"
      using attr_data_Some t(1) Some by metis
    have fits: "length (bytes_string d) \<le> 15" "NUL \<notin> set (bytes_string d)"
      using bytes_string_fits [OF d(2)] by (simp_all add: link_fits_def)
    obtain st' where st': "ll_store (dec be (take 4 (drop 4 (body m)))) (int (dec be (take 2 (drop 2 (body m)))))
        (dec be (take 4 (drop 8 (body m)))) (link_attrs be m IFLA_ADDRESS) (bytes_string d) st = Inr (0, st')"
      by (rule ll_store_fits [OF assms(3) fits])
    show ?thesis
      using ld len m(2) tb(1) p(1) f t(2) buf_string_attr [OF p(2) d(1)] st' Some
      by (simp add: ll_remember_index_def link_of_def ll_put_def)
  qed
qed

text \<open>Remembering a link is a filter for dumps.\<close>

definition put_msg :: "bool \<Rightarrow> nl_msg \<Rightarrow> ll_state \<Rightarrow> int \<times> ll_state" where
  "put_msg be m st = (0, case link_of be m of None \<Rightarrow> st | Some u \<Rightarrow> ll_put u st)"

lemma link_of_fits: "link_msg be m \<Longrightarrow> link_of be m = Some u \<Longrightarrow> link_fits (snd u)"
  by (auto simp: link_msg_def link_of_def bytes_string_fits split: option.splits)

lemma remember_filter:
  assumes "3 \<le> ifla_max"
  shows "msg_filter be (ll_remember_index be ifla_max) (put_msg be) (link_msg be) table_ready"
proof
  fix buf h m a who
  assume "msg_at be buf h m" "link_msg be m" "table_ready a"
  then show "ll_remember_index be ifla_max who buf h a = Inr (put_msg be m a)"
    using remember_link assms by (simp add: put_msg_def split: option.splits)
next
  fix m a
  assume "link_msg be m" "table_ready a"
  then show "table_ready (snd (put_msg be m a))"
    using ll.inv_upd link_of_fits by (auto simp: put_msg_def split: option.splits)
qed

interpretation remember: msg_filter be "ll_remember_index be (3 + k)" "put_msg be" "link_msg be" table_ready
  for be k by (rule remember_filter) simp

lemma fold_put_msg:
  "fold (\<lambda>m st. snd (put_msg be m st)) ms st = fold ll_put (List.map_filter (link_of be) ms) st"
  by (induction ms arbitrary: st) (simp_all add: put_msg_def map_filter_simps split: option.splits)

lemma map_filter_fits:
  "list_all (link_msg be) ms \<Longrightarrow> list_all (\<lambda>u. link_fits (snd u)) (List.map_filter (link_of be) ms)"
  by (induction ms) (auto simp: map_filter_simps split: option.splits dest: link_of_fits)

lemma lookups_view:
  "(ll_index_to_name j st, ll_index_to_type j st, ll_index_to_flags j st) =
     (if j = 0 then (''*'', - 1, 0)
      else case ll_view st j of
          Some (ty, fl, nm) \<Rightarrow> (nm, ty, fl)
        | None \<Rightarrow> (c_snprintf 16 (''if'' @ fmt_d (s32 (int j))), - 1, 0))"
  by (simp add: ll_index_to_name_def ll_idx_n2a_def ll_index_to_type_def ll_index_to_flags_def ll_view_def
      split: option.split)

text \<open>C25: After a dump of links, in any number of datagrams, looking up an index gives the name, type and
  flags of the last message about it, or what it gave before if there was none. The call returns 0, the
  table is in order, and the only system call is the request that was sent.\<close>

theorem ll_init_map_correct:
  assumes "table_ready st" and "3 \<le> ifla_max" and "length buf0 = 16384"
    and "0 \<le> nl_answers w (length (nl_calls w))"
    and "inbox w = map (datagram be) (dump_stream (rth\<lparr>seq := s, dump := s\<rparr>) mss ms)"
    and "stream_ok 16384 (link_msg be) (rth\<lparr>seq := s, dump := s\<rparr>) mss ms" and "s = u32_add (seq rth) 1"
  shows "\<exists>st' w'. ll_init_map be ifla_max buf0 rth st w = Some (Inr (0, st', rth\<lparr>seq := s, dump := s\<rparr>, w')) \<and>
     table_ready st' \<and>
     nl_calls w' = nl_calls w @ [Send (fd rth) (nlmsghdr be 20 18 0x301 s 0 @ [0, 0, 0, 0])] \<and>
     (\<forall>j. (ll_index_to_name j st', ll_index_to_type j st', ll_index_to_flags j st') =
        (case map_of (rev (List.map_filter (link_of be) (concat mss @ ms))) j of
           Some (ty, fl, ad, nm) \<Rightarrow> if j = 0 then (''*'', - 1, 0) else (nm, ty, fl)
         | None \<Rightarrow> (ll_index_to_name j st, ll_index_to_type j st, ll_index_to_flags j st)))"
proof -
  let ?rth = "rth\<lparr>seq := s, dump := s\<rparr>" and ?us = "List.map_filter (link_of be) (concat mss @ ms)"
  let ?w = "w\<lparr>nl_calls := nl_calls w @ [Send (fd rth) (nlmsghdr be 20 18 0x301 s 0 @ [0, 0, 0, 0])]\<rparr>"
  let ?st = "fold ll_put ?us st"
  have ans: "list_all (answers_dump ?rth) (concat mss @ ms)" "list_all (link_msg be) (concat mss @ ms)"
      "list_all (\<lambda>ms. ms \<noteq> []) mss"
    using assms(6) by (auto simp: stream_ok_def list_all_iff)
  have "fst (put_msg be m a) = 0" for m a by (simp add: put_msg_def)
  then have "dump_datagrams be (put_msg be) ?rth (dump_stream ?rth mss ms) st (nl_errno ?w) = Some (0, ?st, nl_errno ?w)"
    using dump_datagrams_stream [where g = "put_msg be", OF _ ans(1,3)] unfolding fold_put_msg by blast
  then obtain rest where run: "rtnl_dump_filter be buf0 ?rth (ll_remember_index be ifla_max) st
      (None :: unit nl_filter option) () ?w = Some (Inr (0, ?st, (), ?w\<lparr>inbox := rest, nl_errno := nl_errno ?w\<rparr>))"
    using dump_filter_refines [OF remember_filter [OF assms(2)] _ _ assms(1), where w = ?w and rth = ?rth and b = "()"
        and ?'b = unit and ds = "dump_stream ?rth mss ms" and be = be and ?buf0.0 = buf0 and r = 0 and a' = ?st
        and e' = "nl_errno ?w"] stream_datagrams_ok [OF assms(6)] assms(3,5)
    by auto
  have view: "table_ready ?st" "ll_view ?st j = (case map_of (rev ?us) j of Some x \<Rightarrow> Some (link_view x) | None \<Rightarrow> ll_view st j)" for j
    using ll.fold_upd [OF assms(1) map_filter_fits [OF ans(2)]] by blast+
  have "ll_init_map be ifla_max buf0 rth st w = Some (Inr (0, ?st, ?rth, ?w\<lparr>inbox := rest, nl_errno := nl_errno ?w\<rparr>))"
    using run assms(4,7) by (simp add: ll_init_map_def rtnl_wilddump_request_def nl_call_def Let_def RTM_GETLINK_def DUMP_FLAGS_def)
  moreover have "(ll_index_to_name j ?st, ll_index_to_type j ?st, ll_index_to_flags j ?st) =
        (case map_of (rev ?us) j of
           Some (ty, fl, ad, nm) \<Rightarrow> if j = 0 then (''*'', - 1, 0) else (nm, ty, fl)
         | None \<Rightarrow> (ll_index_to_name j st, ll_index_to_type j st, ll_index_to_flags j st))" for j
    unfolding lookups_view view(2) by (auto simp: link_view_def split: option.split)
  ultimately show ?thesis using view(1) by fastforce
qed

definition demo_node :: idxmap where
  "demo_node = \<lparr>index = 0, link_type = 0, alen = 0, link_flags = 0, addr = replicate 8 0, name = replicate 16 NUL\<rparr>"

definition demo_table :: ll_state where
  "demo_table = \<lparr>idxmap = replicate 16 [], ll_allocs = 0, ll_alloc_ok = (\<lambda>_. True), fresh = (\<lambda>_. demo_node),
     ncache = replicate 16 NUL, icache = 0\<rparr>"

lemma demo_table_ready: "table_ready demo_table"
  by (simp add: table_ready_def table_ok_def demo_table_def demo_node_def bucket_ok_def)

text \<open>A link message: index, name and flags.\<close>

definition demo_link :: "rtnl_handle \<Rightarrow> nat \<Rightarrow> string \<Rightarrow> nat \<Rightarrow> nl_msg" where
  "demo_link rth i nm fl = \<lparr>mtype = 16, mflags = 2, mseq = dump rth, mpid = local_pid rth,
     body = [0, 0, 1, 0] @ enc False 4 i @ enc False 4 fl @ [0, 0, 0, 0] @
       enc_attrs False [(3, map (\<lambda>c. word_of_nat (of_char c)) nm @ [0])]\<rparr>"

theorem ll_table_invariant_witness:
  "case ll_remember_index False 3 0 (enc_msg False (demo_link demo_rth 2 ''eth0'' 65)) 0 demo_table of
     Inl e \<Rightarrow> True | Inr (r, st') \<Rightarrow> table_ok st'"
  by (rule ll_table_invariant) (use demo_table_ready in \<open>simp add: table_ready_def\<close>)

lemma bytes_string_back: "NUL \<notin> set nm \<Longrightarrow> bytes_string (map (\<lambda>c. word_of_nat (of_char c)) nm @ [0]) = nm"
proof (induction nm)
  case (Cons c nm)
  have u: "unat (word_of_nat (of_char c) :: byte) = of_char c" by (simp add: unat_of_nat)
  have "(char_of (of_char c :: nat) :: char) = c" by simp
  moreover have "(char_of (0 :: nat) :: char) = NUL" by (simp add: char_of_def)
  ultimately have "(of_char c :: nat) \<noteq> 0" using Cons.prems by (metis list.set_intros(1))
  then have "(word_of_nat (of_char c) :: byte) \<noteq> 0" using u by (metis unsigned_0)
  then show ?case using Cons u by (simp add: bytes_string_def)
qed (simp add: bytes_string_def)

lemma demo_link_attrs: "length nm \<le> 15 \<Longrightarrow>
    dec_attrs False (drop 16 (body (demo_link rth i nm fl))) = [(3, map (\<lambda>c. word_of_nat (of_char c)) nm @ [0])] \<and>
    attrs_whole False (drop 16 (body (demo_link rth i nm fl)))"
  by (simp add: demo_link_def dec_enc_attrs attr_ok_def)

lemma demo_link_of:
  assumes "length nm \<le> 15" and "NUL \<notin> set nm" and "i < 2 ^ 32" and "fl < 2 ^ 32"
  shows "link_of False (demo_link rth i nm fl) = Some (i, 1, fl, None, nm)"
    and "link_msg False (demo_link rth i nm fl)"
proof -
  have "link_attrs False (demo_link rth i nm fl) = [3 \<mapsto> map (\<lambda>c. word_of_nat (of_char c)) nm @ [0]]"
    using demo_link_attrs [OF assms(1)] by (simp add: link_attrs_def)
  moreover have "dec False [1, 0] = 1" by (simp add: dec_def)
  ultimately show "link_of False (demo_link rth i nm fl) = Some (i, 1, fl, None, nm)"
      and "link_msg False (demo_link rth i nm fl)"
    using assms demo_link_attrs [OF assms(1), of rth i fl] bytes_string_back [OF assms(2)]
    by (simp_all add: link_of_def link_msg_def IFLA_IFNAME_def IFLA_ADDRESS_def RTM_NEWLINK_def)
      (simp_all add: demo_link_def dec_enc)
qed

theorem ll_init_map_correct_witness:
  "\<exists>st' w'. ll_init_map False 3 (replicate 16384 0) demo_rth demo_table
      (demo_nl (map (datagram False) (dump_stream (demo_rth\<lparr>seq := 42, dump := 42\<rparr>)
        [[demo_link (demo_rth\<lparr>seq := 42, dump := 42\<rparr>) 1 ''lo'' 73]]
        [demo_link (demo_rth\<lparr>seq := 42, dump := 42\<rparr>) 2 ''eth0'' 65]))) =
      Some (Inr (0, st', demo_rth\<lparr>seq := 42, dump := 42\<rparr>, w')) \<and>
     ll_index_to_name 2 st' = ''eth0'' \<and> ll_index_to_flags 1 st' = 73 \<and> ll_index_to_type 5 st' = - 1"
proof -
  let ?rth = "demo_rth\<lparr>seq := 42, dump := 42\<rparr>"
  let ?a = "demo_link ?rth 1 ''lo'' 73" and ?b = "demo_link ?rth 2 ''eth0'' 65"
  let ?w = "demo_nl (map (datagram False) (dump_stream ?rth [[?a]] [?b]))"
  have l: "link_of False ?a = Some (1, 1, 73, None, ''lo'')" "link_msg False ?a"
      "link_of False ?b = Some (2, 1, 65, None, ''eth0'')" "link_msg False ?b"
    by (intro demo_link_of; simp)+
  have ok: "stream_ok 16384 (link_msg False) ?rth [[?a]] [?b]"
    using l(2,4) by (simp add: stream_ok_def)
      (simp add: demo_link_def msg_ok_def msg_size_def answers_dump_def enc_attrs_def nl_align_def demo_rth_def)
  have links: "List.map_filter (link_of False) (concat [[?a]] @ [?b]) = [(1, 1, 73, None, ''lo''), (2, 1, 65, None, ''eth0'')]"
    using l by (simp add: map_filter_simps)
  have w: "nl_answers ?w k = 5" "nl_calls ?w = []" "inbox ?w = map (datagram False) (dump_stream ?rth [[?a]] [?b])"
      "u32_add (seq demo_rth) 1 = 42" for k
    by (simp_all add: demo_nl_def demo_rth_def u32_add_def)
  obtain st' w' where r: "ll_init_map False 3 (replicate 16384 0) demo_rth demo_table ?w = Some (Inr (0, st', ?rth, w'))"
      "\<forall>j. (ll_index_to_name j st', ll_index_to_type j st', ll_index_to_flags j st') =
        (case map_of (rev [(1, 1, 73, None, ''lo''), (2, 1, 65, None, ''eth0'')]) j of
           Some (ty, fl, ad, nm) \<Rightarrow> if j = 0 then (''*'', - 1, 0) else (nm, ty, fl)
         | None \<Rightarrow> (ll_index_to_name j demo_table, ll_index_to_type j demo_table, ll_index_to_flags j demo_table))"
    using ll_init_map_correct [OF demo_table_ready _ _ _ _ ok, where ifla_max = 3 and ?buf0.0 = "replicate 16384 0" and w = ?w, unfolded links] w by auto
  have "ll_index_to_name 2 st' = ''eth0''" "ll_index_to_flags 1 st' = 73" "ll_index_to_type 5 st' = - 1"
    using r(2) [rule_format, of 2] r(2) [rule_format, of 1] r(2) [rule_format, of 5]
    by (simp_all add: ll_index_to_type_def demo_table_def)
  then show ?thesis using r(1) by blast
qed

end
