(* ===== verification/Netlink_Replay.thy ===== *)
theory Netlink_Replay
  imports Ll_Map
begin

text \<open>
  The other two loops over messages of src/libnetlink/libnetlink.c: \<open>rtnl_listen\<close>, which hands every message of
  every datagram to a handler, and \<open>rtnl_from_file\<close>, which does so with the messages of a file. For a handler
  under the contract \<open>msg_filter\<close> both are proved to feed the messages in order; with the link table of
  Ll_Map as the handler they build the same table.
\<close>

fun feed :: "(nl_msg \<Rightarrow> 'a \<Rightarrow> int \<times> 'a) \<Rightarrow> nl_msg list \<Rightarrow> 'a \<Rightarrow> int option \<times> 'a" where
  "feed g [] a = (None, a)"
| "feed g (m # ms) a = (let (r, a') = g m a in if r < 0 then (Some r, a') else feed g ms a')"

text \<open>Datagrams one after the other; an empty one is the end of the socket.\<close>

fun feed_datagrams :: "(nl_msg \<Rightarrow> 'a \<Rightarrow> int \<times> 'a) \<Rightarrow> nl_msg list list \<Rightarrow> 'a \<Rightarrow> (int \<times> 'a) option" where
  "feed_datagrams g [] a = None"
| "feed_datagrams g (ms # mss) a =
     (if ms = [] then Some (- 1, a)
      else case feed g ms a of (Some r, a') \<Rightarrow> Some (r, a') | (None, a') \<Rightarrow> feed_datagrams g mss a')"

lemma msg_size_split: "length (body m) \<le> 65535 \<Longrightarrow> msg_size m = 16 + nl_align (length (body m))"
  using div_mult_self2 [of 4 "length (body m) + 3" 4] by (simp add: msg_size_def nl_align_small add.commute)

text \<open>One round of the loop over a file: the header, then the data of its message.\<close>

lemma from_file_message:
  assumes "length hdr = 16" and "length data = nl_align n" and "take 4 hdr = enc be 4 (16 + n)" and "n \<le> 65535"
    and "16 + nl_align n \<le> 8192" and "length buf = 8192"
  shows "from_file_loop be flt buf (hdr @ data @ rest) a =
    (case flt 0 (hdr @ data @ drop (nl_align n) (drop 16 buf)) 0 a of
       Inl x \<Rightarrow> Inl x
     | Inr (err, a') \<Rightarrow>
         if err < 0 then Inr (err, a')
         else from_file_loop be flt (hdr @ data @ drop (nl_align n) (drop 16 buf)) rest a')"
proof -
  have parts: "take 16 (hdr @ data @ rest) = hdr" "drop 16 (hdr @ data @ rest) = data @ rest" "hdr @ data @ rest \<noteq> []"
    using assms(1) by auto
  have buf1: "received buf hdr = hdr @ drop 16 buf" using assms(1,6) by (simp add: received_def)
  have ld: "load be 4 (hdr @ drop 16 buf) 0 = Inr (16 + n)" using assms(1,3,4) by (simp add: load_def dec_enc)
  have s: "s32 (int (16 + n)) = int (16 + n)" "s32 (int (16 + n) - 16) = int n" using assms(4) by (subst s32_id; simp)+
  have n: "n \<le> nl_align n" "16 + n \<le> 8192" using nl_align_bounds [of n] assms(4,5) by simp_all
  have data: "take (nl_align n) (data @ rest) = data" "drop (nl_align n) (data @ rest) = rest" using assms(2) by simp_all
  have buf2: "take 16 (hdr @ drop 16 buf) @ data @ drop (16 + nl_align n) (hdr @ drop 16 buf) =
      hdr @ data @ drop (nl_align n) (drop 16 buf)" using assms(1,2) by simp
  have guard: "\<not> (int n < 0 \<or> int (length buf) < int (16 + n) \<or> int (16 + n) < 0)"
      "\<not> length buf < 16 + nl_align n" "\<not> int (nl_align n) < int n"
    using n assms(2,5,6) by simp_all
  show ?thesis
    by (subst from_file_loop.simps) (simp only: parts buf1 ld sum.case Let_def s nat_int data buf2 guard if_False assms(2))
qed

lemma enc_msg_split:
  assumes "msg_ok m"
  shows "\<exists>hdr data. enc_msg be m = hdr @ data \<and> length hdr = 16 \<and> length data = nl_align (length (body m)) \<and>
    take 4 hdr = enc be 4 (16 + length (body m))"
proof -
  let ?hdr = "nlmsghdr be (16 + length (body m)) (mtype m) (mflags m) (mseq m) (mpid m)"
  let ?data = "body m @ replicate (msg_size m - (16 + length (body m))) 0"
  have "length (body m) \<le> nl_align (length (body m))"
    using assms nl_align_bounds [of "length (body m)"] by (simp add: msg_ok_def)
  then have "length ?data = nl_align (length (body m))"
    using assms msg_size_split [of m] by (simp add: msg_ok_def)
  moreover have "enc_msg be m = ?hdr @ ?data" by (simp add: enc_msg_def)
  moreover have "length ?hdr = 16" "take 4 ?hdr = enc be 4 (16 + length (body m))" by (simp_all add: nlmsghdr_def)
  ultimately show ?thesis by blast
qed

context msg_filter
begin

lemma feed_inv: "list_all ok ms \<Longrightarrow> P a \<Longrightarrow> P (snd (feed g ms a))"
  by (induction ms arbitrary: a) (auto simp: Let_def split: prod.split dest: flt_inv)

lemma listen_walk_feeds:
  assumes "msgs_at be buf h ms q" and "list_all ok ms" and "q - h < 2 ^ 31" and "P a"
  shows "\<exists>status. listen_walk be flt tr who buf h (int q - int h) a =
      Inr (fst (feed g ms a), status, snd (feed g ms a)) \<and> (fst (feed g ms a) = None \<longrightarrow> status = 0)"
  using assms
proof (induction ms arbitrary: h a)
  case Nil
  then show ?case by (subst listen_walk.simps) (simp add: u32_def)
next
  case (Cons m ms)
  let ?h = "h + msg_size m" and ?L = "16 + length (body m)"
  have m: "msg_at be buf h m" "msgs_at be buf ?h ms q" "ok m" using Cons.prems by simp_all
  have L: "length (body m) \<le> 65535" "load be 4 buf h = Inr ?L" using m(1) by (simp_all add: msg_at_def)
  have hq: "?h \<le> q" using msgs_at_le [OF m(2)] .
  have st: "16 \<le> int q - int h" "int q - int h < 2 ^ 31" "int ?L \<le> int q - int h"
    using hq msg_size_bounds [OF L(1)] Cons.prems(3) by auto
  have u: "\<not> u32 (int q - int h) < 16" using st(1,2) by (simp add: u32_def)
  have s: "s32 (int ?L) = int ?L" "s32 (int ?L - 16) = int (length (body m))" using L(1) by (subst s32_id; simp)+
  have nx: "h + nl_align ?L = ?h" "s32 (int q - int h - int (nl_align ?L)) = int q - int ?h"
    using hq st(2) by (simp_all add: msg_size_def) (subst s32_id; simp)
  obtain r a1 where g: "g m a = (r, a1)" by (cases "g m a")
  have P1: "P a1" using flt_inv [OF m(3) Cons.prems(4)] g by simp
  have unf: "listen_walk be flt tr who buf h (int q - int h) a =
      (if r < 0 then Inr (Some r, int q - int h, a1) else listen_walk be flt tr who buf ?h (int q - int ?h) a1)"
    using u st(3) by (subst listen_walk.simps) (simp add: L(2) s nx Let_def flt_law [OF m(1,3) Cons.prems(4)] g del: of_nat_add)
  show ?case unfolding unf using Cons.IH [OF m(2) _ _ P1] Cons.prems(2,3) by (auto simp: g)
qed

lemma listen_feeds:
  assumes "list_all (list_all (\<lambda>m. msg_ok m \<and> ok m)) mss" and "list_all (\<lambda>ms. sum_list (map msg_size ms) \<le> length buf) mss"
    and "length buf < 2 ^ 31" and "P a"
  shows "case feed_datagrams g mss a of
      None \<Rightarrow> listen_loop be flt buf (map (datagram be) (map (Pair who) mss)) a e = None
    | Some (r, a') \<Rightarrow> \<exists>rest. listen_loop be flt buf (map (datagram be) (map (Pair who) mss)) a e = Some (Inr (r, a', e, rest))"
  using assms
proof (induction mss arbitrary: buf a)
  case (Cons ms mss)
  let ?data = "concat (map (enc_msg be) ms)"
  let ?buf = "received buf ?data"
  have ok: "list_all msg_ok ms" "list_all ok ms" "sum_list (map msg_size ms) \<le> length buf"
    using Cons.prems(1,2) by (simp_all add: list_all_iff)
  note at = received_msgs [OF ok(1,3), of be]
  have stat: "int (min (length buf) (length ?data)) = int (length ?data) - int 0" using at(2) by simp
  obtain status where w: "listen_walk be flt False who ?buf 0 (int (length ?data) - int 0) a =
      Inr (fst (feed g ms a), status, snd (feed g ms a))" "fst (feed g ms a) = None \<longrightarrow> status = 0"
    using listen_walk_feeds [OF at(1) ok(2) _ Cons.prems(4)] at(2) Cons.prems(3) by fastforce
  have "P (snd (feed g ms a))" using feed_inv [OF ok(2) Cons.prems(4)] .
  then have IH: "case feed_datagrams g mss (snd (feed g ms a)) of
      None \<Rightarrow> listen_loop be flt ?buf (map (datagram be) (map (Pair who) mss)) (snd (feed g ms a)) e = None
    | Some (r, a') \<Rightarrow> \<exists>rest. listen_loop be flt ?buf (map (datagram be) (map (Pair who) mss)) (snd (feed g ms a)) e =
        Some (Inr (r, a', e, rest))"
    using Cons.prems at(4) by (intro Cons.IH) simp_all
  have nt: "\<not> length buf < length ?data" using at(2) by simp
  have loop: "listen_loop be flt buf (map (datagram be) (map (Pair who) (ms # mss))) a e =
      (if ms = [] then Some (Inr (- 1, a, e, map (datagram be) (map (Pair who) mss)))
       else case feed g ms a of
           (Some r, a') \<Rightarrow> Some (Inr (r, a', e, map (datagram be) (map (Pair who) mss)))
         | (None, a') \<Rightarrow> listen_loop be flt ?buf (map (datagram be) (map (Pair who) mss)) a' e)"
    unfolding list.map datagram_def listen_loop.simps snd_conv fst_conv Let_def stat
    using at(3) nt w by (cases "feed g ms a") (auto split: option.split)
  show ?case unfolding loop using IH by (cases "feed g ms a") (auto split: option.split)
qed simp

lemma file_feeds:
  assumes "list_all (\<lambda>m. msg_ok m \<and> ok m \<and> msg_size m \<le> 8192) ms" and "length buf = 8192" and "P a"
  shows "from_file_loop be flt buf (concat (map (enc_msg be) ms)) a =
    Inr (case feed g ms a of (Some r, a') \<Rightarrow> (r, a') | (None, a') \<Rightarrow> (0, a'))"
  using assms
proof (induction ms arbitrary: buf a)
  case Nil
  then show ?case by (subst from_file_loop.simps) simp
next
  case (Cons m ms)
  let ?rest = "concat (map (enc_msg be) ms)" and ?lb = "length (body m)"
  have m: "msg_ok m" "ok m" "msg_size m \<le> 8192" and lb: "?lb \<le> 65535" using Cons.prems(1) by (simp_all add: msg_ok_def)
  obtain hdr data where e: "enc_msg be m = hdr @ data" "length hdr = 16" "length data = nl_align ?lb"
      "take 4 hdr = enc be 4 (16 + ?lb)" using enc_msg_split [OF m(1)] by blast
  have sz: "16 + nl_align ?lb \<le> 8192" "?lb \<le> nl_align ?lb" "16 + ?lb \<le> 8192"
    using m(3) msg_size_split [OF lb] nl_align_bounds [of ?lb] lb by simp_all
  let ?buf2 = "enc_msg be m @ drop (nl_align ?lb) (drop 16 buf)"
  have "msg_at be ?buf2 0 m" using msg_at_enc [OF m(1), of be "[]"] by simp
  then have f: "flt 0 ?buf2 0 a = Inr (g m a)" using m(2) Cons.prems(3) by (rule flt_law)
  obtain r' a1 where g: "g m a = (r', a1)" by (cases "g m a")
  have P1: "P a1" using flt_inv [OF m(2) Cons.prems(3)] g by simp
  have "length ?buf2 = 8192" using e Cons.prems(2) sz(1) by simp
  then have IH: "from_file_loop be flt ?buf2 ?rest a1 =
      Inr (case feed g ms a1 of (Some r, a') \<Rightarrow> (r, a') | (None, a') \<Rightarrow> (0, a'))"
    using Cons.prems(1) P1 by (intro Cons.IH) simp_all
  have "from_file_loop be flt buf (concat (map (enc_msg be) (m # ms))) a =
      (if r' < 0 then Inr (r', a1) else from_file_loop be flt ?buf2 ?rest a1)"
    using from_file_message [OF e(2,3,4) lb sz(1) Cons.prems(2), of flt ?rest a] f by (simp add: e(1) g)
  then show ?case using IH by (simp add: g)
qed

end

subsection \<open>The link table fed by both\<close>

lemma feed_no_error:
  assumes "\<And>m a. fst (g m a) = 0"
  shows "feed g ms a = (None, fold (\<lambda>m. snd \<circ> g m) ms a)"
proof (induction ms arbitrary: a)
  case (Cons m ms)
  obtain a' where "g m a = (0, a')" using assms by (metis prod.collapse)
  then show ?case using Cons by simp
qed simp

lemma feed_datagrams_no_error:
  assumes "\<And>m a. fst (g m a) = 0" and "list_all (\<lambda>ms. ms \<noteq> []) mss"
  shows "feed_datagrams g (mss @ [[]]) a = Some (- 1, fold (\<lambda>m. snd \<circ> g m) (concat mss) a)"
  using assms(2) by (induction mss arbitrary: a) (simp_all add: feed_no_error [of g, OF assms(1)])

lemma put_msg_zero: "fst (put_msg be m st) = 0"
  by (simp add: put_msg_def)

lemma fold_put_msg_comp: "fold (\<lambda>m. snd \<circ> put_msg be m) ms st = fold ll_put (List.map_filter (link_of be) ms) st"
  using fold_put_msg [of be ms st] by (simp add: comp_def)

text \<open>A stream of link messages as the kernel sends it: datagrams of at most 8192 bytes.\<close>

definition link_stream :: "bool \<Rightarrow> nl_msg list list \<Rightarrow> bool" where
  "link_stream be mss \<longleftrightarrow> list_all (\<lambda>ms. ms \<noteq> [] \<and> list_all (\<lambda>m. msg_ok m \<and> link_msg be m) ms \<and>
     sum_list (map msg_size ms) \<le> 8192) mss"

lemma link_stream_messages:
  assumes "link_stream be mss"
  shows "list_all (\<lambda>m. msg_ok m \<and> link_msg be m \<and> msg_size m \<le> 8192) (concat mss)"
proof -
  have "msg_size m \<le> 8192" if "ms \<in> set mss" "m \<in> set ms" for ms m
    using that assms member_le_sum_list [of "msg_size m" "map msg_size ms"]
    by (fastforce simp: link_stream_def list_all_iff)
  then show ?thesis using assms by (auto simp: link_stream_def list_all_iff)
qed

text \<open>C26: Listening to link messages on the socket and reading the same messages back from a file build the same
  link table. \<open>rtnl_listen\<close> returns -1 at the end of the socket and \<open>rtnl_from_file\<close> returns 0; the table
  is in order, and every index has what the last message about it says, or what it had before.\<close>

theorem links_replayed:
  assumes "table_ready st" and "3 \<le> ifla_max" and "length buf = 8192" and "length fbuf = 8192" and "link_stream be mss"
    and "inbox w = map (datagram be) (map (Pair who) (mss @ [[]]))"
  shows "\<exists>st' rest.
     rtnl_listen be buf (ll_remember_index be ifla_max) st w = Some (Inr (- 1, st', w\<lparr>inbox := rest\<rparr>)) \<and>
     rtnl_from_file be fbuf (concat (map (enc_msg be) (concat mss))) (ll_remember_index be ifla_max) st = Inr (0, st') \<and>
     table_ready st' \<and>
     (\<forall>j. ll_view st' j = (case map_of (rev (List.map_filter (link_of be) (concat mss))) j of
        Some x \<Rightarrow> Some (link_view x) | None \<Rightarrow> ll_view st j))"
proof -
  let ?us = "List.map_filter (link_of be) (concat mss)"
  let ?st = "fold ll_put ?us st"
  note filter = remember_filter [OF assms(2), of be]
  have ok: "list_all (list_all (\<lambda>m. msg_ok m \<and> link_msg be m)) (mss @ [[]])"
      "list_all (\<lambda>ms. sum_list (map msg_size ms) \<le> length buf) (mss @ [[]])" "list_all (\<lambda>ms. ms \<noteq> []) mss"
    using assms(3,5) by (auto simp: link_stream_def list_all_iff)
  note fits = map_filter_fits [of be "concat mss"]
  have links: "list_all (link_msg be) (concat mss)" using link_stream_messages [OF assms(5)] by (auto simp: list_all_iff)
  have "feed_datagrams (put_msg be) (mss @ [[]]) st = Some (- 1, ?st)"
    using feed_datagrams_no_error [of "put_msg be", OF put_msg_zero ok(3)] by (simp only: fold_put_msg_comp)
  then obtain rest where listen: "listen_loop be (ll_remember_index be ifla_max) buf (inbox w) st (nl_errno w) =
      Some (Inr (- 1, ?st, nl_errno w, rest))"
    using msg_filter.listen_feeds [OF filter ok(1,2) _ assms(1), of who "nl_errno w"] assms(3,6) by auto
  have "feed (put_msg be) (concat mss) st = (None, ?st)"
    using feed_no_error [of "put_msg be", OF put_msg_zero] by (simp only: fold_put_msg_comp)
  then have read: "from_file_loop be (ll_remember_index be ifla_max) fbuf (concat (map (enc_msg be) (concat mss))) st =
      Inr (0, ?st)"
    using msg_filter.file_feeds [OF filter link_stream_messages [OF assms(5)] assms(4,1)] by simp
  have "table_ready ?st" "ll_view ?st j = (case map_of (rev ?us) j of Some x \<Rightarrow> Some (link_view x) | None \<Rightarrow> ll_view st j)" for j
    using ll.fold_upd [OF assms(1) fits [OF links]] by blast+
  then show ?thesis using listen read by (auto simp: rtnl_listen_def rtnl_from_file_def)
qed

theorem links_replayed_witness:
  "\<exists>st' rest. let w = demo_nl (map (datagram False) (map (Pair 0) ([[demo_link demo_rth 1 ''lo'' 73, demo_link demo_rth 2 ''eth0'' 65]] @ [[]])))
     in rtnl_listen False (replicate 8192 0) (ll_remember_index False 3) demo_table w = Some (Inr (- 1, st', w\<lparr>inbox := rest\<rparr>)) \<and>
        ll_view st' 2 = Some (1, 65, ''eth0'')"
proof -
  let ?a = "demo_link demo_rth 1 ''lo'' 73" and ?b = "demo_link demo_rth 2 ''eth0'' 65"
  let ?w = "demo_nl (map (datagram False) (map (Pair 0) ([[?a, ?b]] @ [[]])))"
  have l: "link_of False ?a = Some (1, 1, 73, None, ''lo'')" "link_msg False ?a"
      "link_of False ?b = Some (2, 1, 65, None, ''eth0'')" "link_msg False ?b"
    by (intro demo_link_of; simp)+
  have ok: "link_stream False [[?a, ?b]]"
    using l(2,4) by (simp add: link_stream_def)
      (simp add: demo_link_def msg_ok_def msg_size_def enc_attrs_def nl_align_def demo_rth_def)
  have links: "List.map_filter (link_of False) (concat [[?a, ?b]]) = [(1, 1, 73, None, ''lo''), (2, 1, 65, None, ''eth0'')]"
    using l by (simp add: map_filter_simps)
  have "inbox ?w = map (datagram False) (map (Pair 0) ([[?a, ?b]] @ [[]]))" by (simp add: demo_nl_def)
  note r = links_replayed [OF demo_table_ready order_refl length_replicate length_replicate ok this, unfolded links]
  then obtain st' rest where
    "rtnl_listen False (replicate 8192 0) (ll_remember_index False 3) demo_table ?w = Some (Inr (- 1, st', ?w\<lparr>inbox := rest\<rparr>))"
    "\<forall>j. ll_view st' j = (case map_of (rev [(1, 1, 73, None, ''lo''), (2, 1, 65, None, ''eth0'')]) j of
        Some x \<Rightarrow> Some (link_view x) | None \<Rightarrow> ll_view demo_table j)" by blast
  then show ?thesis by (auto simp: Let_def link_view_def split: option.splits)
qed

end
