(* ===== verification/Gateway.thy ===== *)
theory Gateway
  imports Netlink
begin

text \<open>
  The default gateway and the checksum of src/if.c: \<open>_filter_default_gw\<close> picks the gateway out of a dump
  of routes, \<open>libamg_get_default_gw_ipaddr\<close> asks the kernel for the dump, \<open>_in_cksum\<close> is the checksum of the
  echo request. An address is the four bytes of \<open>struct in_addr\<close>, in network order as the kernel sends
  them. \<open>RTA_MAX\<close>, the size of the table of attributes, is the parameter \<open>rta_max\<close>.
\<close>

definition RTM_NEWROUTE :: nat where "RTM_NEWROUTE = 24"
definition RTM_DELROUTE :: nat where "RTM_DELROUTE = 25"
definition RTM_GETROUTE :: nat where "RTM_GETROUTE = 26"
definition RTA_DST :: nat where "RTA_DST = 1"
definition RTA_GATEWAY :: nat where "RTA_GATEWAY = 5"
definition RTA_TABLE :: nat where "RTA_TABLE = 15"
definition RT_TABLE_MAIN :: nat where "RT_TABLE_MAIN = 254"
definition AF_INET :: nat where "AF_INET = 2"

subsection \<open>The filter\<close>

text \<open>The payload starts with \<open>rtmsg\<close>, 12 bytes, whose first byte is the family.\<close>

definition filter_default_gw ::
    "bool \<Rightarrow> nat \<Rightarrow> nat \<Rightarrow> byte list \<Rightarrow> nat \<Rightarrow> byte list \<Rightarrow> (int \<times> byte list) outcome" where
  "filter_default_gw be rta_max who buf n ip =
     obind (load be 4 buf n) (\<lambda>nlen.
     obind (load be 2 buf (n + 4)) (\<lambda>ty.
     if ty \<noteq> RTM_NEWROUTE \<and> ty \<noteq> RTM_DELROUTE then Inr (- 1, ip)
     else
       let len = s32 (int nlen - 28) in
       if len < 0 then Inr (- 1, ip)
       else
         obind (parse_rtattr be buf rta_max (n + 28) len) (\<lambda>(_, tb).
         obind (load be 1 buf (n + 16)) (\<lambda>family.
         if family \<noteq> AF_INET then Inr (0, ip)
         else
           obind (case tb ! RTA_TABLE of None \<Rightarrow> Inr RT_TABLE_MAIN | Some t \<Rightarrow> load be 4 buf (t + 4)) (\<lambda>table.
           if table \<noteq> RT_TABLE_MAIN then Inr (0, ip)
           else if tb ! RTA_DST \<noteq> None then Inr (0, ip)
           else case tb ! RTA_GATEWAY of
               None \<Rightarrow> Inr (0, ip)
             | Some g \<Rightarrow> obind (load be 4 buf (g + 4)) (\<lambda>a. Inr (0, enc be 4 a)))))))"

definition libamg_get_default_gw_ipaddr ::
    "bool \<Rightarrow> nat \<Rightarrow> byte list \<Rightarrow> nl_world \<Rightarrow> (int \<times> byte list \<times> nl_world) outcome option" where
  "libamg_get_default_gw_ipaddr be rta_max buf0 w =
     (let ip = [0, 0, 0, 0]; (r, rth, w1) = rtnl_open 0 w in
      if r < 0 then Some (Inr (- 1, ip, w1))
      else
        let (r, rth1, w2) = rtnl_wilddump_request be rth AF_INET RTM_GETROUTE w1 in
        if r < 0 then (let (_, w3) = rtnl_close rth1 w2 in Some (Inr (nl_errno w3, ip, w3)))
        else case rtnl_dump_filter be buf0 rth1 (filter_default_gw be rta_max) ip (None :: unit nl_filter option) () w2 of
            None \<Rightarrow> None
          | Some (Inl x) \<Rightarrow> Some (Inl x)
          | Some (Inr (r, ip', _, w3)) \<Rightarrow>
              (let (_, w4) = rtnl_close rth1 w3 in Some (Inr (if r < 0 then nl_errno w4 else 0, ip', w4))))"

subsection \<open>What the filter computes\<close>

definition route_attrs :: "bool \<Rightarrow> nl_msg \<Rightarrow> nat \<Rightarrow> byte list option" where
  "route_attrs be m = map_of (rev (dec_attrs be (drop 12 (body m))))"

text \<open>A route without destination in the main table of IPv4 is a default route.\<close>

definition default_route :: "bool \<Rightarrow> nl_msg \<Rightarrow> bool" where
  "default_route be m \<longleftrightarrow> body m ! 0 = 2 \<and> route_attrs be m RTA_DST = None \<and>
     (case route_attrs be m RTA_TABLE of None \<Rightarrow> True | Some d \<Rightarrow> dec be d = RT_TABLE_MAIN)"

definition gateway_of :: "bool \<Rightarrow> nl_msg \<Rightarrow> byte list option" where
  "gateway_of be m = (if default_route be m then route_attrs be m RTA_GATEWAY else None)"

text \<open>A message about a route as the kernel sends it: attributes fill it, table and gateway have 4 bytes.\<close>

definition route_msg :: "bool \<Rightarrow> nl_msg \<Rightarrow> bool" where
  "route_msg be m \<longleftrightarrow> (mtype m = RTM_NEWROUTE \<or> mtype m = RTM_DELROUTE) \<and> 12 \<le> length (body m) \<and>
     attrs_whole be (drop 12 (body m)) \<and>
     (case route_attrs be m RTA_TABLE of None \<Rightarrow> True | Some d \<Rightarrow> length d = 4) \<and>
     (case route_attrs be m RTA_GATEWAY of None \<Rightarrow> True | Some d \<Rightarrow> length d = 4)"

definition set_gateway :: "bool \<Rightarrow> nl_msg \<Rightarrow> byte list \<Rightarrow> int \<times> byte list" where
  "set_gateway be m ip = (0, case gateway_of be m of None \<Rightarrow> ip | Some d \<Rightarrow> d)"

lemma le_bytes_val: "le_bytes (length bs) (le_val bs) = bs"
proof (induction bs)
  case (Cons b bs)
  have b: "unat b < 256" by (rule order.strict_trans2 [OF unsigned_less]) simp
  have z: "(256 :: byte) = 0" by simp
  have "word_of_nat (unat b + 256 * le_val bs) = b + 256 * word_of_nat (le_val bs)" by simp
  also have "\<dots> = b" by (simp only: z mult_zero_left add_0_right)
  finally have "word_of_nat (unat b + 256 * le_val bs) = b" .
  then show ?case using Cons b by simp
qed simp

lemma enc_dec: "length bs = n \<Longrightarrow> enc be n (dec be bs) = bs"
  using le_bytes_val [of bs] le_bytes_val [of "rev bs"] by (auto simp: enc_def dec_def)

lemma attr_value:
  assumes "attr_data be buf (Some p) = Some d" and "length d = n" and "0 < n"
  shows "load be n buf (p + 4) = Inr (dec be d)"
proof -
  obtain k where k: "take k (drop (p + 4) buf) = d"
    using assms(1) by (auto simp: attr_data_def split: sum.splits)
  then have "take n (drop (p + 4) buf) = d" "p + 4 + n \<le> length buf"
    using assms(2,3) by (auto simp: take_all_iff min_def split: if_splits)
  then show ?thesis using assms by (auto simp: load_def)
qed

lemma attr_word:
  assumes "attr_data be buf r = d" and "r = None \<longleftrightarrow> d = None"
  shows "case d of None \<Rightarrow> r = None | Some v \<Rightarrow> length v = 4 \<longrightarrow> (\<exists>p. r = Some p \<and> load be 4 buf (p + 4) = Inr (dec be v))"
  using assms attr_value [of be buf _ _ 4] by (cases r) (auto split: option.split)

lemma filter_route:
  assumes "msg_at be buf h m" and "route_msg be m" and "15 \<le> rta_max"
  shows "filter_default_gw be rta_max who buf h ip = Inr (set_gateway be m ip)"
proof -
  have m: "mtype m = RTM_NEWROUTE \<or> mtype m = RTM_DELROUTE" "12 \<le> length (body m)" "attrs_whole be (drop 12 (body m))"
    using assms(2) by (simp_all add: route_msg_def)
  have ld: "load be 4 buf h = Inr (16 + length (body m))" "load be 2 buf (h + 4) = Inr (mtype m)"
    using assms(1) by (simp_all add: msg_at_def)
  have len: "s32 (int (16 + length (body m)) - 28) = int (length (body m)) - int 12"
    using assms(1) by (subst s32_id) (auto simp: msg_at_def)
  have "load be 1 buf (h + 16) = Inr (dec be (take 1 (body m)))"
    using load_body [OF assms(1), of 0 1] m(2) by simp
  moreover have "take 1 (body m) = [body m ! 0]" using m(2) by (cases "body m") auto
  ultimately have family: "load be 1 buf (h + 16) = Inr (unat (body m ! 0))" by (simp add: dec_def)
  obtain tb where tb: "parse_rtattr be buf rta_max (h + 28) (int (length (body m)) - int 12) = Inr (0, tb)"
      "\<forall>t \<le> rta_max. attr_data be buf (tb ! t) = route_attrs be m t"
    using parse_body [OF assms(1) m(2,3), of rta_max] by (auto simp: route_attrs_def add.assoc)
  have t: "attr_data be buf (tb ! u) = route_attrs be m u" "tb ! u = None \<longleftrightarrow> route_attrs be m u = None" if "u \<le> 15" for u
    using tb(2) parse_rtattr_loaded [OF tb(1), of u] that assms(3) by auto
  have table: "(case tb ! RTA_TABLE of None \<Rightarrow> Inr RT_TABLE_MAIN | Some t \<Rightarrow> load be 4 buf (t + 4)) =
      Inr (case route_attrs be m RTA_TABLE of None \<Rightarrow> RT_TABLE_MAIN | Some d \<Rightarrow> dec be d)"
    using attr_word [OF t [of RTA_TABLE]] assms(2) by (simp add: route_msg_def RTA_TABLE_def split: option.splits)
  have gw: "(case tb ! RTA_GATEWAY of None \<Rightarrow> Inr (0, ip) | Some g \<Rightarrow> obind (load be 4 buf (g + 4)) (\<lambda>a. Inr (0, enc be 4 a))) =
      Inr (0 :: int, case route_attrs be m RTA_GATEWAY of None \<Rightarrow> ip | Some d \<Rightarrow> d)"
    using attr_word [OF t [of RTA_GATEWAY]] assms(2) enc_dec [of _ 4]
    by (auto simp: route_msg_def RTA_GATEWAY_def split: option.splits)
  have "unat (2 :: byte) = 2" by simp
  then have fam: "unat (body m ! 0) = AF_INET \<longleftrightarrow> body m ! 0 = 2" by (metis AF_INET_def word_unat_eq_iff)
  show ?thesis
    unfolding filter_default_gw_def
    using ld len m(1,2) tb(1) family table gw t(2) [of RTA_DST]
    by (cases "route_attrs be m RTA_TABLE")
      (simp_all add: set_gateway_def gateway_of_def default_route_def fam RTA_DST_def)
qed

lemma gateway_filter:
  assumes "15 \<le> rta_max"
  shows "msg_filter be (filter_default_gw be rta_max) (set_gateway be) (route_msg be) (\<lambda>_. True)"
  by unfold_locales (simp_all add: filter_route assms)

interpretation gateway: msg_filter be "filter_default_gw be (15 + k)" "set_gateway be" "route_msg be" "\<lambda>_. True"
  for be k by (rule gateway_filter) simp

subsection \<open>The default gateway of a dump\<close>

text \<open>The kernel answers the seven calls, and names the socket as a netlink socket.\<close>

definition netlink_works :: "nl_world \<Rightarrow> bool" where
  "netlink_works w \<longleftrightarrow> list_all (\<lambda>k. 0 \<le> nl_answers w (length (nl_calls w) + k)) [0..<7] \<and>
     name_len (sock_names w (length (nl_calls w) + 4)) = 12 \<and>
     name_family (sock_names w (length (nl_calls w) + 4)) = 16"

text \<open>The handle after the request has been sent.\<close>

definition request_handle :: "nl_world \<Rightarrow> rtnl_handle" where
  "request_handle w =
     (let nm = sock_names w (length (nl_calls w) + 4); s = u32_add (nl_time w mod 2 ^ 32) 1 in
      \<lparr>fd = nl_answers w (length (nl_calls w)), local_family = 16, local_pid = name_pid nm,
        local_groups = name_groups nm, seq = s, dump = s\<rparr>)"

definition last_gateway :: "bool \<Rightarrow> nl_msg list \<Rightarrow> byte list" where
  "last_gateway be ms = (case rev (List.map_filter (gateway_of be) ms) of [] \<Rightarrow> [0, 0, 0, 0] | g # gs \<Rightarrow> g)"

lemma fold_set_gateway:
  "fold (\<lambda>m ip. snd (set_gateway be m ip)) ms ip =
     (case rev (List.map_filter (gateway_of be) ms) of [] \<Rightarrow> ip | g # gs \<Rightarrow> g)"
proof (induction ms arbitrary: ip)
  case (Cons m ms)
  then show ?case
    by (simp add: set_gateway_def map_filter_simps split: option.split)
      (auto split: list.split)
qed (simp add: map_filter_simps)

lemma nl_log_extend:
  assumes "nl_calls w' = nl_calls w @ cs" and "nl_answers w' = nl_answers w"
  shows "nl_log w' = nl_log w @ zip cs (map (nl_answers w) [length (nl_calls w)..<length (nl_calls w) + length cs])"
  unfolding nl_log_def assms length_append upt_add_eq_append [OF le0] map_append by (simp add: zip_append)

lemma nl_call_ok: "0 \<le> nl_answers w (length (nl_calls w)) \<Longrightarrow>
    nl_call c w = (nl_answers w (length (nl_calls w)), w\<lparr>nl_calls := nl_calls w @ [c]\<rparr>)"
  by (simp add: nl_call_def Let_def)

lemma answers_ok:
  assumes "netlink_works w"
  shows "0 \<le> nl_answers w (length (nl_calls w))" "0 \<le> nl_answers w (Suc (length (nl_calls w)))"
    "0 \<le> nl_answers w (Suc (Suc (length (nl_calls w))))" "0 \<le> nl_answers w (Suc (Suc (Suc (length (nl_calls w)))))"
    "0 \<le> nl_answers w (Suc (Suc (Suc (Suc (length (nl_calls w))))))"
    "0 \<le> nl_answers w (Suc (Suc (Suc (Suc (Suc (length (nl_calls w)))))))"
    "0 \<le> nl_answers w (Suc (Suc (Suc (Suc (Suc (Suc (length (nl_calls w))))))))"
  using assms by (simp_all add: netlink_works_def upt_rec numeral_eq_Suc)

lemma plus_4: "n + 4 = Suc (Suc (Suc (Suc n)))"
  by simp

lemma rtnl_open_ok:
  assumes "netlink_works w" and "s = nl_answers w (length (nl_calls w))"
  shows "rtnl_open 0 w = (0, (request_handle w)\<lparr>seq := nl_time w mod 2 ^ 32, dump := 0\<rparr>,
    w\<lparr>nl_calls := nl_calls w @ [Socket 0, Setsockopt s SO_SNDBUF 32768, Setsockopt s SO_RCVBUF 32768, Bind s 0, Getsockname s]\<rparr>)"
  using answers_ok [OF assms(1)] assms
  by (simp add: rtnl_open_def rtnl_open_byproto_def netlink_works_def request_handle_def nl_call_ok Let_def plus_4)

lemma default_gateway_run:
  assumes "netlink_works w" and "15 \<le> rta_max" and "length buf0 = 16384" and "inbox w = map (datagram be) ds"
    and "list_all (datagram_ok 16384 (\<lambda>m. answers_dump (request_handle w) m \<longrightarrow> route_msg be m)) ds"
    and "dump_datagrams be (set_gateway be) (request_handle w) ds [0, 0, 0, 0] (nl_errno w) = Some (r, ip, e)"
  shows "\<exists>w'. libamg_get_default_gw_ipaddr be rta_max buf0 w = Some (Inr (if r < 0 then e else 0, ip, w')) \<and>
     opened (nl_log w') = opened (nl_log w)"
proof -
  let ?h = "request_handle w" and ?n = "length (nl_calls w)" and ?s = "nl_answers w (length (nl_calls w))"
  let ?calls = "[Socket 0, Setsockopt ?s SO_SNDBUF 32768, Setsockopt ?s SO_RCVBUF 32768, Bind ?s 0, Getsockname ?s]"
  let ?req = "nlmsghdr be 20 26 0x301 (seq ?h) 0 @ [2, 0, 0, 0]"
  let ?w1 = "w\<lparr>nl_calls := nl_calls w @ ?calls\<rparr>"
  let ?w2 = "w\<lparr>nl_calls := nl_calls w @ ?calls @ [Send ?s ?req]\<rparr>"
  note ans = answers_ok [OF assms(1)]
  have h: "fd ?h = ?s" "dump ?h = seq ?h" "seq ?h = u32_add (nl_time w mod 2 ^ 32) 1"
    by (simp_all add: request_handle_def Let_def)
  have req: "rtnl_wilddump_request be (?h\<lparr>seq := nl_time w mod 2 ^ 32, dump := 0\<rparr>) AF_INET RTM_GETROUTE ?w1 =
      (nl_answers w (Suc (Suc (Suc (Suc (Suc ?n))))), ?h, ?w2)"
    using ans(6) h by (simp add: rtnl_wilddump_request_def nl_call_ok Let_def DUMP_FLAGS_def AF_INET_def RTM_GETROUTE_def)
  obtain rest where run: "rtnl_dump_filter be buf0 ?h (filter_default_gw be rta_max) [0, 0, 0, 0]
      (None :: unit nl_filter option) () ?w2 = Some (Inr (r, ip, (), ?w2\<lparr>inbox := rest, nl_errno := e\<rparr>))"
    using dump_filter_refines [OF gateway_filter [OF assms(2)] _ _ TrueI, where w = ?w2 and rth = ?h and b = "()"
        and ?'b = unit and ds = ds and be = be and ?buf0.0 = buf0 and r = r and a' = ip and a = "[0, 0, 0, 0]" and e' = e]
      assms(3-6) by auto
  let ?w3 = "?w2\<lparr>inbox := rest, nl_errno := e\<rparr>"
  let ?w4 = "?w3\<lparr>nl_calls := nl_calls w @ ?calls @ [Send ?s ?req, Close ?s]\<rparr>"
  have cl: "rtnl_close ?h ?w3 = (?h\<lparr>fd := - 1\<rparr>, ?w4)"
    using ans(1,7) h(1) by (simp add: rtnl_close_def nl_call_ok)
  have "libamg_get_default_gw_ipaddr be rta_max buf0 w = Some (Inr (if r < 0 then e else 0, ip, ?w4))"
    unfolding libamg_get_default_gw_ipaddr_def rtnl_open_ok [OF assms(1) refl] Let_def prod.case req run option.case sum.case
    using ans(6) cl by simp
  moreover have "opened (nl_log ?w4) = opened (nl_log w)"
    using ans(1)
    by (subst nl_log_extend [of ?w4 w "?calls @ [Send ?s ?req, Close ?s]"]) (simp_all add: opened_append upt_conv_Cons)
  ultimately show ?thesis by blast
qed

lemma default_gateway_dump_result:
  assumes "netlink_works w" and "15 \<le> rta_max" and "length buf0 = 16384"
    and "inbox w = map (datagram be) (dump_stream (request_handle w) mss ms)"
    and "stream_ok 16384 (route_msg be) (request_handle w) mss ms"
  shows "\<exists>w'. libamg_get_default_gw_ipaddr be rta_max buf0 w = Some (Inr (0, last_gateway be (concat mss @ ms), w')) \<and>
     opened (nl_log w') = opened (nl_log w)"
proof -
  have "list_all (answers_dump (request_handle w)) (concat mss @ ms)" "list_all (\<lambda>ms. ms \<noteq> []) mss"
    using assms(5) by (auto simp: stream_ok_def list_all_iff)
  moreover have "fst (set_gateway be m a) = 0" for m a by (simp add: set_gateway_def)
  ultimately have "dump_datagrams be (set_gateway be) (request_handle w) (dump_stream (request_handle w) mss ms)
      [0, 0, 0, 0] (nl_errno w) = Some (0, last_gateway be (concat mss @ ms), nl_errno w)"
    using dump_datagrams_stream [where g = "set_gateway be" and rth = "request_handle w" and mss = mss and ms = ms]
    unfolding fold_set_gateway last_gateway_def by blast
  from default_gateway_run [OF assms(1-4) stream_datagrams_ok [OF assms(5)] this] show ?thesis by simp
qed

text \<open>C27: When the kernel answers and dumps its routes, in any number of datagrams, the call returns 0 and
  the gateway of the last default route of the main table in the dump, or 0.0.0.0 if there is none, and
  closes its socket.\<close>

theorem default_gateway_of_dump:
  assumes "netlink_works w" and "15 \<le> rta_max" and "length buf0 = 16384"
    and "inbox w = map (datagram be) (dump_stream (request_handle w) mss ms)"
    and "stream_ok 16384 (route_msg be) (request_handle w) mss ms"
  shows "\<exists>w'. libamg_get_default_gw_ipaddr be rta_max buf0 w = Some (Inr (0, last_gateway be (concat mss @ ms), w')) \<and>
     opened (nl_log w') = opened (nl_log w)"
  by (rule default_gateway_dump_result [OF assms])

text \<open>C28: When the kernel refuses the dump with an error code, the call returns that code, a positive number,
  and not -1, and closes its socket; the address is 0.0.0.0.\<close>

theorem default_gateway_refused:
  assumes "netlink_works w" and "15 \<le> rta_max" and "length buf0 = 16384" and "0 < v" and "v < 4096"
    and "inbox w = [datagram be (0, [error_msg be (seq (request_handle w)) (local_pid (request_handle w)) v])]"
    and "local_pid (request_handle w) < 2 ^ 32"
  shows "\<exists>w'. libamg_get_default_gw_ipaddr be rta_max buf0 w = Some (Inr (int v, [0, 0, 0, 0], w')) \<and>
     opened (nl_log w') = opened (nl_log w)"
proof -
  let ?h = "request_handle w"
  let ?m = "error_msg be (seq ?h) (local_pid ?h) v"
  have h: "dump ?h = seq ?h" "seq ?h < 2 ^ 32" by (simp_all add: request_handle_def Let_def u32_add_def)
  have v: "nat ((- int v) mod 2 ^ 32) = 2 ^ 32 - v" using assms(4,5) by (simp add: zmod_zminus1_eq_if nat_diff_distrib)
  have "dec be (take 4 (body ?m)) = 2 ^ 32 - v"
    unfolding error_msg_def v using assms(4) by (simp add: dec_enc)
  moreover have "s32 (int (2 ^ 32 - v)) = - int v"
    using assms(4,5) by (subst s32_high) auto
  moreover have "s32 (int v) = int v" using assms(5) by (intro s32_id) auto
  ultimately have e: "error_of be ?m e = int v" for e
    by (simp add: error_of_def) (simp add: error_msg_def)
  have "dump_datagrams be (set_gateway be) ?h [(0, [?m])] [0, 0, 0, 0] (nl_errno w) = Some (- 1, [0, 0, 0, 0], int v)"
    using e h(1) by simp (simp add: error_msg_def)
  moreover have "list_all (datagram_ok 16384 (\<lambda>m. answers_dump ?h m \<longrightarrow> route_msg be m)) [(0, [?m])]"
    using h assms(7) by (simp add: datagram_ok_def error_msg_def msg_ok_def msg_size_def nl_align_def answers_dump_def)
  ultimately show ?thesis
    using default_gateway_run [OF assms(1-3), of be "[(0, [?m])]" "- 1" "[0, 0, 0, 0]" "int v"] assms(6) by simp
qed

lemma rtnl_open_opened:
  assumes "rtnl_open_byproto g p w = (r, rth, w1)"
  shows "opened (nl_log w1) = opened (nl_log w) + (if 0 \<le> nl_answers w (length (nl_calls w)) then 1 else 0)"
proof -
  have l: "nl_log (snd (nl_call c w)) = nl_log w @ [(c, nl_answers w (length (nl_calls w)))]" for c w by (rule nl_log_call)
  have s: "(fst (nl_call c w) < 0) = (nl_answers w (length (nl_calls w)) < 0)" for c w by (simp add: nl_call_def Let_def)
  show ?thesis
    using assms unfolding rtnl_open_byproto_def Let_def case_prod_beta
    by (auto split: if_splits simp: l s opened_append)
qed

text \<open>When the netlink socket cannot be set up, the call returns -1 and 0.0.0.0, and a socket that was
  opened stays open.\<close>

theorem default_gateway_open_leaks:
  assumes "fst (rtnl_open 0 w) < 0"
  shows "\<exists>w'. libamg_get_default_gw_ipaddr be rta_max buf0 w = Some (Inr (- 1, [0, 0, 0, 0], w')) \<and>
     opened (nl_log w') = opened (nl_log w) + (if 0 \<le> nl_answers w (length (nl_calls w)) then 1 else 0)"
proof -
  obtain r rth w1 where o: "rtnl_open 0 w = (r, rth, w1)" by (cases "rtnl_open 0 w")
  then show ?thesis
    using assms rtnl_open_opened [of 0 NETLINK_ROUTE w r rth w1]
    by (simp add: libamg_get_default_gw_ipaddr_def rtnl_open_def)
qed

subsection \<open>The checksum\<close>

text \<open>\<open>buf\<close> are the \<open>sz\<close> bytes; the words are read in the byte order of the machine.\<close>

fun in_cksum_loop :: "bool \<Rightarrow> byte list \<Rightarrow> int \<Rightarrow> int \<times> byte list" where
  "in_cksum_loop be (b1 # b2 # bs) acc = in_cksum_loop be bs (acc + int (dec be [b1, b2]))"
| "in_cksum_loop be bs acc = (acc, bs)"

definition in_cksum :: "bool \<Rightarrow> byte list \<Rightarrow> int" where
  "in_cksum be buf =
     (let (acc, w) = in_cksum_loop be buf 0;
          sum1 = (case w of [] \<Rightarrow> acc | b # _ \<Rightarrow> acc + int (dec be [b, 0]));
          sum2 = sum1 div 65536 + sum1 mod 65536;
          sum3 = sum2 + sum2 div 65536
      in (- 1 - sum3) mod 65536)"

text \<open>The reference: the complement of the one's complement sum of the 16-bit words, with end-around carry.\<close>

fun words16 :: "bool \<Rightarrow> byte list \<Rightarrow> int list" where
  "words16 be [] = []"
| "words16 be [b] = [int (dec be [b, 0])]"
| "words16 be (b1 # b2 # bs) = int (dec be [b1, b2]) # words16 be bs"

definition ones_add :: "int \<Rightarrow> int \<Rightarrow> int" where
  "ones_add a b = (if a + b < 65536 then a + b else a + b - 65535)"

definition ones_norm :: "int \<Rightarrow> int" where
  "ones_norm s = (if s = 0 then 0 else (s - 1) mod 65535 + 1)"

lemma words16_range: "x \<in> set (words16 be bs) \<Longrightarrow> 0 \<le> x \<and> x \<le> 65535"
proof (induction be bs rule: words16.induct)
  case (2 be b)
  then show ?case using dec_less [of "[b, 0]" 2 be] by simp
next
  case (3 be b1 b2 bs)
  then show ?case using dec_less [of "[b1, b2]" 2 be] by auto
qed simp

lemma words16_length: "2 * length (words16 be bs) \<le> Suc (length bs)"
  by (induction be bs rule: words16.induct) auto

lemma in_cksum_sum:
  "(case in_cksum_loop be bs s of (acc, w) \<Rightarrow> (case w of [] \<Rightarrow> acc | b # _ \<Rightarrow> acc + int (dec be [b, 0]))) =
     s + sum_list (words16 be bs)"
  by (induction be bs arbitrary: s rule: words16.induct) (simp_all add: algebra_simps)

lemma ones_add_norm:
  assumes "0 \<le> s" and "0 \<le> x" and "x \<le> 65535"
  shows "ones_add (ones_norm s) x = ones_norm (s + x)"
proof (cases "s = 0")
  case True
  then show ?thesis using assms by (auto simp: ones_add_def ones_norm_def)
next
  case False
  let ?m = "(s - 1) mod 65535"
  have m: "0 \<le> ?m" "?m < 65535" by simp_all
  have e: "(s + x - 1) mod 65535 = (?m + x) mod 65535"
  proof -
    have "s + x - 1 = (s - 1) + x" by simp
    then show ?thesis using mod_add_left_eq [of "s - 1" 65535 x] by metis
  qed
  show ?thesis
  proof (cases "?m + x < 65535")
    case True
    then have "(?m + x) mod 65535 = ?m + x" using m assms by (intro mod_pos_pos_trivial) auto
    then show ?thesis using False True assms e by (simp add: ones_add_def ones_norm_def)
  next
    case ge: False
    have "(?m + x) mod 65535 = (?m + x - 65535) mod 65535" by (rule minus_mod_self2 [symmetric])
    also have "\<dots> = ?m + x - 65535" using m assms ge by (intro mod_pos_pos_trivial) auto
    finally show ?thesis using False ge assms e by (simp add: ones_add_def ones_norm_def)
  qed
qed

lemma foldl_ones_add:
  "list_all (\<lambda>x. 0 \<le> x \<and> x \<le> 65535) ws \<Longrightarrow> 0 \<le> s \<Longrightarrow> foldl ones_add (ones_norm s) ws = ones_norm (s + sum_list ws)"
  by (induction ws arbitrary: s) (simp_all add: ones_add_norm add.assoc)

lemma fold_carries:
  assumes "0 \<le> s" and "s < 2 ^ 31" and "s2 = s div 65536 + s mod 65536"
  shows "(- 1 - (s2 + s2 div 65536)) mod 65536 = 65535 - ones_norm s"
proof -
  let ?h = "s div 65536" and ?l = "s mod 65536"
  have s: "s = 65536 * ?h + ?l" by simp
  have b: "0 \<le> ?h" "?h < 32768" "0 \<le> ?l" "?l < 65536" using assms(1,2) by auto
  have n: "(s - 1) mod 65535 = (s2 - 1) mod 65535"
  proof -
    have "s - 1 = (s2 - 1) + 65535 * ?h" using assms(3) s by linarith
    then show ?thesis by (metis mod_mult_self2)
  qed
  show ?thesis
  proof (cases "s2 < 65536")
    case True
    then have "s2 div 65536 = 0" using b assms(3) by simp
    moreover have "(- 1 - s2) mod 65536 = 65535 - s2"
    proof -
      have "(- 1 - s2) mod 65536 = (- 1 - s2 + 65536) mod 65536" by (rule mod_add_self2 [symmetric])
      also have "\<dots> = - 1 - s2 + 65536" using True b assms(3) by (intro mod_pos_pos_trivial) auto
      finally show ?thesis by simp
    qed
    moreover have "ones_norm s = s2"
    proof (cases "s = 0")
      case False
      then have "1 \<le> s2" using b(1,3) assms(3) s by linarith
      then have "(s2 - 1) mod 65535 = s2 - 1" using True by (intro mod_pos_pos_trivial) linarith+
      then show ?thesis using False n by (simp add: ones_norm_def)
    qed (use assms(3) in \<open>simp add: ones_norm_def\<close>)
    ultimately show ?thesis by simp
  next
    case False
    then have d: "s2 div 65536 = 1" using b assms(3) by (intro div_pos_geq [THEN trans]) auto
    have "(- 1 - (s2 + 1)) mod 65536 = (- 1 - (s2 + 1) + 2 * 65536) mod 65536" by (rule mod_mult_self1 [symmetric])
    also have "\<dots> = - 1 - (s2 + 1) + 2 * 65536" using False b assms(3) by (intro mod_pos_pos_trivial) auto
    finally have "(- 1 - (s2 + 1)) mod 65536 = 131070 - s2" by simp
    moreover have "(s2 - 1) mod 65535 = s2 - 1 - 65535"
    proof -
      have "(s2 - 1) mod 65535 = (s2 - 1 - 65535) mod 65535" by (rule minus_mod_self2 [symmetric])
      also have "\<dots> = s2 - 1 - 65535" using False b assms(3) by (intro mod_pos_pos_trivial) auto
      finally show ?thesis .
    qed
    moreover have "s \<noteq> 0" using False assms(3) by auto
    ultimately show ?thesis using d n by (simp add: ones_norm_def)
  qed
qed

lemma in_cksum_norm:
  assumes "length buf \<le> 65536"
  shows "in_cksum be buf = 65535 - ones_norm (sum_list (words16 be buf))" and "sum_list (words16 be buf) < 2 ^ 31"
proof -
  have l: "length (words16 be buf) \<le> 32768" using words16_length [of be buf] assms by simp
  have r: "list_all (\<lambda>x. 0 \<le> x \<and> x \<le> 65535) (words16 be buf)" using words16_range by (auto simp: list_all_iff)
  have "sum_list ws \<le> 65535 * int (length ws) \<and> 0 \<le> sum_list ws" if "list_all (\<lambda>x. 0 \<le> x \<and> x \<le> (65535::int)) ws" for ws
    using that by (induction ws) auto
  from this [OF r] have s: "0 \<le> sum_list (words16 be buf)" "sum_list (words16 be buf) \<le> 65535 * 32768"
    using l by simp_all
  then show b: "sum_list (words16 be buf) < 2 ^ 31" by simp
  obtain sm w where lp: "in_cksum_loop be buf 0 = (sm, w)" by (cases "in_cksum_loop be buf 0")
  have sum1: "(case w of [] \<Rightarrow> sm | b # _ \<Rightarrow> sm + int (dec be [b, 0])) = sum_list (words16 be buf)"
    using in_cksum_sum [of be buf 0] lp by simp
  show "in_cksum be buf = 65535 - ones_norm (sum_list (words16 be buf))"
    unfolding in_cksum_def lp Let_def prod.case sum1 by (rule fold_carries [OF s(1) b refl])
qed

text \<open>C29: For up to 65536 bytes the sum stays in the range of \<open>int\<close> and the result is the Internet checksum:
  the complement of the one's complement sum of the words.\<close>

theorem in_cksum_is_checksum:
  assumes "length buf \<le> 65536"
  shows "in_cksum be buf = 65535 - foldl ones_add 0 (words16 be buf) \<and> sum_list (words16 be buf) < 2 ^ 31"
proof -
  have "list_all (\<lambda>x. 0 \<le> x \<and> x \<le> 65535) (words16 be buf)" using words16_range by (auto simp: list_all_iff)
  then have "foldl ones_add 0 (words16 be buf) = ones_norm (sum_list (words16 be buf))"
    using foldl_ones_add [of _ 0] by (simp add: ones_norm_def)
  then show ?thesis using in_cksum_norm [OF assms, of be] by simp
qed

subsection \<open>Instances\<close>

definition demo_req :: rtnl_handle where
  "demo_req = \<lparr>fd = 5, local_family = 16, local_pid = 77, local_groups = 0, seq = 101, dump = 101\<rparr>"

definition demo_route :: "(nat \<times> byte list) list \<Rightarrow> nl_msg" where
  "demo_route as = \<lparr>mtype = 24, mflags = 2, mseq = 101, mpid = 77,
     body = [2, 0, 0, 0, 254, 0, 0, 0, 0, 0, 0, 0] @ enc_attrs False as\<rparr>"

lemma demo_request: "request_handle (demo_nl evs) = demo_req" "netlink_works (demo_nl evs)"
  by (simp_all add: request_handle_def netlink_works_def demo_nl_def demo_req_def u32_add_def list_all_iff)

lemma demo_route_attrs: "list_all attr_ok as \<Longrightarrow> route_attrs False (demo_route as) = map_of (rev as)"
  by (simp add: route_attrs_def demo_route_def dec_enc_attrs)

lemma demo_route_msg:
  assumes "list_all attr_ok as" and "list_all (\<lambda>a. length (snd a) = 4) as"
  shows "route_msg False (demo_route as)"
proof -
  have "length d = 4" if "map_of (rev as) t = Some d" for t d
    using map_of_SomeD [OF that] assms(2) by (auto simp: list_all_iff)
  moreover have "attrs_whole False (drop 12 (body (demo_route as)))" by (simp add: demo_route_def dec_enc_attrs assms(1))
  ultimately show ?thesis
    unfolding route_msg_def demo_route_attrs [OF assms(1)]
    by (auto simp: RTM_NEWROUTE_def split: option.split) (simp_all add: demo_route_def)
qed

text \<open>Two datagrams of routes: a default route, then a route to a network.\<close>

lemma demo_stream:
  "stream_ok 16384 (route_msg False) demo_req [[demo_route [(5, [10, 0, 0, 1])]]]
     [demo_route [(1, [10, 0, 0, 0]), (5, [10, 0, 0, 9])]]"
  "last_gateway False (concat [[demo_route [(5, [10, 0, 0, 1])]]] @ [demo_route [(1, [10, 0, 0, 0]), (5, [10, 0, 0, 9])]]) =
     [10, 0, 0, 1]"
proof -
  have ok: "list_all attr_ok [(5 :: nat, [10, 0, 0, 1 :: byte])]" "list_all attr_ok [(1 :: nat, [10, 0, 0, 0 :: byte]), (5, [10, 0, 0, 9])]"
    by (simp_all add: attr_ok_def)
  show "stream_ok 16384 (route_msg False) demo_req [[demo_route [(5, [10, 0, 0, 1])]]]
     [demo_route [(1, [10, 0, 0, 0]), (5, [10, 0, 0, 9])]]"
    using demo_route_msg [OF ok(1)] demo_route_msg [OF ok(2)]
    by (simp add: stream_ok_def)
      (simp add: demo_route_def demo_req_def msg_ok_def msg_size_def answers_dump_def enc_attrs_def nl_align_def)
  show "last_gateway False (concat [[demo_route [(5, [10, 0, 0, 1])]]] @ [demo_route [(1, [10, 0, 0, 0]), (5, [10, 0, 0, 9])]]) =
     [10, 0, 0, 1]"
    using demo_route_attrs [OF ok(1)] demo_route_attrs [OF ok(2)]
    by (simp add: last_gateway_def map_filter_simps gateway_of_def default_route_def RTA_DST_def RTA_GATEWAY_def RTA_TABLE_def)
      (simp add: demo_route_def)
qed

theorem default_gateway_of_dump_witness:
  "\<exists>w'. libamg_get_default_gw_ipaddr False 30 (replicate 16384 0)
      (demo_nl (map (datagram False) (dump_stream demo_req [[demo_route [(5, [10, 0, 0, 1])]]]
        [demo_route [(1, [10, 0, 0, 0]), (5, [10, 0, 0, 9])]]))) = Some (Inr (0, [10, 0, 0, 1], w'))"
proof -
  let ?a = "demo_route [(5, [10, 0, 0, 1])]" and ?b = "demo_route [(1, [10, 0, 0, 0]), (5, [10, 0, 0, 9])]"
  let ?w = "demo_nl (map (datagram False) (dump_stream demo_req [[?a]] [?b]))"
  have "inbox ?w = map (datagram False) (dump_stream demo_req [[?a]] [?b])" by (simp add: demo_nl_def)
  then show ?thesis
    using default_gateway_of_dump [of ?w 30 "replicate 16384 0" False "[[?a]]" "[?b]"] demo_request demo_stream by auto
qed

theorem default_gateway_refused_witness:
  "\<exists>w'. libamg_get_default_gw_ipaddr False 30 (replicate 16384 0)
      (demo_nl [datagram False (0, [error_msg False 101 77 1])]) = Some (Inr (1, [0, 0, 0, 0], w'))"
proof -
  let ?w = "demo_nl [datagram False (0, [error_msg False 101 77 1])]"
  have "inbox ?w = [datagram False (0, [error_msg False 101 77 1])]" by (simp add: demo_nl_def)
  moreover have "seq demo_req = 101" "local_pid demo_req = 77" by (simp_all add: demo_req_def)
  ultimately show ?thesis
    using default_gateway_refused [of ?w 30 "replicate 16384 0" 1 False, unfolded demo_request(1)] demo_request(2) by auto
qed

theorem default_gateway_open_leaks_witness:
  "\<exists>w'. libamg_get_default_gw_ipaddr False 30 [] ((demo_nl [])\<lparr>nl_answers := \<lambda>k. if k = 3 then - 98 else 5\<rparr>) =
      Some (Inr (- 1, [0, 0, 0, 0], w')) \<and> opened (nl_log w') = 1"
proof -
  let ?w = "(demo_nl [])\<lparr>nl_answers := \<lambda>k. if k = 3 then - 98 else 5\<rparr>"
  have "fst (rtnl_open 0 ?w) < 0"
    by (simp add: rtnl_open_def rtnl_open_byproto_def nl_call_def demo_nl_def Let_def)
  moreover have "opened (nl_log ?w) = 0" "nl_answers ?w (length (nl_calls ?w)) = 5" by (simp_all add: nl_log_def demo_nl_def)
  ultimately show ?thesis using default_gateway_open_leaks [of ?w False 30 "[]"] by auto
qed

theorem in_cksum_is_checksum_witness:
  "in_cksum True [0x45, 0, 0xFF, 0xFF, 7] = 65535 - foldl ones_add 0 [0x4500, 0xFFFF, 0x700]"
  using in_cksum_is_checksum [of "[0x45, 0, 0xFF, 0xFF, 7]" True] by (simp add: dec_def)

end
