(* ===== verification/Iface.thy ===== *)
theory Iface
  imports Gateway C_String Conf_File
begin

text \<open>
  The interface functions of src/if.c: addresses by \<open>ioctl\<close> and \<open>getifaddrs\<close>, the state of the link, the
  ping that fills the ARP table, the ARP table and the hardware address of the default gateway.
  \<open>if_answers k\<close> is how the k-th system call ends (\<open>-e\<close> means -1 with \<open>errno\<close> e) and \<open>if_data k\<close> the bytes
  it stores for the caller: the 16 bytes of the union of \<open>ifreq\<close>, or the packet received. The text of an
  address stands for what \<open>inet_addr\<close> makes of it. \<open>nonblocking\<close> says which sockets have \<open>O_NONBLOCK\<close> set: the
  answer \<open>EAGAIN\<close> to a receive means that nothing has arrived, and on a socket without the flag such a receive
  waits for ever. \<open>sleep\<close> and \<open>usleep\<close> are calls too, with their microseconds.
\<close>

datatype if_call = If_Socket nat | If_Ioctl int string | If_Bind int "byte list" | If_Sendto int "byte list" string
  | If_Getfl int | If_Setfl int int | If_Sleep nat | If_Recvfrom int nat | If_Close int

record if_world =
  if_answers :: "nat \<Rightarrow> int"
  if_data :: "nat \<Rightarrow> byte list"
  if_calls :: "if_call list"
  if_errno :: int
  nonblocking :: "int \<Rightarrow> bool"

definition EAGAIN :: int where "EAGAIN = 11"
definition O_NONBLOCK :: int where "O_NONBLOCK = 0x800"

text \<open>A new socket waits; \<open>F_SETFL\<close> sets the flag as its argument says.\<close>

definition if_flags :: "if_call \<Rightarrow> int \<Rightarrow> (int \<Rightarrow> bool) \<Rightarrow> int \<Rightarrow> bool" where
  "if_flags c a nb =
     (if a < 0 then nb
      else case c of
        If_Socket family \<Rightarrow> nb(a := False)
      | If_Setfl s arg \<Rightarrow> nb(s := arg AND O_NONBLOCK \<noteq> 0)
      | _ \<Rightarrow> nb)"

definition if_call :: "if_call \<Rightarrow> if_world \<Rightarrow> int \<times> byte list \<times> if_world" where
  "if_call c w =
     (let k = length (if_calls w); a = if_answers w k;
        w' = w\<lparr>if_calls := if_calls w @ [c], nonblocking := if_flags c a (nonblocking w)\<rparr> in
      if a < 0 then (- 1, if_data w k, w'\<lparr>if_errno := - a\<rparr>) else (a, if_data w k, w'))"

definition if_close :: "int \<Rightarrow> if_world \<Rightarrow> if_world" where
  "if_close s w = snd (snd (if_call (If_Close s) w))"

definition if_recv :: "int \<Rightarrow> nat \<Rightarrow> if_world \<Rightarrow> (int \<times> byte list \<times> if_world) option" where
  "if_recv s n w =
     (if if_answers w (length (if_calls w)) = - EAGAIN \<and> \<not> nonblocking w s then None
      else Some (if_call (If_Recvfrom s n) w))"

definition PF_PACKET :: nat where "PF_PACKET = 17"
definition AF_INET6 :: nat where "AF_INET6 = 10"

subsection \<open>Addresses of an interface\<close>

text \<open>
  \<open>getifaddrs\<close> gives a list of entries, each with a name and perhaps an address; what the code does when
  it fails is to walk a list whose head was never set. The first 16 bytes of the address are copied.
\<close>

fun ifa_loop :: "bool \<Rightarrow> (string \<times> byte list option) list \<Rightarrow> string \<Rightarrow> nat \<Rightarrow> byte list option outcome" where
  "ifa_loop be [] iface family = Inr None"
| "ifa_loop be ((nm, ad) # ifas) iface family =
     (if nm \<noteq> iface then ifa_loop be ifas iface family
      else case ad of
          None \<Rightarrow> Inl Null_Deref
        | Some a \<Rightarrow> obind (load be 2 a 0) (\<lambda>f.
            if f \<noteq> family then ifa_loop be ifas iface family
            else if length a < 16 then Inl Out_Of_Bounds else Inr (Some (take 16 a))))"

definition do_getifaddrs :: "bool \<Rightarrow> (string \<times> byte list option) list option \<Rightarrow> string \<Rightarrow> nat \<Rightarrow> byte list \<Rightarrow>
    (int \<times> byte list) outcome" where
  "do_getifaddrs be ifaddr iface family ad =
     (case ifaddr of
        None \<Rightarrow> Inl Uninitialised
      | Some ifas \<Rightarrow> obind (ifa_loop be ifas iface family) (\<lambda>r.
          case r of None \<Rightarrow> Inr (- 1, ad) | Some bs \<Rightarrow> Inr (0, bs @ drop 16 ad)))"

text \<open>\<open>saddr0\<close> are the 28 bytes of the local \<open>sockaddr_in6\<close>, which is not initialised.\<close>

definition libamg_get_interface_ipv6_addr ::
    "bool \<Rightarrow> (string \<times> byte list option) list option \<Rightarrow> byte list \<Rightarrow> string \<Rightarrow> (int \<times> byte list) outcome" where
  "libamg_get_interface_ipv6_addr be ifaddr saddr0 iface =
     obind (do_getifaddrs be ifaddr iface AF_INET6 saddr0) (\<lambda>(r, saddr).
     if r < 0 then Inr (- 1, replicate 16 0) else Inr (0, take 16 (drop 8 saddr)))"

text \<open>The name must fit the 16 bytes of \<open>ifr_name\<close>.\<close>

definition do_ioctl :: "string \<Rightarrow> nat \<Rightarrow> if_world \<Rightarrow> (int \<times> byte list \<times> if_world) outcome" where
  "do_ioctl iface family w =
     (let (s, _, w1) = if_call (If_Socket family) w in
      if s < 0 then Inr (- 1, [], w1)
      else if 16 \<le> length iface then Inl Out_Of_Bounds
      else
        let (r, data, w2) = if_call (If_Ioctl s iface) w1 in
        Inr (if r < 0 then - 1 else 0, data, if_close s w2))"

definition libamg_get_interface_hwaddr :: "string \<Rightarrow> byte list \<Rightarrow> if_world \<Rightarrow> (int \<times> byte list \<times> if_world) outcome" where
  "libamg_get_interface_hwaddr iface ad w =
     obind (do_ioctl iface AF_INET w) (\<lambda>(r, req, w').
     if r < 0 then Inr (- 1, ad, w') else Inr (0, take 6 (drop 2 req) @ drop 6 ad, w'))"

definition libamg_get_interface_ipv4_addr :: "string \<Rightarrow> if_world \<Rightarrow> (int \<times> byte list \<times> if_world) outcome" where
  "libamg_get_interface_ipv4_addr iface w =
     obind (do_ioctl iface AF_INET w) (\<lambda>(r, req, w').
     if r < 0 then Inr (- 1, [0, 0, 0, 0], w') else Inr (0, take 4 (drop 4 req), w'))"

subsection \<open>The link\<close>

definition dev_get_ctrlfd :: "if_world \<Rightarrow> int \<times> if_world" where
  "dev_get_ctrlfd w =
     (let (fd1, _, w1) = if_call (If_Socket AF_INET) w in
      if 0 \<le> fd1 then (fd1, w1)
      else
        let s_errno = if_errno w1; (fd2, _, w2) = if_call (If_Socket PF_PACKET) w1 in
        if 0 \<le> fd2 then (fd2, w2)
        else
          let (fd3, _, w3) = if_call (If_Socket AF_INET6) w2 in
          if 0 \<le> fd3 then (fd3, w3) else (- 1, w3\<lparr>if_errno := s_errno\<rparr>))"

text \<open>\<open>ifr_flags\<close> is a \<open>short\<close>, so the conversion to \<open>__u32\<close> extends its sign.\<close>

definition dev_get_flags :: "bool \<Rightarrow> string \<Rightarrow> if_world \<Rightarrow> (int \<times> 32 word \<times> if_world) outcome" where
  "dev_get_flags be dev w =
     (if 16 \<le> length dev then Inl Out_Of_Bounds
      else
        let (s, w1) = dev_get_ctrlfd w in
        if s < 0 then Inr (- 1, 0, w1)
        else
          let (err, data, w2) = if_call (If_Ioctl s dev) w1 in
          if err \<noteq> 0 then Inr (- 1, 0, if_close s w2)
          else Inr (err, word_of_int (sint (word_of_nat (dec be (take 2 data)) :: 16 word)), if_close s w2))"

definition IFF_RUNNING :: "32 word" where "IFF_RUNNING = 0x40"

definition libamg_dev_get_link_running :: "bool \<Rightarrow> string \<Rightarrow> if_world \<Rightarrow> (int \<times> if_world) outcome" where
  "libamg_dev_get_link_running be dev w =
     obind (dev_get_flags be dev w) (\<lambda>(r, flags, w').
     if r < 0 then Inr (- 1, w') else Inr (sint (flags AND IFF_RUNNING), w'))"

subsection \<open>Ping\<close>

text \<open>The local packet has 56 + 60 + 76 bytes. Bytes 2 and 3 of the echo request hold its checksum.\<close>

definition PACKET_SIZE :: nat where "PACKET_SIZE = 192"

definition echo_request :: "bool \<Rightarrow> byte list" where
  "echo_request be =
     (let pkt = 8 # replicate (PACKET_SIZE - 1) 0 in
      take 2 pkt @ enc be 2 (nat (in_cksum be pkt)) @ drop 4 pkt)"

text \<open>
  Up to \<open>n\<close> receives, with a pause of 10 milliseconds after each that fails; None is a receive that waits for
  ever. The header length is the low half of the first byte, in words of 4 bytes; the type of the ICMP message
  follows the header.
\<close>

fun ping_loop :: "nat \<Rightarrow> int \<Rightarrow> byte list \<Rightarrow> if_world \<Rightarrow> (int \<times> if_world) option" where
  "ping_loop 0 sock packet w = Some (0, w)"
| "ping_loop (Suc n) sock packet w =
     (case if_recv sock (length packet) w of
        None \<Rightarrow> None
      | Some (c, data, w1) \<Rightarrow>
          if c < 0 then let (_, _, w2) = if_call (If_Sleep 10000) w1 in ping_loop n sock packet w2
          else
            let packet' = received packet (take (nat c) data) in
            if 76 \<le> c \<and> packet' ! (unat (packet' ! 0) mod 16 * 4) = 0 then Some (1, w1)
            else ping_loop n sock packet' w1)"

definition libamg_ping :: "bool \<Rightarrow> string \<Rightarrow> string \<Rightarrow> if_world \<Rightarrow> (int \<times> if_world) outcome option" where
  "libamg_ping be ipaddr intf w =
     (case libamg_dev_get_link_running be intf w of
        Inl e \<Rightarrow> Some (Inl e)
      | Inr (running, w1) \<Rightarrow>
     if running \<le> 0 then Some (Inr (- 1, w1))
     else
       let (sock, _, w2) = if_call (If_Socket AF_INET) w1;
           (_, ifr_addr, w3) = if_call (If_Ioctl sock (take 15 intf)) w2;
           (b, _, w4) = if_call (If_Bind sock ifr_addr) w3 in
       if b = - 1 then Some (Inl (Process_Exit 2))
       else
         let packet = echo_request be;
             (_, _, w5) = if_call (If_Sendto sock (take 64 packet) ipaddr) w4;
             (arg, _, w6) = if_call (If_Getfl sock) w5 in
         if arg < 0 then Some (Inr (- 1, w6))
         else
           let (r, _, w7) = if_call (If_Setfl sock (arg OR O_NONBLOCK)) w6 in
           if r < 0 then Some (Inr (- 1, w7))
           else
             let (_, _, w8) = if_call (If_Sleep 1000000) w7 in
             case ping_loop 30 sock packet w8 of
               None \<Rightarrow> None
             | Some (ret, w9) \<Rightarrow> Some (Inr (ret, if_close sock w9)))"

text \<open>\<open>inet_ntop\<close> of the four bytes.\<close>

definition inet_ntop :: "byte list \<Rightarrow> string" where
  "inet_ntop ip =
     show_nat (unat (ip ! 0)) @ ''.'' @ show_nat (unat (ip ! 1)) @ ''.'' @ show_nat (unat (ip ! 2)) @ ''.'' @
     show_nat (unat (ip ! 3))"

definition MAIN_IF :: string where "MAIN_IF = ''eth0''"

definition libamg_arp_resolv :: "bool \<Rightarrow> byte list \<Rightarrow> if_world \<Rightarrow> (int \<times> if_world) outcome option" where
  "libamg_arp_resolv be ip w = libamg_ping be (inet_ntop ip) MAIN_IF w"

subsection \<open>The ARP table\<close>

definition ARP_ENTRIES_FILE :: string where "ARP_ENTRIES_FILE = ''/proc/net/arp''"

text \<open>
  One line of the table: when it contains the address and has a space where the address would end, its
  fourth word is copied into the array of 18 characters.
\<close>

definition arp_line :: "string \<Rightarrow> string \<Rightarrow> string \<Rightarrow> string option outcome" where
  "arp_line ipaddr_str hwaddr_str l =
     (let s = cstr (l @ [NUL]) 0 in
      if c_strstr s ipaddr_str \<noteq> None \<and> (s @ [NUL]) ! length ipaddr_str = CHR '' ''
      then (case drop 3 (c_words s) of
              [] \<Rightarrow> Inr None
            | t # _ \<Rightarrow> if 18 \<le> length t then Inl Out_Of_Bounds else Inr (Some t))
      else Inr (Some hwaddr_str))"

fun arp_loop :: "string \<Rightarrow> string \<Rightarrow> string list \<Rightarrow> string option outcome" where
  "arp_loop ipaddr_str hwaddr_str [] = Inr (Some hwaddr_str)"
| "arp_loop ipaddr_str hwaddr_str (l # ls) =
     obind (arp_line ipaddr_str hwaddr_str l) (\<lambda>r.
     case r of None \<Rightarrow> Inr None | Some h \<Rightarrow> arp_loop ipaddr_str h ls)"

definition c_isxdigit :: "char \<Rightarrow> bool" where
  "c_isxdigit c \<longleftrightarrow> c_isdigit c \<or> (of_char c :: nat) \<in> {65..70} \<union> {97..102}"

definition xdigit_val :: "char \<Rightarrow> nat" where
  "xdigit_val c = (let n = of_char c in if n \<le> 57 then n - 48 else if n \<le> 70 then n - 55 else n - 87)"

text \<open>\<open>%hhx\<close>: spaces, a sign, perhaps 0x, digits; the number saturates at 32 bits and is cut to a byte.\<close>

definition scan_hhx :: "string \<Rightarrow> (byte \<times> string) option" where
  "scan_hhx s =
     (let s1 = dropWhile c_isspace s;
          neg = (s1 \<noteq> [] \<and> hd s1 = CHR ''-'');
          s2 = (if s1 \<noteq> [] \<and> (hd s1 = CHR ''-'' \<or> hd s1 = CHR ''+'') then tl s1 else s1);
          s3 = (if take 2 s2 = ''0x'' \<or> take 2 s2 = ''0X'' then drop 2 s2 else s2);
          ds = takeWhile c_isxdigit s3;
          v = foldl (\<lambda>a c. 16 * a + xdigit_val c) 0 ds
      in if ds = [] then None
         else Some (if 2 ^ 32 \<le> v then - 1 else if neg then - word_of_nat v else word_of_nat v, drop (length ds) s3))"

text \<open>The conversions of \<open>%hhx:%hhx:...\<close> that succeed, at most \<open>n\<close>.\<close>

fun scan_octets :: "nat \<Rightarrow> string \<Rightarrow> byte list" where
  "scan_octets 0 s = []"
| "scan_octets (Suc n) s =
     (case scan_hhx s of
        None \<Rightarrow> []
      | Some (b, r) \<Rightarrow> b # (if r \<noteq> [] \<and> hd r = CHR '':'' then scan_octets n (tl r) else []))"

definition libamg_arp_get_hwaddr :: "byte list \<Rightarrow> byte list \<Rightarrow> world \<Rightarrow> (int \<times> byte list \<times> world) outcome" where
  "libamg_arp_get_hwaddr ip hwaddr w =
     (case fopen_r ARP_ENTRIES_FILE w of
        (None, w1) \<Rightarrow> Inr (- 1, hwaddr, w1)
      | (Some text, w1) \<Rightarrow>
          obind (arp_loop (inet_ntop ip) [] (chunks 128 text)) (\<lambda>r.
          case r of
            None \<Rightarrow> Inr (- 1, hwaddr, f_close w1)
          | Some h \<Rightarrow> (let vs = scan_octets 6 h in Inr (0, vs @ drop (length vs) hwaddr, f_close w1))))"

subsection \<open>The hardware address of the default gateway\<close>

definition libamg_get_default_gw_hwaddr :: "bool \<Rightarrow> nat \<Rightarrow> byte list \<Rightarrow> byte list \<Rightarrow> nl_world \<Rightarrow> if_world \<Rightarrow> world \<Rightarrow>
    (int \<times> byte list \<times> nl_world \<times> if_world \<times> world) outcome option" where
  "libamg_get_default_gw_hwaddr be rta_max buf0 hwaddr nw iw w =
     (let hw0 = replicate 6 0 @ drop 6 hwaddr in
      case libamg_get_default_gw_ipaddr be rta_max buf0 nw of
        None \<Rightarrow> None
      | Some (Inl x) \<Rightarrow> Some (Inl x)
      | Some (Inr (r, gw, nw')) \<Rightarrow>
          if r < 0 then Some (Inr (- 1, hw0, nw', iw, w))
          else case libamg_arp_resolv be gw iw of
              None \<Rightarrow> None
            | Some (Inl x) \<Rightarrow> Some (Inl x)
            | Some (Inr (r, iw')) \<Rightarrow>
                if r < 0 then Some (Inr (- 1, hw0, nw', iw', w))
                else case libamg_arp_get_hwaddr gw hw0 w of
                    Inl x \<Rightarrow> Some (Inl x)
                  | Inr (r, hw, w') \<Rightarrow> Some (Inr (if r < 0 then - 1 else 0, hw, nw', iw', w')))"

subsection \<open>Properties\<close>

lemma ifa_loop_skip:
  "list_all (\<lambda>(nm, ad). nm \<noteq> iface \<or> (\<exists>b f. ad = Some b \<and> load be 2 b 0 = Inr f \<and> f \<noteq> family)) pre \<Longrightarrow>
     ifa_loop be (pre @ ifas) iface family = ifa_loop be ifas iface family"
  by (induction pre) auto

text \<open>C30: For the first IPv6 address of the interface in the list, the call returns 0, but only the first 8
  bytes of the address are copied: the rest of the result is what the uninitialised local variable held.\<close>

theorem ipv6_address_half_copied:
  assumes "list_all (\<lambda>(nm, ad). nm \<noteq> iface \<or> (\<exists>b f. ad = Some b \<and> load be 2 b 0 = Inr f \<and> f \<noteq> AF_INET6)) pre"
    and "load be 2 a 0 = Inr AF_INET6" and "length a = 28" and "length saddr0 = 28"
  shows "libamg_get_interface_ipv6_addr be (Some (pre @ (iface, Some a) # post)) saddr0 iface =
     Inr (0, take 8 (drop 8 a) @ take 8 (drop 16 saddr0))"
  unfolding libamg_get_interface_ipv6_addr_def do_getifaddrs_def option.case ifa_loop_skip [OF assms(1)]
  using assms(2-4) by (simp add: drop_take)

theorem ipv6_address_half_copied_witness:
  "libamg_get_interface_ipv6_addr False
     (Some [(''lo'', None), (''eth0'', Some (2 # 0 # replicate 14 9)), (''eth0'', Some (10 # 0 # replicate 26 7))])
     (replicate 28 85) ''eth0'' = Inr (0, replicate 8 7 @ replicate 8 85)"
proof -
  have l: "load False 2 (2 # 0 # replicate 14 9) 0 = Inr 2" "load False 2 (10 # 0 # replicate 26 7) 0 = Inr AF_INET6"
    by (simp_all add: load_def dec_def AF_INET6_def)
  then have "list_all (\<lambda>(nm, ad). nm \<noteq> ''eth0'' \<or> (\<exists>b f. ad = Some b \<and> load False 2 b 0 = Inr f \<and> f \<noteq> AF_INET6))
      [(''lo'', None), (''eth0'', Some (2 # 0 # replicate 14 9))]" by (simp add: AF_INET6_def)
  from ipv6_address_half_copied [OF this l(2), of "replicate 28 85" "[]"] show ?thesis
    by (simp add: numeral_eq_Suc)
qed

text \<open>
  What a run of calls adds to the log: \<open>receives\<close> counts the receives in it, \<open>failures\<close> those of them that the
  kernel refuses (the first call of the run has the number \<open>k\<close>), and \<open>slept\<close> adds up the microseconds of sleep.
\<close>

fun slept :: "if_call list \<Rightarrow> nat" where
  "slept [] = 0"
| "slept (If_Sleep t # cs) = t + slept cs"
| "slept (c # cs) = slept cs"

fun receives :: "if_call list \<Rightarrow> nat" where
  "receives [] = 0"
| "receives (If_Recvfrom s n # cs) = Suc (receives cs)"
| "receives (c # cs) = receives cs"

fun failures :: "(nat \<Rightarrow> int) \<Rightarrow> nat \<Rightarrow> if_call list \<Rightarrow> nat" where
  "failures ans k [] = 0"
| "failures ans k (If_Recvfrom s n # cs) = (if ans k < 0 then 1 else 0) + failures ans (Suc k) cs"
| "failures ans k (c # cs) = failures ans (Suc k) cs"

lemma slept_append [simp]: "slept (cs @ ds) = slept cs + slept ds"
  by (induction cs rule: slept.induct) simp_all

lemma receives_append [simp]: "receives (cs @ ds) = receives cs + receives ds"
  by (induction cs rule: receives.induct) simp_all

lemma failures_append: "failures ans k (cs @ ds) = failures ans k cs + failures ans (k + length cs) ds"
  by (induction ans k cs rule: failures.induct) simp_all

text \<open>\<open>took n f k t w w'\<close>: from \<open>w\<close> to \<open>w'\<close> there were \<open>n\<close> receives, \<open>f\<close> failures, at most \<open>k\<close> calls and \<open>t\<close> microseconds.\<close>

definition took :: "nat \<Rightarrow> nat \<Rightarrow> nat \<Rightarrow> nat \<Rightarrow> if_world \<Rightarrow> if_world \<Rightarrow> bool" where
  "took n f k t w w' \<longleftrightarrow> if_answers w' = if_answers w \<and>
     (\<exists>cs. if_calls w' = if_calls w @ cs \<and> receives cs = n \<and> failures (if_answers w) (length (if_calls w)) cs = f \<and>
       length cs \<le> k \<and> slept cs = t)"

lemma took_trans:
  assumes "took n f k t w w1" and "took n' f' k' t' w1 w2"
  shows "took (n + n') (f + f') (k + k') (t + t') w w2"
proof -
  let ?l = "length (if_calls w)"
  obtain cs ds where "if_calls w1 = if_calls w @ cs" "receives cs = n" "failures (if_answers w) ?l cs = f" "length cs \<le> k"
      "slept cs = t" and "if_calls w2 = if_calls w1 @ ds" "receives ds = n'"
      "failures (if_answers w1) (length (if_calls w1)) ds = f'" "length ds \<le> k'" "slept ds = t'"
      and a: "if_answers w1 = if_answers w" "if_answers w2 = if_answers w1"
    using assms unfolding took_def by blast
  then have "if_calls w2 = if_calls w @ (cs @ ds) \<and> receives (cs @ ds) = n + n' \<and>
      failures (if_answers w) ?l (cs @ ds) = f + f' \<and> length (cs @ ds) \<le> k + k' \<and> slept (cs @ ds) = t + t'"
    by (simp add: failures_append)
  then show ?thesis using a unfolding took_def by auto
qed

lemma took_weaken: "took n f k t w w' \<Longrightarrow> k \<le> k' \<Longrightarrow> took n f k' t w w'"
  by (auto simp: took_def)

lemma took_refl: "took 0 0 0 0 w w"
  by (simp add: took_def)

lemma if_call_took:
  "if_call c w = (a, d, w') \<Longrightarrow> took (receives [c]) (failures (\<lambda>_. a) 0 [c]) 1 (slept [c]) w w'"
  by (cases c) (auto simp: if_call_def took_def Let_def split: if_splits)

lemma if_close_took: "took 0 0 1 0 w (if_close s w)"
  by (simp add: if_close_def if_call_def Let_def took_def)

lemma took_errno [simp]: "took n f k t w (w'\<lparr>if_errno := e\<rparr>) = took n f k t w w'"
  by (simp add: took_def)

lemma if_call_nonblocking:
  "if_call c w = (a, d, w') \<Longrightarrow> nonblocking w' = if_flags c (if_answers w (length (if_calls w))) (nonblocking w)"
  by (auto simp: if_call_def Let_def split: if_splits)

lemma if_recv_nonblocking: "nonblocking w s \<Longrightarrow> if_recv s n w = Some (if_call (If_Recvfrom s n) w)"
  by (simp add: if_recv_def)

lemma ping_loop_bounds:
  "nonblocking w s \<Longrightarrow> \<exists>r w' i f. ping_loop n s packet w = Some (r, w') \<and>
     (r = 0 \<and> i = n \<or> r = 1 \<and> f < i \<and> i \<le> n) \<and> took i f (2 * i) (10000 * f) w w'"
proof (induction n arbitrary: packet w)
  case 0
  then show ?case by (intro exI [where x = 0] exI [where x = w]) (simp add: took_refl)
next
  case (Suc n)
  obtain c data w1 where c: "if_call (If_Recvfrom s (length packet)) w = (c, data, w1)"
    by (cases "if_call (If_Recvfrom s (length packet)) w")
  obtain c2 data2 w2 where c2: "if_call (If_Sleep 10000) w1 = (c2, data2, w2)"
    by (cases "if_call (If_Sleep 10000) w1")
  let ?f = "if c < 0 then 1 else 0 :: nat"
  have t: "took 1 ?f 1 0 w w1" and t2: "took 1 ?f 2 10000 w w2"
    using if_call_took [OF c] took_trans [OF if_call_took [OF c] if_call_took [OF c2]] by (simp_all add: numeral_2_eq_2)
  have nb: "nonblocking w1 s" "nonblocking w2 s"
    using Suc.prems if_call_nonblocking [OF c] if_call_nonblocking [OF c2] by (simp_all add: if_flags_def)
  have r: "if_recv s (length packet) w = Some (c, data, w1)"
    using if_recv_nonblocking [OF Suc.prems] c by simp
  have step: ?case
    if v: "nonblocking v s" "took 1 g 2 (10000 * g) w v" "g \<le> 1" "ping_loop (Suc n) s packet w = ping_loop n s p v" for g p v
  proof -
    obtain r w' i f where i: "ping_loop n s p v = Some (r, w')" "r = 0 \<and> i = n \<or> r = 1 \<and> f < i \<and> i \<le> n"
        "took i f (2 * i) (10000 * f) v w'"
      using Suc.IH [OF v(1)] by blast
    show ?thesis
      using i(2) v(3) took_trans [OF v(2) i(3)] unfolding v(4) i(1)
      by (intro exI [where x = r] exI [where x = w'] exI [where x = "Suc i"] exI [where x = "g + f"]) auto
  qed
  let ?p = "received packet (take (nat c) data)"
  consider "c < 0" | "\<not> c < 0" "76 \<le> c \<and> ?p ! (unat (?p ! 0) mod 16 * 4) = 0"
    | "\<not> c < 0" "\<not> (76 \<le> c \<and> ?p ! (unat (?p ! 0) mod 16 * 4) = 0)" by blast
  then show ?case
  proof cases
    case 1
    then show ?thesis using t2 by (intro step [OF nb(2), of 1]) (simp_all add: r c2)
  next
    case 2
    then show ?thesis
      using took_weaken [OF t, of 2]
      by (intro exI [where x = 1] exI [where x = w1] exI [where x = 1] exI [where x = 0]) (simp add: r Let_def)
  next
    case 3
    then have "ping_loop (Suc n) s packet w = ping_loop n s ?p w1"
      unfolding ping_loop.simps r option.case prod.case Let_def by (simp only: if_False)
    then show ?thesis using took_weaken [OF t, of 2] 3(1) by (intro step [OF nb(1), of 0]) simp_all
  qed
qed

lemma ctrlfd_took:
  assumes "dev_get_ctrlfd w = (s, w')"
  shows "took 0 0 3 0 w w'"
proof -
  obtain a1 d1 w1 a2 d2 w2 a3 d3 w3 where c: "if_call (If_Socket AF_INET) w = (a1, d1, w1)"
      "if_call (If_Socket PF_PACKET) w1 = (a2, d2, w2)" "if_call (If_Socket AF_INET6) w2 = (a3, d3, w3)"
    using prod_cases3 by metis
  have "took 0 0 1 0 w w1" "took 0 0 2 0 w w2" "took 0 0 3 0 w w3"
    using if_call_took [OF c(1)] took_trans [OF if_call_took [OF c(1)] if_call_took [OF c(2)]]
      took_trans [OF took_trans [OF if_call_took [OF c(1)] if_call_took [OF c(2)]] if_call_took [OF c(3)]]
    by (simp_all add: eval_nat_numeral)
  then show ?thesis
    using assms by (auto simp: dev_get_ctrlfd_def c Let_def elim: took_weaken split: if_splits)
qed

lemma link_running_took:
  assumes "libamg_dev_get_link_running be dev w = Inr (r, w')"
  shows "took 0 0 5 0 w w'"
proof -
  obtain s w1 where c: "dev_get_ctrlfd w = (s, w1)" by (cases "dev_get_ctrlfd w")
  obtain a d w2 where i: "if_call (If_Ioctl s dev) w1 = (a, d, w2)" by (cases "if_call (If_Ioctl s dev) w1")
  have "took 0 0 5 0 w (if_close s w2)"
    using took_trans [OF took_trans [OF ctrlfd_took [OF c] if_call_took [OF i]] if_close_took [of w2 s]] by simp
  moreover have "took 0 0 5 0 w w1" by (rule took_weaken [OF ctrlfd_took [OF c]]) simp_all
  ultimately show ?thesis
    using assms unfolding libamg_dev_get_link_running_def dev_get_flags_def
    by (auto simp: c i obind_Inr_iff Let_def split: if_splits)
qed

text \<open>What a ping does once the link is up: no call of it waits for ever.\<close>

lemma ping_after_link:
  assumes "libamg_dev_get_link_running be intf w = Inr (running, w1)" and "0 < running"
  shows "libamg_ping be ipaddr intf w = Some (Inl (Process_Exit 2)) \<or>
    (\<exists>r w' i f. libamg_ping be ipaddr intf w = Some (Inr (r, w')) \<and>
       (r = - 1 \<and> took 0 0 8 0 w1 w' \<or>
        (r = 0 \<and> i = 30 \<or> r = 1 \<and> f < i \<and> i \<le> 30) \<and> took i f (8 + 2 * i) (1000000 + 10000 * f) w1 w'))"
proof -
  obtain sock d2 w2 where c2: "if_call (If_Socket AF_INET) w1 = (sock, d2, w2)" by (cases "if_call (If_Socket AF_INET) w1")
  obtain a3 d3 w3 where c3: "if_call (If_Ioctl sock (take 15 intf)) w2 = (a3, d3, w3)"
    by (cases "if_call (If_Ioctl sock (take 15 intf)) w2")
  obtain b d4 w4 where c4: "if_call (If_Bind sock d3) w3 = (b, d4, w4)" by (cases "if_call (If_Bind sock d3) w3")
  let ?send = "If_Sendto sock (take 64 (echo_request be)) ipaddr"
  obtain a5 d5 w5 where c5: "if_call ?send w4 = (a5, d5, w5)" by (cases "if_call ?send w4")
  obtain arg d6 w6 where c6: "if_call (If_Getfl sock) w5 = (arg, d6, w6)" by (cases "if_call (If_Getfl sock) w5")
  let ?set = "If_Setfl sock (arg OR O_NONBLOCK)"
  obtain r d7 w7 where c7: "if_call ?set w6 = (r, d7, w7)" by (cases "if_call ?set w6")
  obtain a8 d8 w8 where c8: "if_call (If_Sleep 1000000) w7 = (a8, d8, w8)" by (cases "if_call (If_Sleep 1000000) w7")
  note t5 = took_trans [OF took_trans [OF took_trans [OF if_call_took [OF c2] if_call_took [OF c3]] if_call_took [OF c4]] if_call_took [OF c5]]
  have t6: "took 0 0 5 0 w1 w6" using took_trans [OF t5 if_call_took [OF c6]] by (simp add: numeral_eq_Suc)
  have t7: "took 0 0 6 0 w1 w7" using took_trans [OF t6 if_call_took [OF c7]] by simp
  have t8: "took 0 0 7 1000000 w1 w8" using took_trans [OF t7 if_call_took [OF c8]] by simp
  note run = libamg_ping_def assms(1) sum.case prod.case c2 c3 c4 c5 c6 c7 c8 Let_def
  show ?thesis
  proof (cases "b = - 1 \<or> arg < 0 \<or> r < 0")
    case True
    then show ?thesis
      using assms(2) took_weaken [OF t6, of 8] took_weaken [OF t7, of 8] by (auto simp: run)
  next
    case False
    have "(arg OR O_NONBLOCK) AND O_NONBLOCK = O_NONBLOCK" by (simp add: bit_eq_iff bit_simps) blast
    then have "nonblocking w7 sock"
      using False if_call_nonblocking [OF c7] c7
      by (auto simp: if_flags_def if_call_def Let_def O_NONBLOCK_def split: if_splits)
    then have "nonblocking w8 sock" using if_call_nonblocking [OF c8] by (simp add: if_flags_def)
    then obtain ret w9 i f where l: "ping_loop 30 sock (echo_request be) w8 = Some (ret, w9)"
        "ret = 0 \<and> i = 30 \<or> ret = 1 \<and> f < i \<and> i \<le> 30" "took i f (2 * i) (10000 * f) w8 w9"
      using ping_loop_bounds by blast
    have "took i f (8 + 2 * i) (1000000 + 10000 * f) w1 (if_close sock w9)"
      using took_trans [OF took_trans [OF t8 l(3)] if_close_took [of w9 sock]] by simp
    moreover have "libamg_ping be ipaddr intf w = Some (Inr (ret, if_close sock w9))"
      using assms(2) False l(1) by (simp add: run)
    ultimately show ?thesis using l(2) by blast
  qed
qed


lemma words16_zeros: "sum_list (words16 be (replicate n 0)) = 0"
proof (induction n rule: less_induct)
  case (less n)
  show ?case
  proof (cases "n < 2")
    case True
    then have "n = 0 \<or> n = 1" by auto
    then show ?thesis by (auto simp: dec_def)
  next
    case False
    then obtain k where "n = Suc (Suc k)" by (metis add_2_eq_Suc le_iff_add linorder_not_less)
    then show ?thesis using less by (simp add: dec_def)
  qed
qed

lemma two_elements: "length l = 2 \<Longrightarrow> \<exists>x y. l = [x, y]"
  by (auto simp: numeral_2_eq_2 length_Suc_conv)

text \<open>The 64 bytes that a ping sends carry a checksum that verifies, although it was computed over the
  whole packet of 192 bytes.\<close>

theorem echo_request_verifies:
  "length (take 64 (echo_request be)) = 64 \<and> in_cksum be (take 64 (echo_request be)) = 0"
proof -
  have d: "dec be [8, 0] = (if be then 2048 else 8)" by (simp add: dec_def)
  have "in_cksum be (8 # replicate 191 0) = 65535 - int (dec be [8, 0])"
  proof -
    have "sum_list (words16 be (8 # 0 # replicate 190 0)) = int (dec be [8, 0])" using words16_zeros by simp
    moreover have "8 # replicate 191 0 = 8 # 0 # replicate 190 (0 :: byte)" by (simp add: numeral_eq_Suc)
    ultimately show ?thesis using in_cksum_norm(1) [of "8 # 0 # replicate 190 0" be] d by (simp add: ones_norm_def)
  qed
  then have req: "echo_request be = 8 # 0 # enc be 2 (65535 - dec be [8, 0]) @ replicate 188 0"
    using d by (cases be) (simp_all add: echo_request_def PACKET_SIZE_def)
  obtain x y where xy: "enc be 2 (65535 - dec be [8, 0]) = [x, y]"
    using two_elements [OF length_enc] by blast
  have v: "dec be [x, y] = 65535 - dec be [8, 0]" unfolding xy [symmetric] by (simp add: dec_enc)
  have t: "take 64 (echo_request be) = 8 # 0 # x # y # replicate 60 0" unfolding req xy by (simp add: numeral_eq_Suc)
  have "sum_list (words16 be (8 # 0 # x # y # replicate 60 0)) = 65535"
    using words16_zeros v d by auto
  then show ?thesis unfolding t using in_cksum_norm(1) [of "8 # 0 # x # y # replicate 60 0" be] by (simp add: ones_norm_def)
qed

end
