(* ===== verification/Arp.thy ===== *)
theory Arp
  imports Iface
begin

text \<open>
  The ARP table as the kernel prints it, and the theorem that \<open>libamg_arp_get_hwaddr\<close> of src/if.c finds
  the hardware address of an address in it.
\<close>

subsection \<open>The text of the table\<close>

definition hex_digit :: "nat \<Rightarrow> char" where
  "hex_digit n = ''0123456789abcdef'' ! n"

definition fmt_02x :: "byte \<Rightarrow> string" where
  "fmt_02x b = [hex_digit (unat b div 16), hex_digit (unat b mod 16)]"

fun mac_str :: "byte list \<Rightarrow> string" where
  "mac_str [] = []"
| "mac_str [b] = fmt_02x b"
| "mac_str (b # c # bs) = fmt_02x b @ '':'' @ mac_str (c # bs)"

definition ARP_HEADER :: string where
  "ARP_HEADER = ''IP address       HW type     Flags       HW address            Mask     Device'' @ [LF]"

definition arp_rest :: "byte list \<Rightarrow> string \<Rightarrow> string" where
  "arp_rest mac dev = ''0x1         0x2         '' @ mac_str mac @ ''     *        '' @ dev @ [LF]"

definition arp_entry :: "byte list \<times> byte list \<times> string \<Rightarrow> string" where
  "arp_entry e = (case e of (ip, mac, dev) \<Rightarrow>
     inet_ntop ip @ replicate (16 - length (inet_ntop ip)) (CHR '' '') @ '' '' @ arp_rest mac dev)"

definition arp_table :: "(byte list \<times> byte list \<times> string) list \<Rightarrow> string" where
  "arp_table es = ARP_HEADER @ concat (map arp_entry es)"

definition arp_ok :: "byte list \<times> byte list \<times> string \<Rightarrow> bool" where
  "arp_ok e \<longleftrightarrow> (case e of (ip, mac, dev) \<Rightarrow> length ip = 4 \<and> length mac = 6 \<and> dev \<noteq> [] \<and> length dev \<le> 15 \<and>
     list_all (\<lambda>c. c \<noteq> CHR ''.'' \<and> \<not> c_isspace c \<and> c \<noteq> NUL) dev)"

subsection \<open>Words and searches\<close>

lemma c_words_set: "c \<in> set [CHR 0x20, CHR 0x09, CHR 0x0A, CHR 0x0B, CHR 0x0C, CHR 0x0D] \<longleftrightarrow> c_isspace c"
  by (auto simp: c_isspace_def)

lemma c_words_step:
  assumes "list_all c_isspace sp" and "w \<noteq> []" and "list_all (\<lambda>c. \<not> c_isspace c) w" and "rest = [] \<or> c_isspace (hd rest)"
  shows "c_words (sp @ w @ rest) = w # c_words rest"
proof -
  have dsp: "dropWhile c_isspace (sp @ w @ rest) = w @ rest"
  proof -
    have "dropWhile c_isspace (w @ rest) = w @ rest" using assms(2,3) by (cases w) auto
    then show ?thesis using assms(1) by (auto simp: list_all_iff)
  qed
  have tw: "takeWhile (\<lambda>c. \<not> c_isspace c) (w @ rest) = w" "dropWhile (\<lambda>c. \<not> c_isspace c) (w @ rest) = rest"
    using assms(3,4) by (cases rest; auto simp: list_all_iff takeWhile_append dropWhile_append)+
  show ?thesis
    unfolding c_words_def
    by (subst strtok_all.simps) (simp only: c_words_set dsp tw Let_def, use assms(2) in simp)
qed

lemma sublist_around:
  assumes "c \<notin> set p" and "sublist p (a @ c # b)"
  shows "sublist p a \<or> sublist p b"
proof -
  have q: "q = []" if "prefix q (c # b)" "c \<notin> set q" for q using that by (cases q) auto
  consider "sublist p a" | "prefix p (c # b)" | "sublist p b" | x y where "p = x @ y" "suffix x a" "prefix y (c # b)"
    using assms(2) by (auto simp: sublist_append sublist_Cons_right)
  then show ?thesis
  proof cases
    case 2
    then show ?thesis using q assms(1) by auto
  next
    case (4 x y)
    then have "y = []" using q assms(1) by auto
    then show ?thesis using 4 by (simp add: suffix_imp_sublist)
  qed auto
qed

lemma show_nat_inj: "show_nat m = show_nat n \<Longrightarrow> m = n"
  by (metis append_Nil2 read_digits_show_nat)

lemma dot_not_digit: "CHR ''.'' \<notin> set (show_nat n)"
  using show_nat_digits [of "CHR ''.''" n] by (auto simp: c_isdigit_def)

lemma first_split: "x \<notin> set a \<Longrightarrow> x \<notin> set a' \<Longrightarrow> a @ x # b = a' @ x # b' \<longleftrightarrow> a = a' \<and> b = b'"
proof (induction a arbitrary: a')
  case Nil
  then show ?case by (cases a') auto
next
  case (Cons y a)
  then show ?case by (cases a') auto
qed

lemma inet_ntop_inj:
  assumes "inet_ntop a = inet_ntop b" and "length a = 4" and "length b = 4"
  shows "a = b"
proof -
  have e: "\<And>i. i < 4 \<Longrightarrow> unat (a ! i) = unat (b ! i)"
    using assms(1) dot_not_digit
    by (simp add: inet_ntop_def first_split numeral_eq_Suc less_Suc_eq) (auto dest: show_nat_inj)
  show ?thesis using assms(2,3) e by (intro nth_equalityI) (auto simp: word_unat_eq_iff)
qed

lemma inet_ntop_chars: "c \<in> set (inet_ntop ip) \<Longrightarrow> c_isdigit c \<or> c = CHR ''.''"
  by (auto simp: inet_ntop_def dest: show_nat_digits)

lemma inet_ntop_nospace: "c \<in> set (inet_ntop ip) \<Longrightarrow> \<not> c_isspace c"
  using inet_ntop_chars [of c ip] digit_not_special [of c] by (auto simp: c_isspace_def)

lemma inet_ntop_length: "length (inet_ntop ip) \<le> 15"
proof -
  have "length (show_nat (unat b)) \<le> 3" for b :: byte
  proof -
    have "unat b < 256" by (rule order.strict_trans2 [OF unsigned_less]) simp
    then show ?thesis by (intro show_nat_length) auto
  qed
  from this [of "ip ! 0"] this [of "ip ! 1"] this [of "ip ! 2"] this [of "ip ! 3"]
  show ?thesis by (simp add: inet_ntop_def)
qed

subsection \<open>Hexadecimal bytes\<close>

lemma hex_digit_props:
  assumes "n < 16"
  shows "c_isxdigit (hex_digit n)" and "xdigit_val (hex_digit n) = n" and "\<not> c_isspace (hex_digit n)"
    and "hex_digit n \<noteq> CHR ''-''" and "hex_digit n \<noteq> CHR ''+''" and "hex_digit n \<noteq> CHR ''x''" and "hex_digit n \<noteq> CHR ''X''"
    and "hex_digit n \<noteq> CHR ''.''" and "hex_digit n \<noteq> NUL" and "hex_digit n \<noteq> CHR '':''"
proof -
  let ?ds = "''0123456789abcdef''"
  have "list_all (\<lambda>c. c_isxdigit c \<and> \<not> c_isspace c \<and> c \<notin> set ''-+xX.:'' \<and> c \<noteq> NUL) ?ds"
    by (simp add: c_isxdigit_def c_isdigit_def c_isspace_def)
  moreover have "hex_digit n \<in> set ?ds" unfolding hex_digit_def using assms by (intro nth_mem) simp
  ultimately have "c_isxdigit (hex_digit n) \<and> \<not> c_isspace (hex_digit n) \<and> hex_digit n \<notin> set ''-+xX.:'' \<and> hex_digit n \<noteq> NUL"
    unfolding list_all_iff by blast
  then show "c_isxdigit (hex_digit n)" and "\<not> c_isspace (hex_digit n)"
    and "hex_digit n \<noteq> CHR ''-''" and "hex_digit n \<noteq> CHR ''+''" and "hex_digit n \<noteq> CHR ''x''" and "hex_digit n \<noteq> CHR ''X''"
    and "hex_digit n \<noteq> CHR ''.''" and "hex_digit n \<noteq> NUL" and "hex_digit n \<noteq> CHR '':''"
    by simp_all
  have "map xdigit_val ?ds = [0..<16]" by (simp add: xdigit_val_def upt_rec)
  then have m: "map xdigit_val ?ds ! n = n" using assms by simp
  have "map xdigit_val ?ds ! n = xdigit_val (?ds ! n)" by (rule nth_map) (use assms in simp)
  then show "xdigit_val (hex_digit n) = n" unfolding m hex_digit_def by simp
qed

lemma scan_hhx_02x:
  assumes "r = [] \<or> \<not> c_isxdigit (hd r)"
  shows "scan_hhx (fmt_02x b @ r) = Some (b, r)"
proof -
  have b: "unat b < 256" by (rule order.strict_trans2 [OF unsigned_less]) simp
  let ?h = "unat b div 16" and ?l = "unat b mod 16"
  have hl: "?h < 16" "?l < 16" using b by auto
  have tw: "takeWhile c_isxdigit r = []" using assms by (cases r) auto
  have "16 * ?h + ?l = unat b" by simp
  then show ?thesis
    using hex_digit_props [OF hl(1)] hex_digit_props [OF hl(2)] tw b
    by (simp add: scan_hhx_def fmt_02x_def Let_def)
qed

lemma scan_octets_mac: "length mac \<le> n \<Longrightarrow> scan_octets n (mac_str mac) = mac"
proof (induction mac arbitrary: n rule: mac_str.induct)
  case 1
  then show ?case by (cases n) (simp_all add: scan_hhx_def)
next
  case (2 b)
  then show ?case using scan_hhx_02x [of "[]" b] by (cases n) simp_all
next
  case (3 b c bs)
  have "scan_hhx (fmt_02x b @ CHR '':'' # mac_str (c # bs)) = Some (b, CHR '':'' # mac_str (c # bs))"
    by (rule scan_hhx_02x) (simp add: c_isxdigit_def c_isdigit_def)
  then show ?case using 3 by (cases n) simp_all
qed

lemma mac_str_chars: "c \<in> set (mac_str mac) \<Longrightarrow> \<not> c_isspace c \<and> c \<noteq> CHR ''.'' \<and> c \<noteq> NUL"
proof (induction mac rule: mac_str.induct)
  case (2 b)
  have "unat b < 256" by (rule order.strict_trans2 [OF unsigned_less]) simp
  then have "unat b div 16 < 16" "unat b mod 16 < 16" by auto
  then show ?case using 2 hex_digit_props by (auto simp: fmt_02x_def)
next
  case (3 b c bs)
  have "unat b < 256" by (rule order.strict_trans2 [OF unsigned_less]) simp
  then have "unat b div 16 < 16" "unat b mod 16 < 16" by auto
  then show ?case using 3 hex_digit_props by (auto simp: fmt_02x_def c_isspace_def)
qed simp

lemma mac_str_length: "mac \<noteq> [] \<Longrightarrow> Suc (length (mac_str mac)) = 3 * length mac"
  by (induction mac rule: mac_str.induct) (auto simp: fmt_02x_def)

subsection \<open>Lines\<close>

definition arp_body :: "byte list \<times> byte list \<times> string \<Rightarrow> string" where
  "arp_body e = (case e of (ip, mac, dev) \<Rightarrow>
     inet_ntop ip @ replicate (16 - length (inet_ntop ip)) (CHR '' '') @ '' 0x1         0x2         '' @ mac_str mac @
     ''     *        '' @ dev)"

lemma arp_entry_body: "arp_entry e = arp_body e @ [LF]"
  by (simp add: arp_entry_def arp_body_def arp_rest_def split: prod.split)

lemma arp_body_chars:
  assumes "arp_ok e" and "c \<in> set (arp_body e)"
  shows "c \<noteq> LF \<and> c \<noteq> NUL"
proof -
  obtain ip mac dev where e: "e = (ip, mac, dev)" by (cases e)
  consider "c \<in> set (inet_ntop ip)" | "c \<in> set (mac_str mac)" | "c \<in> set dev" | "c \<in> set '' 0x12*''"
    using assms(2) by (auto simp: arp_body_def e)
  then show ?thesis
  proof cases
    case 1
    then show ?thesis using inet_ntop_chars [of c ip] by (auto simp: c_isdigit_def)
  next
    case 2
    then show ?thesis using mac_str_chars [of c mac] by (auto simp: c_isspace_def)
  next
    case 3
    then show ?thesis using assms(1) by (auto simp: e arp_ok_def list_all_iff c_isspace_def)
  qed auto
qed

lemma arp_entry_line:
  assumes "arp_ok e"
  shows "is_line 128 (arp_entry e)"
proof -
  obtain ip mac dev where e: "e = (ip, mac, dev)" by (cases e)
  have "length (mac_str mac) = 17" using assms mac_str_length [of mac] by (cases mac) (auto simp: e arp_ok_def)
  then have "length (arp_body e) < 127"
    using assms inet_ntop_length [of ip] by (simp add: arp_body_def e arp_ok_def)
  then show ?thesis using arp_body_chars [OF assms] by (auto simp: is_line_def arp_entry_body)
qed

lemma cstr_line: "NUL \<notin> set l \<Longrightarrow> cstr (l @ [NUL]) 0 = l"
  using cstr_app_NUL [of l "[]"] by simp

text \<open>A line is taken exactly when its address is the one looked for.\<close>

lemma arp_entry_matches:
  assumes "arp_ok e" and "length ip = 4"
  shows "c_strstr (arp_entry e) (inet_ntop ip) \<noteq> None \<and> (arp_entry e @ [NUL]) ! length (inet_ntop ip) = CHR '' ''
    \<longleftrightarrow> fst e = ip"
proof -
  obtain ip' mac dev where e: "e = (ip', mac, dev)" by (cases e)
  let ?p = "inet_ntop ip" and ?p' = "inet_ntop ip'"
  let ?b = "replicate (15 - length ?p') (CHR '' '') @ '' '' @ arp_rest mac dev"
  have l: "16 - length ?p' = Suc (15 - length ?p')" using inet_ntop_length [of ip'] by simp
  have line: "arp_entry e = ?p' @ CHR '' '' # ?b" by (simp add: e arp_entry_def l)
  have sp: "CHR '' '' \<notin> set (inet_ntop x)" for x using inet_ntop_chars [of "CHR '' ''" x] by (auto simp: c_isdigit_def)
  have dot: "CHR ''.'' \<in> set ?p" by (simp add: inet_ntop_def)
  have "CHR ''.'' \<notin> set (arp_rest mac dev)"
    using assms(1) mac_str_chars [of "CHR ''.''" mac] by (auto simp: e arp_ok_def arp_rest_def list_all_iff)
  then have "CHR ''.'' \<notin> set ?b" by auto
  then have nb: "\<not> sublist ?p ?b" using dot set_mono_sublist by blast
  show ?thesis
  proof
    assume "fst e = ip"
    then have "?p' = ?p" by (simp add: e)
    moreover have "sublist ?p (?p @ x)" for x by (intro prefix_imp_sublist) simp
    ultimately show "c_strstr (arp_entry e) ?p \<noteq> None \<and> (arp_entry e @ [NUL]) ! length ?p = CHR '' ''"
      unfolding c_strstr_sublist line by (simp add: nth_append)
  next
    assume a: "c_strstr (arp_entry e) ?p \<noteq> None \<and> (arp_entry e @ [NUL]) ! length ?p = CHR '' ''"
    then have "sublist ?p (?p' @ CHR '' '' # ?b)" by (simp only: c_strstr_sublist line) simp
    then have sub: "sublist ?p ?p'" using sublist_around [OF sp] nb by blast
    have "length ?p \<le> length ?p'" using sub by (rule sublist_length_le)
    moreover have "\<not> length ?p < length ?p'"
    proof
      assume lt: "length ?p < length ?p'"
      then have "(arp_entry e @ [NUL]) ! length ?p = ?p' ! length ?p" by (simp add: line nth_append)
      then have "CHR '' '' \<in> set ?p'" using a lt by (metis nth_mem)
      then show False using sp by blast
    qed
    ultimately have "length ?p = length ?p'" by simp
    then have "?p = ?p'" using sub by (auto simp: sublist_def)
    then show "fst e = ip" using inet_ntop_inj assms by (auto simp: e arp_ok_def)
  qed
qed

lemma arp_entry_word:
  assumes "arp_ok e"
  shows "arp_line p h (arp_entry e) =
     (if c_strstr (arp_entry e) p \<noteq> None \<and> (arp_entry e @ [NUL]) ! length p = CHR '' ''
      then Inr (Some (mac_str (fst (snd e)))) else Inr (Some h))"
proof -
  obtain ip mac dev where e: "e = (ip, mac, dev)" by (cases e)
  have ok: "length mac = 6" "mac \<noteq> []" using assms by (auto simp: e arp_ok_def)
  have nul: "NUL \<notin> set (arp_entry e)" using arp_body_chars [OF assms] by (auto simp: arp_entry_body)
  have sp: "list_all c_isspace (replicate n (CHR '' ''))" for n by (simp add: list_all_iff c_isspace_def)
  let ?m = "mac_str mac @ ''     *        '' @ dev @ [LF]"
  have "c_words (arp_entry e) = inet_ntop ip # c_words (replicate (16 - length (inet_ntop ip)) (CHR '' '') @ '' '' @ ''0x1'' @ ''         0x2         '' @ ?m)"
  proof -
    have "c_words ([] @ inet_ntop ip @ replicate (16 - length (inet_ntop ip)) (CHR '' '') @ '' '' @ ''0x1'' @ ''         0x2         '' @ ?m) =
        inet_ntop ip # c_words (replicate (16 - length (inet_ntop ip)) (CHR '' '') @ '' '' @ ''0x1'' @ ''         0x2         '' @ ?m)"
    proof (rule c_words_step)
      show "list_all (\<lambda>c. \<not> c_isspace c) (inet_ntop ip)"
        using inet_ntop_nospace by (auto simp: list_all_iff)
      show "inet_ntop ip \<noteq> []" by (simp add: inet_ntop_def)
      show "replicate (16 - length (inet_ntop ip)) (CHR '' '') @ '' '' @ ''0x1'' @ ''         0x2         '' @ ?m = [] \<or>
          c_isspace (hd (replicate (16 - length (inet_ntop ip)) (CHR '' '') @ '' '' @ ''0x1'' @ ''         0x2         '' @ ?m))"
        using inet_ntop_length [of ip] by (auto simp: hd_append c_isspace_def hd_replicate)
    qed simp
    then show ?thesis by (simp add: e arp_entry_def arp_rest_def)
  qed
  also have "c_words (replicate (16 - length (inet_ntop ip)) (CHR '' '') @ '' '' @ ''0x1'' @ ''         0x2         '' @ ?m) =
      ''0x1'' # c_words (''         0x2         '' @ ?m)"
    using c_words_step [of "replicate (16 - length (inet_ntop ip)) (CHR '' '') @ '' ''" "''0x1''" "''         0x2         '' @ ?m"]
    by (simp add: sp c_isspace_def)
  also have "c_words (''         0x2         '' @ ?m) = ''0x2'' # c_words (''         '' @ ?m)"
    using c_words_step [of "''         ''" "''0x2''" "''         '' @ ?m"] by (simp add: c_isspace_def)
  also have "c_words (''         '' @ ?m) = mac_str mac # c_words (''     *        '' @ dev @ [LF])"
  proof (rule c_words_step)
    show "list_all (\<lambda>c. \<not> c_isspace c) (mac_str mac)" using mac_str_chars by (auto simp: list_all_iff)
    show "mac_str mac \<noteq> []" using mac_str_length [OF ok(2)] ok(1) by auto
  qed (simp_all add: c_isspace_def)
  finally have w: "drop 3 (c_words (arp_entry e)) = mac_str mac # c_words (''     *        '' @ dev @ [LF])"
    by (simp add: numeral_eq_Suc)
  have "length (mac_str mac) = 17" using ok mac_str_length [OF ok(2)] by simp
  then show ?thesis
    unfolding arp_line_def cstr_line [OF nul] Let_def w by (simp add: e)
qed

lemma arp_header_line: "is_line 128 ARP_HEADER" and arp_header_skip: "arp_line (inet_ntop ip) h ARP_HEADER = Inr (Some h)"
proof -
  show "is_line 128 ARP_HEADER" by (simp add: is_line_def ARP_HEADER_def)
  have "CHR ''.'' \<in> set (inet_ntop ip)" "CHR ''.'' \<notin> set ARP_HEADER" by (simp_all add: inet_ntop_def ARP_HEADER_def)
  then have "\<not> sublist (inet_ntop ip) ARP_HEADER" using set_mono_sublist by blast
  moreover have "NUL \<notin> set ARP_HEADER" by (simp add: ARP_HEADER_def)
  ultimately show "arp_line (inet_ntop ip) h ARP_HEADER = Inr (Some h)"
    by (simp add: arp_line_def cstr_line c_strstr_sublist Let_def)
qed

lemma arp_loop_table:
  assumes "list_all arp_ok es" and "length ip = 4"
  shows "arp_loop (inet_ntop ip) h (map arp_entry es) =
    Inr (Some (case map_of (rev (map (\<lambda>(i, m, d). (i, m)) es)) ip of None \<Rightarrow> h | Some m \<Rightarrow> mac_str m))"
  using assms(1)
proof (induction es arbitrary: h)
  case (Cons e es)
  obtain i m d where e: "e = (i, m, d)" by (cases e)
  have ok: "arp_ok e" using Cons.prems by simp
  have "arp_line (inet_ntop ip) h (arp_entry e) = Inr (Some (if i = ip then mac_str m else h))"
    unfolding arp_entry_word [OF ok] arp_entry_matches [OF ok assms(2)] by (simp add: e)
  then show ?case using Cons by (simp add: e map_add_def split: option.split)
qed simp

lemma arp_table_lookup:
  assumes "files w ''/proc/net/arp'' = Some (arp_table es)" and "\<not> cannot_read w ''/proc/net/arp''"
    and "list_all arp_ok es" and "length ip = 4" and "length hwaddr = 6"
  shows "libamg_arp_get_hwaddr ip hwaddr w =
     Inr (0, (case map_of (rev (map (\<lambda>(i, m, d). (i, m)) es)) ip of None \<Rightarrow> hwaddr | Some m \<Rightarrow> m), w)"
proof -
  let ?r = "map_of (rev (map (\<lambda>(i, m, d). (i, m)) es)) ip"
  have "chunks 128 (concat (ARP_HEADER # map arp_entry es)) = ARP_HEADER # map arp_entry es"
    by (rule chunks_concat) (use arp_header_line arp_entry_line assms(3) in \<open>auto simp: list_all_iff\<close>)
  then have loop: "arp_loop (inet_ntop ip) [] (chunks 128 (arp_table es)) =
      Inr (Some (case ?r of None \<Rightarrow> [] | Some m \<Rightarrow> mac_str m))"
    using arp_loop_table [OF assms(3,4)] arp_header_skip by (simp add: arp_table_def)
  have "length m = 6" if "?r = Some m" for m
  proof -
    have "(ip, m) \<in> set (map (\<lambda>(i, m, d). (i, m)) es)" using map_of_SomeD [OF that] by simp
    then obtain d where "(ip, m, d) \<in> set es" by auto
    then have "arp_ok (ip, m, d)" using assms(3) unfolding list_all_iff by blast
    then show ?thesis by (simp add: arp_ok_def)
  qed
  then have "scan_octets 6 (mac_str m) = m \<and> drop (length m) hwaddr = []" if "?r = Some m" for m
    using that assms(5) scan_octets_mac [of m 6] by simp
  moreover have "scan_octets 6 [] = []" using scan_octets_mac [of "[]" 6] by simp
  ultimately have "scan_octets 6 (case ?r of None \<Rightarrow> [] | Some m \<Rightarrow> mac_str m) @
      drop (length (scan_octets 6 (case ?r of None \<Rightarrow> [] | Some m \<Rightarrow> mac_str m))) hwaddr =
      (case ?r of None \<Rightarrow> hwaddr | Some m \<Rightarrow> m)"
    by (cases ?r) simp_all
  moreover have "fopen_r ''/proc/net/arp'' w = (Some (arp_table es), w\<lparr>open_files := open_files w + 1\<rparr>)"
    using assms(1,2) by (rule fopen_r_ok)
  ultimately show ?thesis
    using loop by (simp add: libamg_arp_get_hwaddr_def ARP_ENTRIES_FILE_def f_close_def Let_def)
qed

text \<open>In a table printed by the kernel, in any number of lines, the call finds the hardware address of the
  last entry with the address asked for and stores its 6 bytes; when there is no entry it stores nothing
  and returns 0 all the same. The file is closed.\<close>

theorem arp_lookup:
  assumes "files w ''/proc/net/arp'' = Some (arp_table es)" and "\<not> cannot_read w ''/proc/net/arp''"
    and "list_all arp_ok es" and "length ip = 4" and "length hwaddr = 6"
  shows "libamg_arp_get_hwaddr ip hwaddr w =
     Inr (0, (case map_of (rev (map (\<lambda>(i, m, d). (i, m)) es)) ip of None \<Rightarrow> hwaddr | Some m \<Rightarrow> m), w)"
  by (rule arp_table_lookup [OF assms])

text \<open>When the query of the default gateway did not return a negative number and the ping did not fail,
  the hardware address is that of the ARP entry of the address found, and 0 is returned even if there is
  no entry, with the address 0. The codes that the query returns for its errors are positive, so such a
  failure goes unnoticed.\<close>

theorem gateway_hwaddr:
  assumes "libamg_get_default_gw_ipaddr be rta_max buf0 nw = Some (Inr (r, gw, nw'))" and "0 \<le> r" and "length gw = 4"
    and "libamg_arp_resolv be gw iw = Some (Inr (p, iw'))" and "0 \<le> p" and "length hwaddr = 6"
    and "files w ''/proc/net/arp'' = Some (arp_table es)" and "\<not> cannot_read w ''/proc/net/arp''" and "list_all arp_ok es"
  shows "libamg_get_default_gw_hwaddr be rta_max buf0 hwaddr nw iw w =
     Some (Inr (0, (case map_of (rev (map (\<lambda>(i, m, d). (i, m)) es)) gw of None \<Rightarrow> replicate 6 0 | Some m \<Rightarrow> m), nw', iw', w))"
  using assms arp_table_lookup [OF assms(7-9,3), of "replicate 6 0"]
  by (simp add: libamg_get_default_gw_hwaddr_def)

lemma last_gateway_length:
  assumes "list_all (route_msg be) ms"
  shows "length (last_gateway be ms) = 4"
proof -
  have "length g = 4" if "gateway_of be m = Some g" "m \<in> set ms" for m g
    using assms that by (auto simp: list_all_iff route_msg_def gateway_of_def split: if_splits)
  then have "list_all (\<lambda>g. length g = 4) (rev (List.map_filter (gateway_of be) ms))"
    by (auto simp: list_all_iff map_filter_def)
  then show ?thesis
    unfolding last_gateway_def by (cases "rev (List.map_filter (gateway_of be) ms)") (simp_all only: list.case list.pred_inject, simp)
qed

text \<open>C32: From the routes and the ARP table of the kernel to the answer: when the kernel dumps its routes, the
  ping of the gateway does not fail and the ARP table can be read, the hardware address stored is that of
  the last ARP entry of the gateway of the last default route of the main table, the netlink socket is
  closed, and the result is 0; a gateway without an entry, or no gateway, leaves six zeros.\<close>

theorem default_gateway_hwaddr:
  assumes "netlink_works nw" and "15 \<le> rta_max" and "length buf0 = 16384"
    and "inbox nw = map (datagram be) (dump_stream (request_handle nw) mss ms)"
    and "stream_ok 16384 (route_msg be) (request_handle nw) mss ms"
    and "libamg_arp_resolv be (last_gateway be (concat mss @ ms)) iw = Some (Inr (p, iw'))" and "0 \<le> p" and "length hwaddr = 6"
    and "files w ''/proc/net/arp'' = Some (arp_table es)" and "\<not> cannot_read w ''/proc/net/arp''" and "list_all arp_ok es"
  shows "\<exists>nw'. libamg_get_default_gw_hwaddr be rta_max buf0 hwaddr nw iw w =
     Some (Inr (0, (case map_of (rev (map (\<lambda>(i, m, d). (i, m)) es)) (last_gateway be (concat mss @ ms)) of
         None \<Rightarrow> replicate 6 0 | Some m \<Rightarrow> m), nw', iw', w)) \<and>
     opened (nl_log nw') = opened (nl_log nw)"
proof -
  obtain nw' where gw: "libamg_get_default_gw_ipaddr be rta_max buf0 nw =
      Some (Inr (0, last_gateway be (concat mss @ ms), nw'))" "opened (nl_log nw') = opened (nl_log nw)"
    using default_gateway_dump_result [OF assms(1-5)] by blast
  have "length (last_gateway be (concat mss @ ms)) = 4"
    using assms(5) by (intro last_gateway_length) (simp add: stream_ok_def list_all_iff)
  then show ?thesis
    using gw assms(6-8) arp_table_lookup [OF assms(9-11), of "last_gateway be (concat mss @ ms)" "replicate 6 0"]
    by (simp add: libamg_get_default_gw_hwaddr_def)
qed

definition demo_world :: "string \<Rightarrow> world" where
  "demo_world text = \<lparr>files = [''/proc/net/arp'' \<mapsto> text], cannot_read = \<lambda>_. False, cannot_write = \<lambda>_. False,
     shell = \<lambda>_ fs. (0, fs), alloc_ok = \<lambda>_. True, allocs = 0, live = 0, open_files = 0, cmds = []\<rparr>"

definition demo_arp :: "(byte list \<times> byte list \<times> string) list" where
  "demo_arp = [([10, 0, 0, 1], [2, 0x1B, 0xFF, 4, 5, 6], ''eth0''), ([110, 0, 0, 1], [9, 9, 9, 9, 9, 9], ''eth1'')]"

lemma demo_arp_ok: "list_all arp_ok demo_arp"
  by (simp add: demo_arp_def arp_ok_def c_isspace_def)

theorem arp_lookup_witness:
  "libamg_arp_get_hwaddr [10, 0, 0, 1] [0, 0, 0, 0, 0, 0] (demo_world (arp_table demo_arp)) =
     Inr (0, [2, 0x1B, 0xFF, 4, 5, 6], demo_world (arp_table demo_arp))"
proof -
  have "files (demo_world (arp_table demo_arp)) ''/proc/net/arp'' = Some (arp_table demo_arp)"
    "\<not> cannot_read (demo_world (arp_table demo_arp)) ''/proc/net/arp''" by (simp_all add: demo_world_def)
  from arp_lookup [OF this demo_arp_ok, of "[10, 0, 0, 1]" "[0, 0, 0, 0, 0, 0]"] show ?thesis
    by (simp add: demo_arp_def)
qed

text \<open>A kernel that refuses the request of the default gateway with error 105, and a ping without answer.\<close>

definition demo_if :: if_world where
  "demo_if = \<lparr>if_answers = \<lambda>k. if k < 9 then (if k = 1 then 0 else 5) else - 11, if_data = \<lambda>_. 0x40 # replicate 15 0,
     if_calls = [], if_errno = 0, nonblocking = \<lambda>_. False\<rparr>"

lemma ping_loop_silent:
  "(\<And>k. length (if_calls w) \<le> k \<Longrightarrow> if_answers w k < 0) \<Longrightarrow> nonblocking w s \<Longrightarrow>
     \<exists>w'. ping_loop n s packet w = Some (0, w')"
proof (induction n arbitrary: w)
  case (Suc n)
  let ?k = "length (if_calls w)"
  obtain c data w1 where c: "if_call (If_Recvfrom s (length packet)) w = (c, data, w1)"
    by (cases "if_call (If_Recvfrom s (length packet)) w")
  obtain c2 data2 w2 where c2: "if_call (If_Sleep 10000) w1 = (c2, data2, w2)" by (cases "if_call (If_Sleep 10000) w1")
  have "c < 0" using c Suc.prems(1) [of ?k] by (auto simp: if_call_def Let_def split: if_splits)
  moreover have "if_answers w2 = if_answers w \<and> nonblocking w2 s \<and> ?k \<le> length (if_calls w2)"
    using c c2 Suc.prems(2) by (auto simp: if_call_def if_flags_def Let_def split: if_splits)
  then have "\<exists>w'. ping_loop n s packet w2 = Some (0, w')" using Suc.prems(1) by (intro Suc.IH) auto
  ultimately show ?case using if_recv_nonblocking [OF Suc.prems(2)] c c2 by simp
qed simp

lemma demo_ping: "\<exists>w'. libamg_arp_resolv False ip demo_if = Some (Inr (0, w'))"
proof -
  have f: "sint (word_of_int (sint (word_of_nat (dec False [0x40, 0]) :: 16 word)) AND IFF_RUNNING) = 64"
    by (simp add: dec_def IFF_RUNNING_def)
  let ?c = "[If_Socket AF_INET, If_Ioctl 5 ''eth0'', If_Close 5, If_Socket AF_INET, If_Ioctl 5 ''eth0'',
    If_Bind 5 (0x40 # replicate 15 0), If_Sendto 5 (take 64 (echo_request False)) (inet_ntop ip), If_Getfl 5,
    If_Setfl 5 2053, If_Sleep 1000000]"
  let ?nb = "(\<lambda>_. False)(5 := True)"
  let ?w = "demo_if\<lparr>if_calls := ?c, if_errno := 11, nonblocking := ?nb\<rparr>"
  obtain w' where "ping_loop 30 5 (echo_request False) ?w = Some (0, w')"
    using ping_loop_silent [of ?w 5 30 "echo_request False"] by (auto simp: demo_if_def)
  then show ?thesis
    using f by (simp add: libamg_arp_resolv_def libamg_ping_def libamg_dev_get_link_running_def dev_get_flags_def
        dev_get_ctrlfd_def if_call_def if_flags_def if_close_def MAIN_IF_def demo_if_def Let_def O_NONBLOCK_def)
qed

theorem gateway_hwaddr_witness:
  "\<exists>nw' iw'. libamg_get_default_gw_hwaddr False 30 [] [1, 1, 1, 1, 1, 1]
      ((demo_nl [])\<lparr>nl_answers := \<lambda>k. if k = 5 then - 105 else 5\<rparr>) demo_if (demo_world (arp_table demo_arp)) =
     Some (Inr (0, [0, 0, 0, 0, 0, 0], nw', iw', demo_world (arp_table demo_arp)))"
proof -
  let ?nw = "(demo_nl [])\<lparr>nl_answers := \<lambda>k. if k = 5 then - 105 else 5\<rparr>"
  obtain nw' where n: "libamg_get_default_gw_ipaddr False 30 [] ?nw = Some (Inr (105, [0, 0, 0, 0], nw'))"
    by (simp add: libamg_get_default_gw_ipaddr_def rtnl_open_def rtnl_open_byproto_def rtnl_wilddump_request_def
        rtnl_close_def nl_call_def demo_nl_def Let_def)
  obtain iw' where p: "libamg_arp_resolv False [0, 0, 0, 0] demo_if = Some (Inr (0, iw'))" using demo_ping by blast
  have "files (demo_world (arp_table demo_arp)) ''/proc/net/arp'' = Some (arp_table demo_arp)"
    "\<not> cannot_read (demo_world (arp_table demo_arp)) ''/proc/net/arp''" by (simp_all add: demo_world_def)
  from gateway_hwaddr [OF n _ _ p _ _ this demo_arp_ok, of "[1, 1, 1, 1, 1, 1]"] show ?thesis
    by (simp add: demo_arp_def numeral_eq_Suc)
qed

theorem default_gateway_hwaddr_witness:
  "\<exists>nw' iw'. libamg_get_default_gw_hwaddr False 30 (replicate 16384 0) [1, 1, 1, 1, 1, 1]
      (demo_nl (map (datagram False) (dump_stream demo_req [[demo_route [(5, [10, 0, 0, 1])]]]
        [demo_route [(1, [10, 0, 0, 0]), (5, [10, 0, 0, 9])]]))) demo_if (demo_world (arp_table demo_arp)) =
     Some (Inr (0, [2, 0x1B, 0xFF, 4, 5, 6], nw', iw', demo_world (arp_table demo_arp)))"
proof -
  let ?mss = "[[demo_route [(5, [10, 0, 0, 1])]]]" and ?ms = "[demo_route [(1, [10, 0, 0, 0]), (5, [10, 0, 0, 9])]]"
  let ?w = "demo_nl (map (datagram False) (dump_stream demo_req ?mss ?ms))"
  obtain iw' where p: "libamg_arp_resolv False (last_gateway False (concat ?mss @ ?ms)) demo_if = Some (Inr (0, iw'))"
    using demo_ping by blast
  have f: "files (demo_world (arp_table demo_arp)) ''/proc/net/arp'' = Some (arp_table demo_arp)"
    "\<not> cannot_read (demo_world (arp_table demo_arp)) ''/proc/net/arp''" by (simp_all add: demo_world_def)
  have i: "inbox ?w = map (datagram False) (dump_stream (request_handle ?w) ?mss ?ms)" by (simp add: demo_request) (simp add: demo_nl_def)
  have st: "stream_ok 16384 (route_msg False) (request_handle ?w) ?mss ?ms" by (simp only: demo_request demo_stream)
  from default_gateway_hwaddr [OF demo_request(2) _ _ i st p _ _ f demo_arp_ok, of 30
      "replicate 16384 0" "[1, 1, 1, 1, 1, 1]"]
  show ?thesis unfolding demo_stream(2) by (simp add: demo_arp_def) blast
qed

end
