(* ===== verification/Capture.thy ===== *)
theory Capture
  imports C_Library
begin

text \<open>
  The functions of src/process.c that run programs: \<open>libamg_process_spawn_daemon\<close>, \<open>libamg_process_run_prog\<close>
  and \<open>libamg_process_prog_capture\<close>. What \<open>fork\<close>, \<open>waitpid\<close> and the program itself do are parameters. The last
  function is modelled twice: as the sequence of reads of the parent and its final wait, and as a step relation of parent and
  child with the pipe between them, where the parent can wait for a child that waits for the pipe.
\<close>

subsection \<open>Arguments\<close>

definition MAX_ARGS :: nat where "MAX_ARGS = 10"

text \<open>
  The variable arguments up to the null pointer, stored from index 1 on; then a null pointer is stored at the
  index where the loop stopped, which is outside the array when the loop ran to its end.
\<close>

fun argv_loop :: "nat \<Rightarrow> string list \<Rightarrow> string list \<Rightarrow> string list outcome" where
  "argv_loop i [] argv = (if i < MAX_ARGS then Inr argv else Inl Out_Of_Bounds)"
| "argv_loop i (a # as) argv = (if i < MAX_ARGS then argv_loop (Suc i) as (argv @ [a]) else Inl Out_Of_Bounds)"

definition build_argv :: "string \<Rightarrow> string list \<Rightarrow> string list outcome" where
  "build_argv path args = argv_loop 1 args [path]"

subsection \<open>Daemons and programs\<close>

datatype daemon_call = Umask nat | Setsid | Chdir string | Execv string "string list" | Exit int

text \<open>What the child does, given which of its calls succeed; a successful \<open>execv\<close> does not return.\<close>

definition daemon_child :: "bool \<Rightarrow> bool \<Rightarrow> bool \<Rightarrow> string \<Rightarrow> string list \<Rightarrow> daemon_call list" where
  "daemon_child sid_ok chdir_ok exec_ok path argv =
     [Umask 0, Setsid] @
     (if \<not> sid_ok then [Exit 1]
      else [Chdir ''/''] @
        (if \<not> chdir_ok then [Exit 1]
         else [Execv path argv] @ (if exec_ok then [] else [Exit 1])))"

definition libamg_process_spawn_daemon ::
    "bool \<Rightarrow> bool \<Rightarrow> bool \<Rightarrow> bool \<Rightarrow> string \<Rightarrow> string list \<Rightarrow> (int \<times> daemon_call list) outcome" where
  "libamg_process_spawn_daemon forks sid_ok chdir_ok exec_ok path args =
     (case build_argv path args of
        Inl e \<Rightarrow> Inl e
      | Inr argv \<Rightarrow>
          if \<not> forks then Inr (- 1, []) else Inr (0, daemon_child sid_ok chdir_ok exec_ok path argv))"

text \<open>How the program ends: it cannot be executed, and the child calls \<open>exit(-1)\<close>, it exits, or it is killed.\<close>

datatype child_end = Exec_Fails | Exits nat | Killed nat

definition exit_status :: "child_end \<Rightarrow> nat option" where
  "exit_status c = (case c of Exec_Fails \<Rightarrow> Some 255 | Exits n \<Rightarrow> Some (n mod 256) | Killed s \<Rightarrow> None)"

definition libamg_process_run_prog ::
    "bool \<Rightarrow> bool \<Rightarrow> (bool \<Rightarrow> string \<Rightarrow> string list \<Rightarrow> child_end) \<Rightarrow> bool \<Rightarrow> string \<Rightarrow> string list \<Rightarrow> int outcome" where
  "libamg_process_run_prog forks waits run no_out path args =
     (case build_argv path args of
        Inl e \<Rightarrow> Inl e
      | Inr argv \<Rightarrow>
          if \<not> forks then Inr (- 1)
          else if \<not> waits then Inr (- 1)
          else case exit_status (run no_out path argv) of
              None \<Rightarrow> Inr (- 1)
            | Some status \<Rightarrow> if int status < 0 then Inr (- 1) else Inr 0)"

subsection \<open>Capturing the output\<close>

text \<open>
  What the program does is \<open>(rs, exits)\<close>: the reads of the pipe find \<open>rs\<close>, in order, until the end of the
  output, and \<open>exits\<close> says whether the program ends by itself once its output is written. A call that waits for
  ever is None: a read at the end of the output of a program that never ends, and the final \<open>waitpid\<close> when the
  program does not end, or cannot because the pipe holds only \<open>C\<close> of the characters that were not read.
\<close>

datatype pipe_read = Read_Error | Data string

fun capture_loop :: "bool \<Rightarrow> int \<Rightarrow> pipe_read list \<Rightarrow> string \<Rightarrow> string outcome option" where
  "capture_loop exits len [] acc = (if 0 < len \<and> \<not> exits then None else Some (Inr acc))"
| "capture_loop exits len (Read_Error # rs) acc = (if 0 < len then Some (Inl (Process_Exit (- 1))) else Some (Inr acc))"
| "capture_loop exits len (Data d # rs) acc =
     (if len \<le> 0 \<or> d = [] then Some (Inr acc)
      else let n = min (nat len) (length d) in capture_loop exits (len - int n) rs (acc @ take n d))"

fun output_of :: "pipe_read list \<Rightarrow> string" where
  "output_of [] = []"
| "output_of (Read_Error # rs) = output_of rs"
| "output_of (Data d # rs) = d @ output_of rs"

definition waitpid_returns :: "nat \<Rightarrow> bool \<Rightarrow> pipe_read list \<Rightarrow> nat \<Rightarrow> bool" where
  "waitpid_returns C exits rs taken \<longleftrightarrow> exits \<and> length (output_of rs) - taken \<le> C"

definition libamg_process_prog_capture :: "bool \<Rightarrow> bool \<Rightarrow> nat \<Rightarrow> (string \<Rightarrow> string list \<Rightarrow> pipe_read list \<times> bool) \<Rightarrow>
    char list \<Rightarrow> int \<Rightarrow> string \<Rightarrow> string list \<Rightarrow> (int \<times> char list) outcome option" where
  "libamg_process_prog_capture pipe_ok forks C run buffer len path args =
     (case build_argv path args of
        Inl e \<Rightarrow> Some (Inl e)
      | Inr argv \<Rightarrow>
          if \<not> pipe_ok then Some (Inl Uninitialised)
          else if \<not> forks then Some (Inr (- 1, buffer))
          else let (rs, exits) = run path argv in
            case capture_loop exits (len - 1) rs [] of
              None \<Rightarrow> None
            | Some (Inl e) \<Rightarrow> Some (Inl e)
            | Some (Inr s) \<Rightarrow>
                if length buffer \<le> length s then Some (Inl Out_Of_Bounds)
                else if \<not> waitpid_returns C exits rs (length s) then None
                else Some (Inr (1, s @ NUL # drop (Suc (length s)) buffer)))"

subsection \<open>Parent, child and pipe\<close>

text \<open>
  The child still has \<open>to_write\<close> to write and then exits; the pipe holds at most \<open>C\<close> characters and a write into a
  full pipe waits. The parent reads while there is room in the buffer, then waits for the child; it keeps
  the reading end open.
\<close>

datatype cap_phase = Reading | Waiting | Returned

record cap_state =
  to_write :: string
  in_pipe :: string
  room :: nat
  got :: string
  phase :: cap_phase

inductive cap_step :: "nat \<Rightarrow> cap_state \<Rightarrow> cap_state \<Rightarrow> bool" for C where
  child_writes: "to_write s = c # cs \<Longrightarrow> length (in_pipe s) < C \<Longrightarrow>
    cap_step C s (s\<lparr>to_write := cs, in_pipe := in_pipe s @ [c]\<rparr>)"
| parent_reads: "phase s = Reading \<Longrightarrow> 0 < n \<Longrightarrow> n \<le> room s \<Longrightarrow> n \<le> length (in_pipe s) \<Longrightarrow>
    cap_step C s (s\<lparr>in_pipe := drop n (in_pipe s), room := room s - n, got := got s @ take n (in_pipe s)\<rparr>)"
| buffer_full: "phase s = Reading \<Longrightarrow> room s = 0 \<Longrightarrow> cap_step C s (s\<lparr>phase := Waiting\<rparr>)"
| end_of_output: "phase s = Reading \<Longrightarrow> 0 < room s \<Longrightarrow> in_pipe s = [] \<Longrightarrow> to_write s = [] \<Longrightarrow>
    cap_step C s (s\<lparr>phase := Waiting\<rparr>)"
| child_waited_for: "phase s = Waiting \<Longrightarrow> to_write s = [] \<Longrightarrow> cap_step C s (s\<lparr>phase := Returned\<rparr>)"

definition cap_init :: "nat \<Rightarrow> string \<Rightarrow> cap_state" where
  "cap_init len output = \<lparr>to_write = output, in_pipe = [], room = len - 1, got = [], phase = Reading\<rparr>"

inductive_cases cap_stepE: "cap_step C s s'"

subsection \<open>Results\<close>

lemma argv_loop_bound:
  "argv_loop i args argv = (if i + length args < MAX_ARGS then Inr (argv @ args) else Inl Out_Of_Bounds)"
  by (induction i args argv rule: argv_loop.induct) auto

lemma build_argv_bound: "build_argv path args = (if length args < 9 then Inr (path # args) else Inl Out_Of_Bounds)"
  by (simp add: build_argv_def argv_loop_bound MAX_ARGS_def)

text \<open>With nine arguments or more the array of arguments is overrun. Otherwise the result is 0 whenever the
  child ended by itself: also when the program returned an error status, and when it could not be
  executed at all.\<close>

theorem run_prog_ignores_status:
  "libamg_process_run_prog forks waits run no_out path args =
     (if 9 \<le> length args then Inl Out_Of_Bounds
      else if forks \<and> waits then
        Inr (case run no_out path (path # args) of Exec_Fails \<Rightarrow> 0 | Exits n \<Rightarrow> 0 | Killed s \<Rightarrow> - 1)
      else Inr (- 1))"
  by (simp add: libamg_process_run_prog_def build_argv_bound exit_status_def split: child_end.split)

lemma capture_loop_data:
  "0 \<le> len \<Longrightarrow> list_all (\<lambda>d. d \<noteq> []) ds \<Longrightarrow> capture_loop exits len (map Data ds) acc =
     (if exits \<or> nat len \<le> length (concat ds) then Some (Inr (acc @ take (nat len) (concat ds))) else None)"
proof (induction ds arbitrary: len acc)
  case (Cons d ds)
  show ?case
  proof (cases "len = 0")
    case False
    let ?n = "min (nat len) (length d)"
    have "capture_loop exits len (map Data (d # ds)) acc = capture_loop exits (len - int ?n) (map Data ds) (acc @ take ?n d)"
      using False Cons.prems by (simp add: Let_def)
    also have "\<dots> = (if exits \<or> nat (len - int ?n) \<le> length (concat ds)
        then Some (Inr ((acc @ take ?n d) @ take (nat (len - int ?n)) (concat ds))) else None)"
      using Cons.prems by (intro Cons.IH) auto
    also have "nat (len - int ?n) = nat len - length d" using Cons.prems(1) by (auto simp: min_def)
    finally show ?thesis by (auto simp: min_def)
  qed simp
qed simp

lemma output_of_data: "output_of (map Data ds) = concat ds"
  by (induction ds) auto

text \<open>C36: For a buffer of at least \<open>len\<close> bytes, \<open>len\<close> positive, the call returns exactly when the program ends by
  itself and its output fits the \<open>len - 1\<close> characters of the buffer and the pipe together; then it returns 1, and
  the buffer holds the first \<open>len - 1\<close> characters of the output, however the reads cut it, and a NUL behind
  them. Otherwise it waits for ever, in a read or in \<open>waitpid\<close>.\<close>

theorem prog_capture_prefix:
  assumes "1 \<le> len" and "nat len \<le> length buffer" and "length args < 9" and "list_all (\<lambda>d. d \<noteq> []) ds"
    and "run path (path # args) = (map Data ds, exits)"
  shows "libamg_process_prog_capture True True C run buffer len path args =
     (if exits \<and> length (concat ds) \<le> (nat len - 1) + C
      then let s = take (nat len - 1) (concat ds) in Some (Inr (1, s @ NUL # drop (Suc (length s)) buffer))
      else None)"
proof -
  have "capture_loop exits (len - 1) (map Data ds) [] =
      (if exits \<or> nat len - 1 \<le> length (concat ds) then Some (Inr (take (nat len - 1) (concat ds))) else None)"
    using capture_loop_data [of "len - 1" ds exits "[]"] assms(1,4) by (simp add: nat_diff_distrib)
  then show ?thesis
    using assms
    by (auto simp: libamg_process_prog_capture_def build_argv_bound Let_def waitpid_returns_def output_of_data min_def)
qed

theorem prog_capture_prefix_witness:
  "(let run = (\<lambda>p a. ([Data ''ab'', Data ''cde''], True)); buffer = replicate 5 (CHR ''z'') in
     libamg_process_prog_capture True True 2 run buffer 4 ''/bin/x'' [''-v''] = Some (Inr (1, ''abc'' @ [NUL] @ ''z'')) \<and>
     libamg_process_prog_capture True True 1 run buffer 4 ''/bin/x'' [''-v''] = None)"
  using prog_capture_prefix [of 4 "replicate 5 (CHR ''z'')" "[''-v'']" "[''ab'', ''cde'']"
      "\<lambda>p a. ([Data ''ab'', Data ''cde''], True)" "''/bin/x''" True 2]
    prog_capture_prefix [of 4 "replicate 5 (CHR ''z'')" "[''-v'']" "[''ab'', ''cde'']"
      "\<lambda>p a. ([Data ''ab'', Data ''cde''], True)" "''/bin/x''" True 1]
  by (simp add: numeral_eq_Suc Let_def)

text \<open>The invariant of the runs: nothing is lost, and what is read fits.\<close>

definition cap_inv :: "nat \<Rightarrow> nat \<Rightarrow> string \<Rightarrow> cap_state \<Rightarrow> bool" where
  "cap_inv C len output s \<longleftrightarrow> got s @ in_pipe s @ to_write s = output \<and> length (got s) + room s = len - 1 \<and>
     length (in_pipe s) \<le> C \<and> (phase s \<noteq> Reading \<longrightarrow> room s = 0 \<or> in_pipe s = [] \<and> to_write s = []) \<and>
     (phase s = Returned \<longrightarrow> to_write s = [])"

lemma cap_inv_step: "cap_step C s s' \<Longrightarrow> cap_inv C len output s \<Longrightarrow> cap_inv C len output s'"
  by (induction rule: cap_step.induct) (auto simp: cap_inv_def)

lemma cap_inv_reachable: "(cap_step C)\<^sup>*\<^sup>* (cap_init len output) s \<Longrightarrow> cap_inv C len output s"
  by (induction rule: rtranclp_induct) (simp add: cap_inv_def cap_init_def, rule cap_inv_step)

fun phase_weight :: "cap_phase \<Rightarrow> nat" where
  "phase_weight Reading = 2"
| "phase_weight Waiting = 1"
| "phase_weight Returned = 0"

definition cap_measure :: "cap_state \<Rightarrow> nat" where
  "cap_measure s = 2 * length (to_write s) + length (in_pipe s) + phase_weight (phase s)"

lemma cap_step_decreases: "cap_step C s s' \<Longrightarrow> cap_measure s' < cap_measure s"
  by (induction rule: cap_step.induct) (auto simp: cap_measure_def)

text \<open>C37: Whatever parent and child do in turn, they cannot go on for ever: every run of reads, writes and
  waits ends.\<close>

theorem capture_terminates: "wf {(s', s). cap_step C s s'}"
  by (rule wf_subset [OF wf_measure [of cap_measure]]) (auto dest: cap_step_decreases)

lemma run_to_end: "\<exists>s'. (cap_step C)\<^sup>*\<^sup>* s s' \<and> (\<forall>t. \<not> cap_step C s' t)"
proof (induction "cap_measure s" arbitrary: s rule: less_induct)
  case less
  show ?case
  proof (cases "\<exists>t. cap_step C s t")
    case True
    then obtain t where t: "cap_step C s t" by blast
    then obtain s' where "(cap_step C)\<^sup>*\<^sup>* t s'" "\<forall>u. \<not> cap_step C s' u" using less cap_step_decreases by blast
    then show ?thesis using t by (meson converse_rtranclp_into_rtranclp)
  qed blast
qed

text \<open>A state from which nothing can happen: the call has returned, or it waits for a child that waits for the pipe.\<close>

lemma cap_stuck:
  assumes "cap_inv C len output s" and "0 < C" and "\<forall>t. \<not> cap_step C s t"
  shows "phase s = Returned \<or> phase s = Waiting \<and> to_write s \<noteq> [] \<and> length (in_pipe s) = C \<and> room s = 0"
proof (cases "phase s")
  case Reading
  have "room s \<noteq> 0" using buffer_full [OF Reading] assms(3) by blast
  moreover have "in_pipe s = []"
    using parent_reads [OF Reading, of 1] calculation assms(3) by (cases "in_pipe s") auto
  moreover have "to_write s = []"
    using child_writes [of s] calculation(2) assms(2,3) by (cases "to_write s") auto
  ultimately show ?thesis using end_of_output [OF Reading] assms(3) by blast
next
  case Waiting
  have "to_write s \<noteq> []" using child_waited_for [OF Waiting] assms(3) by blast
  moreover have "\<not> length (in_pipe s) < C"
    using child_writes [of s] calculation assms(3) by (cases "to_write s") blast+
  then have "length (in_pipe s) = C" using assms(1) by (simp add: cap_inv_def)
  ultimately show ?thesis using Waiting assms(1) by (auto simp: cap_inv_def)
qed simp

text \<open>C38: When the output is at most \<open>C\<close> characters longer than the \<open>len - 1\<close> characters the buffer takes, every
  run can be continued until the call returns, and then it has read the first \<open>len - 1\<close> characters of the output:
  all of it when it fits the buffer, and otherwise without the rest, which stays in the pipe.\<close>

theorem capture_returns:
  assumes "0 < C" and "length output \<le> (len - 1) + C" and "(cap_step C)\<^sup>*\<^sup>* (cap_init len output) s"
  shows "\<exists>s'. (cap_step C)\<^sup>*\<^sup>* s s' \<and> phase s' = Returned \<and> got s' = take (len - 1) output"
proof -
  obtain s' where s': "(cap_step C)\<^sup>*\<^sup>* s s'" "\<forall>t. \<not> cap_step C s' t" using run_to_end by blast
  have inv: "cap_inv C len output s'" using cap_inv_reachable rtranclp_trans [OF assms(3) s'(1)] by blast
  have "phase s' = Returned"
  proof (rule ccontr)
    assume "phase s' \<noteq> Returned"
    then have w: "to_write s' \<noteq> []" "length (in_pipe s') = C" "room s' = 0" using cap_stuck [OF inv assms(1) s'(2)] by auto
    have "length output = length (got s') + length (in_pipe s') + length (to_write s')"
      using inv by (auto simp: cap_inv_def)
    then show False using w assms(2) inv by (auto simp: cap_inv_def)
  qed
  moreover have "got s' = take (len - 1) output"
    using inv calculation by (auto simp: cap_inv_def)
  ultimately show ?thesis using s'(1) by blast
qed

text \<open>C39: When the output is longer than the buffer and the pipe together, the call never returns: every run
  ends with the parent waiting for the child and the child waiting to write.\<close>

theorem capture_deadlocks:
  assumes "0 < C" and "(len - 1) + C < length output" and "(cap_step C)\<^sup>*\<^sup>* (cap_init len output) s"
  shows "phase s \<noteq> Returned \<and>
    (\<exists>s'. (cap_step C)\<^sup>*\<^sup>* s s' \<and> phase s' = Waiting \<and> to_write s' \<noteq> [] \<and> (\<forall>t. \<not> cap_step C s' t))"
proof -
  have never: "phase u \<noteq> Returned" if "cap_inv C len output u" for u
  proof
    assume "phase u = Returned"
    then have "to_write u = []" "output = got u @ in_pipe u" "length (in_pipe u) \<le> C" "length (got u) \<le> len - 1"
      using that by (auto simp: cap_inv_def)
    then show False using assms(2) by auto
  qed
  obtain s' where s': "(cap_step C)\<^sup>*\<^sup>* s s'" "\<forall>t. \<not> cap_step C s' t" using run_to_end by blast
  have inv: "cap_inv C len output s'" using cap_inv_reachable rtranclp_trans [OF assms(3) s'(1)] by blast
  show ?thesis
    using never cap_inv_reachable [OF assms(3)] never [OF inv] cap_stuck [OF inv assms(1) s'(2)] s' by blast
qed

theorem capture_returns_witness:
  "\<exists>s'. (cap_step 4)\<^sup>*\<^sup>* (cap_init 3 ''abcdef'') s' \<and> phase s' = Returned \<and> got s' = ''ab''"
  using capture_returns [of 4 "''abcdef''" 3 "cap_init 3 ''abcdef''"] by simp

theorem capture_deadlocks_witness:
  "\<exists>s'. (cap_step 4)\<^sup>*\<^sup>* (cap_init 3 ''abcdefg'') s' \<and> phase s' = Waiting \<and> to_write s' \<noteq> [] \<and> (\<forall>t. \<not> cap_step 4 s' t)"
  using capture_deadlocks [of 4 3 "''abcdefg''" "cap_init 3 ''abcdefg''"] by simp

end
