(* ===== verification/Spec2Isabelle.thy ===== *)
theory Spec2Isabelle
  imports Api_Heap Sip_Types Tone_Finish Dsp Netlink_Compat Netlink_Replay Arp Capture
begin

text \<open>
  A verification development of libamg, the C library with which a telephony gateway (asterisk on a
  Comcerto processor with DAHDI lines) is configured and driven. The library is a set of modules under
  src/src. Those that own a configuration file parse it into a heap structure, print a structure back to
  the file and run the command that makes a daemon read it; dsp.c drives the signal processor; if.c asks the
  kernel about network interfaces, partly over the routing sockets of libnetlink; process.c and system.c
  manage programs and report on the machine.

  \<^bold>\<open>Parts and theories.\<close>

  \<^item> AMG_Prelude and C_Library: outcomes of calls that may crash (\<open>Inl fault\<close> or \<open>Inr value\<close>), loops with
    faults, and the C library as the sources use it: C strings in buffers, \<open>strtok\<close>, \<open>strchr\<close>, \<open>atoi\<close>,
    printing of numbers, \<open>isspace\<close>. C_String adds \<open>strcpy\<close>, \<open>strstr\<close> and the words of \<open>%s\<close>; C_Float the checked
    sums of \<open>long long\<close> and the arithmetic of \<open>float\<close> and \<open>double\<close>, rounded as IEEE 754 does, with a bound of its error.
  \<^item> Str (str.c): the in-place string helpers, with pointers as offsets. The loops are \<open>function\<close>s with
    measures; each helper is proved to refine a function on strings.
  \<^item> World: files, heap, open streams and commands of \<open>system\<close> as one record that is passed along. Which
    open or allocation fails, and what a command answers, is part of the record; the theorems hold for all
    answers. \<open>live\<close> and \<open>open_files\<close> make leaks visible.
  \<^item> Conf_File: the reading loop all parsers share (\<open>fgets\<close> into a buffer, cut at the first \<open>=\<close>, strip,
    dispatch on the key) and the reading of printed lines, as the locales \<open>conf_reader\<close> and
    \<open>total_reader\<close>; their interpretations in the component theories give the round trips of the files.
    Tables of names and codes are the locales \<open>code_table\<close> and \<open>exact_code_table\<close>, interpreted per table.
  \<^item> Sys_Log (sys_log.c), Extensions (extensions.c), Comcerto (comcerto.c), Sip (sip.c), Dahdi_Span and
    Dahdi (dahdi.c): the record of each \<open>struct\<close>, its tables of names and codes, parser, printer, reset,
    apply and queries, function by function under the names of the sources. Code_Tables holds the tables
    that sip.c and comcerto.c export; Comcerto_Save the function that writes comcerto.conf and sip.conf
    together; Sip_Query the queries of sip.c over the configuration and over the registrations of asterisk.
    Sip_Types says when a value of the structure is one that the types of sip.h can hold (16-bit numbers, texts
    that end inside their arrays, at most nine codecs), and follows these types through parser and printer.
  \<^item> Tone_Queue (dsp.c 374-437): the linked list of tone events in an explicit store. The locale
    \<open>tone_fifo\<close> is the contract of its two operations; interpreted on the code it gives the refinement to
    one queue per connection. Tone_Threads runs the same two operations in many threads: one step allocates a
    node, takes or releases \<open>tone_mutex\<close>, follows one link, writes one pointer or frees (\<open>thread_step\<close>, the
    relation \<open>tone_step\<close>), and steps of different threads come in any order. \<open>hist\<close> records the operations in
    the order in which they take effect; no step reads it. Tone_Finish has the measure that counts the phases and
    nodes that are left.
  \<^item> Dsp (the rest of dsp.c): the commands to the signal processor over a log of the calls of the VAPI
    library, whose answers are arbitrary; typestate of messages and locks, modes of the connections.
  \<^item> Netlink_Attr (libnetlink.c 509-663): attributes in a message, a byte list with loads and stores of 1, 2 and
    4 bytes in either byte order that fail outside it. Attribute pointers are offsets. A list of attributes has
    a reference encoding \<open>enc_attrs\<close> and a predicate \<open>attrs_at\<close> that says where it lies in a buffer. Netlink_Compat
    has the attributes nested behind a structure and the macro of libnetlink.h that reads them.
  \<^item> Netlink (libnetlink.c 28-507): handles, requests and the four loops over datagrams (\<open>dump_walk\<close>, \<open>talk_walk\<close>,
    \<open>listen_walk\<close> inside a datagram, \<open>dump_loop\<close> and the like over the datagrams). \<open>nl_world\<close> holds the datagrams that
    will arrive and the log of socket calls. The locale \<open>msg_filter\<close> is the contract of the callbacks: on a
    message of a known form the C callback does what a function on messages does; inside it the loops over bytes
    refine \<open>dump_datagrams\<close>, a fold over messages.
  \<^item> Ll_Map (ll_map.c): the 16 buckets of links, with the cache of the last name. The invariant \<open>table_ok\<close> is kept by
    every message; \<open>ll_view\<close> abstracts the table to a map, the contract is the locale \<open>link_table\<close>, and both
    this locale and \<open>msg_filter\<close> are interpreted on the code. Netlink_Replay has the two other loops over
    messages: under the contract \<open>msg_filter\<close> both \<open>rtnl_listen\<close> and \<open>rtnl_from_file\<close> feed a handler with the
    messages in order (\<open>feed\<close>), up to the first one it refuses.
  \<^item> Gateway, Iface and Arp (if.c): Gateway the search for the default route (\<open>filter_default_gw\<close> interprets
    \<open>msg_filter\<close>) and the checksum; Iface the queries of interfaces, the ping (over a log of system calls that includes
    the sleeps, with the sockets that are non-blocking) and the ARP table; Arp what the search in a printed ARP table finds, and the hardware address of the default gateway.
  \<^item> Process (process.c 40-209, 318-395 and 465-505): the search for a process id in /proc, the marks in inittab
    and inetd.conf, which are one character written in place, and the flag files, which are a set of names
    (locale \<open>name_set\<close>). Capture (process.c 211-316 and 397-463): starting programs and capturing their output, up to
    the final \<open>waitpid\<close>, which may never return; parent, pipe and child are also a step relation \<open>cap_step\<close> with an invariant and a measure.
  \<^item> System_Info (system.c): the reports, with the static buffers and counters of system.c in \<open>sys_state\<close>.
  \<^item> Api_Calls and Api_Heap (the modules together): a program that makes any sequence of 39 calls of the modules
    that use files, flags and commands (\<open>api_call\<close>, run by \<open>api\<close>, which applies the functions of the component
    theories; it maps to no code of its own). \<open>frame\<close> is what one call may change; the locale \<open>confined_calls\<close>
    is the contract of calls that stay within it, interpreted on \<open>api\<close>.

  \<^bold>\<open>What the theorems show.\<close> For every configuration file: what a saved configuration is parsed as, its
  normal form, field by field (fields that are lost, values that change, lines that are out of bounds), and which
  configurations are read back unchanged. For every table: names and codes correspond one to one. For parsers: the block that is returned is the only one that
  stays, and NULL where the callers dereference it. For the structure of sip.conf: whatever the file holds it is well typed.
  For the queue: first-in first-out per connection, also when threads interleave: every history of effects is one of
  the sequential queue, no thread follows a dangling pointer, and every schedule completes all operations. For the commands to
  the signal processor: balanced messages and locks on every path, and the mode in which a failure leaves the
  connection. For netlink: what was added is parsed back, also nested; each of the five builders refuses what exceeds its limit and
  otherwise changes nothing but the new bytes and the length; an
  exchange over any division into datagrams gives what the exchange of messages gives. For the clients of netlink:
  the link table answers with what the kernel reported last, the default gateway is that of the last default route
  of the main table, and its hardware address is that of the last entry of the ARP table for it; a socket and a file
  with the same messages give the same link table. For sequences of calls across the modules: no call changes a
  file it does not own, what another module reads back is not affected, streams that stay open are bounded, and
  heap blocks that stay are counted exactly. For programs: exactly one character of the file changes;
  capturing returns exactly if the program ends and buffer and pipe hold its output. A ping returns whatever the
  kernel answers. The percentages of the CPU usage are right to the printed decimal. A defect of the sources is a theorem about
  the definitions as they are; none of the definitions repairs the code.

  \<^bold>\<open>Parameters.\<close> Code that is not under src/ is a parameter: the DAHDI driver (the answers to \<open>open\<close> and
  \<open>ioctl\<close>, the masks of its header), the VAPI library (its answers, constants, sizes and bit fields), the
  shell (for sequences of calls with a set \<open>S\<close> of files that each command may change), the signedness of \<open>char\<close>, the contents of memory before it is written, the byte order, the answers of
  the kernel to system calls (a function of the number of the call), the datagrams and packets it delivers, its
  constants \<open>RTA_MAX\<close> and \<open>IFLA_MAX\<close>, the names and files of /proc, the capacity of a pipe, what a program
  writes and whether it ends, and the sign with which a NaN is printed. Laws about them are
  hypotheses, and each property with a hypothesis has a witness that instantiates it.

  \<^bold>\<open>Loops.\<close> Loops over a file end because each \<open>fgets\<close> consumes a byte (a measure);
  the walks over the list of tones are partial functions into \<open>option\<close>, and that they end is part of
  the properties (with threads, each round is a step, and some thread can always take one while work is left). Loops
  over a datagram end because every message is at least a header long; a loop over datagrams that has used up those
  that arrive waits forever, which is \<open>None\<close>. A receive on a socket that is not non-blocking
  waits too, when nothing has arrived; a ping has made its socket non-blocking, so it makes at most 30 receives and 73
  system calls, sleeps included, and sleeps at most 1.3 seconds. Capturing may wait forever, in a read or in
  \<open>waitpid\<close>; both models of it tell when. No definition uses fuel.

  \<^bold>\<open>Bounds.\<close> The buffers have the sizes of the sources: 16384 and 8192 bytes for datagrams, 16 for a link name,
  256 for lines and paths (a flag name of 240 characters does not fit), 18 for a printed hardware address. Lengths
  of netlink messages are 32 bits and of attributes 16 bits, with the wrap-around written out. The counters of the CPU
  usage have 64 bits, and a sum that does not fit is the fault \<open>Signed_Overflow\<close>. The exponents of floating-point
  numbers are not bounded: those that the counters give are far inside both formats.

  \<^bold>\<open>Not modelled.\<close> Messages to syslog and to the standard error, which nothing reads (with the macros of log.h) and
  output under the DEBUG macros.
\<close>

end
